(* ===== verification/Go_Prelude.thy ===== *)
theory Go_Prelude
  imports Main "HOL-Library.Word"
begin

text \<open>
  What the components share: Go's panics as values, byte slices with the spare capacity behind
  their length, big-endian and little-endian reads, the verbs of \<open>fmt\<close> the code uses, and the
  functions of \<open>strings\<close> and \<open>strconv\<close> the code calls. A Go string is a list of bytes, written as
  an Isabelle \<^typ>\<open>string\<close> (its characters are 8-bit).
\<close>

unbundle bit_operations_syntax

type_synonym byte = "8 word"
type_synonym u16 = "16 word"
type_synonym u32 = "32 word"
type_synonym u64 = "64 word"

lemma unat_byte_less: "unat (b :: byte) < 256"
  by (rule order_less_le_trans [OF unsigned_less]) simp

lemma unat_u16_less: "unat (w :: u16) < 65536"
  by (rule order_less_le_trans [OF unsigned_less]) simp

text \<open>
  Collections: \<open>go_simps\<close> rewrites the plumbing of panics and slices, \<open>reader_ok\<close> holds what the
  register readers guarantee.
\<close>

named_theorems go_simps
named_theorems reader_ok

section \<open>Panics\<close>

text \<open>A computation that may panic: an index out of range, a nil receiver.\<close>

datatype 'a outcome = Ret 'a | Panic

fun obind :: "'a outcome \<Rightarrow> ('a \<Rightarrow> 'b outcome) \<Rightarrow> 'b outcome" where
  "obind (Ret x) f = f x"
| "obind Panic f = Panic"

fun returns :: "'a outcome \<Rightarrow> bool" where
  "returns (Ret x) = True"
| "returns Panic = False"

lemma obind_Ret_iff: "obind m f = Ret y \<longleftrightarrow> (\<exists>x. m = Ret x \<and> f x = Ret y)"
  by (cases m) auto

lemma returns_iff: "returns m \<longleftrightarrow> (\<exists>x. m = Ret x)"
  by (cases m) auto

lemma obind_assoc [go_simps]: "obind (obind m f) g = obind m (\<lambda>x. obind (f x) g)"
  by (cases m) auto

section \<open>Slices\<close>

text \<open>
  A byte slice is a window on a backing array: the bytes up to its length and, behind them, the
  bytes up to its capacity. Go checks \<open>s[a:b]\<close> against the capacity and \<open>s[i]\<close> against the length.
\<close>

record slice =
  sl_data :: "byte list"
  sl_spare :: "byte list"

definition sl_len :: "slice \<Rightarrow> nat" where
  "sl_len s = length (sl_data s)"

definition sl_cap :: "slice \<Rightarrow> nat" where
  "sl_cap s = length (sl_data s) + length (sl_spare s)"

definition whole :: "byte list \<Rightarrow> slice" where
  "whole bs = \<lparr>sl_data = bs, sl_spare = []\<rparr>"

definition reslice :: "slice \<Rightarrow> nat \<Rightarrow> nat \<Rightarrow> slice outcome" where
  "reslice s a b =
     (if a \<le> b \<and> b \<le> sl_cap s
      then let all = sl_data s @ sl_spare s
           in Ret \<lparr>sl_data = take (b - a) (drop a all), sl_spare = drop b all\<rparr>
      else Panic)"

definition index_at :: "slice \<Rightarrow> nat \<Rightarrow> byte outcome" where
  "index_at s i = (if i < sl_len s then Ret (sl_data s ! i) else Panic)"

lemma sl_len_whole [simp]: "sl_len (whole bs) = length bs"
  by (simp add: sl_len_def whole_def)

lemma sl_cap_whole [simp]: "sl_cap (whole bs) = length bs"
  by (simp add: sl_cap_def whole_def)

lemma sl_data_whole [simp]: "sl_data (whole bs) = bs"
  by (simp add: whole_def)

lemma sl_len_le_cap: "sl_len s \<le> sl_cap s"
  by (simp add: sl_len_def sl_cap_def)

lemma reslice_Ret:
  "a \<le> b \<Longrightarrow> b \<le> sl_cap s \<Longrightarrow>
   reslice s a b = Ret \<lparr>sl_data = take (b - a) (drop a (sl_data s @ sl_spare s)),
                        sl_spare = drop b (sl_data s @ sl_spare s)\<rparr>"
  by (simp add: reslice_def Let_def)

text \<open>Within the length, the window is a sublist of the data.\<close>

lemma reslice_data:
  assumes "a \<le> b" "b \<le> sl_len s"
  shows "\<exists>t. reslice s a b = Ret t \<and> sl_data t = take (b - a) (drop a (sl_data s))
             \<and> sl_cap t = sl_cap s - a"
proof -
  have cap: "b \<le> sl_cap s"
    using assms(2) sl_len_le_cap le_trans by blast
  have "take (b - a) (drop a (sl_data s @ sl_spare s)) = take (b - a) (drop a (sl_data s))"
    using assms by (simp add: sl_len_def)
  then show ?thesis
    using assms cap by (auto simp: reslice_Ret sl_cap_def sl_len_def)
qed

section \<open>Byte order\<close>

definition be16 :: "byte \<Rightarrow> byte \<Rightarrow> u16" where
  "be16 b0 b1 = ucast b1 OR push_bit 8 (ucast b0)"

definition be32 :: "byte \<Rightarrow> byte \<Rightarrow> byte \<Rightarrow> byte \<Rightarrow> u32" where
  "be32 b0 b1 b2 b3 = ucast b3 OR push_bit 8 (ucast b2) OR push_bit 16 (ucast b1)
     OR push_bit 24 (ucast b0)"

definition be64 :: "byte \<Rightarrow> byte \<Rightarrow> byte \<Rightarrow> byte \<Rightarrow> byte \<Rightarrow> byte \<Rightarrow> byte \<Rightarrow> byte \<Rightarrow> u64" where
  "be64 b0 b1 b2 b3 b4 b5 b6 b7 =
     ucast b7 OR push_bit 8 (ucast b6) OR push_bit 16 (ucast b5) OR push_bit 24 (ucast b4)
     OR push_bit 32 (ucast b3) OR push_bit 40 (ucast b2) OR push_bit 48 (ucast b1)
     OR push_bit 56 (ucast b0)"

definition put_be16 :: "u16 \<Rightarrow> byte list" where
  "put_be16 v = [ucast (drop_bit 8 v), ucast v]"

definition put_le16 :: "u16 \<Rightarrow> byte list" where
  "put_le16 v = [ucast v, ucast (drop_bit 8 v)]"

text \<open>\<open>binary.BigEndian.Uint16(b)\<close> and its relatives read \<open>b[0]\<close>, \<open>b[1]\<close>, \<dots> and panic when \<open>b\<close> is
  too short.\<close>

fun be_uint16 :: "slice \<Rightarrow> u16 outcome" where
  "be_uint16 s = (case sl_data s of b0 # b1 # _ \<Rightarrow> Ret (be16 b0 b1) | _ \<Rightarrow> Panic)"

fun le_uint16 :: "slice \<Rightarrow> u16 outcome" where
  "le_uint16 s = (case sl_data s of b0 # b1 # _ \<Rightarrow> Ret (be16 b1 b0) | _ \<Rightarrow> Panic)"

fun be_uint32 :: "slice \<Rightarrow> u32 outcome" where
  "be_uint32 s =
     (case sl_data s of b0 # b1 # b2 # b3 # _ \<Rightarrow> Ret (be32 b0 b1 b2 b3) | _ \<Rightarrow> Panic)"

fun be_uint64 :: "slice \<Rightarrow> u64 outcome" where
  "be_uint64 s =
     (case sl_data s of b0 # b1 # b2 # b3 # b4 # b5 # b6 # b7 # _ \<Rightarrow>
        Ret (be64 b0 b1 b2 b3 b4 b5 b6 b7) | _ \<Rightarrow> Panic)"

definition u16_at :: "slice \<Rightarrow> nat \<Rightarrow> u16 outcome" where
  "u16_at s off = obind (reslice s off (off + 2)) be_uint16"

definition u32_at :: "slice \<Rightarrow> nat \<Rightarrow> u32 outcome" where
  "u32_at s off = obind (reslice s off (off + 4)) be_uint32"

definition u64_at :: "slice \<Rightarrow> nat \<Rightarrow> u64 outcome" where
  "u64_at s off = obind (reslice s off (off + 8)) be_uint64"

lemma be16_bit: "bit (be16 b0 b1) n \<longleftrightarrow> (if n < 8 then bit b1 n else n < 16 \<and> bit b0 (n - 8))"
  by (auto simp: be16_def bit_simps dest: bit_imp_le_length)

lemma be16_put_be16 [simp]: "be16 (ucast (drop_bit 8 (v :: u16))) (ucast v) = v"
  by (rule bit_word_eqI) (auto simp: be16_bit bit_simps)

lemma be_uint16_put [simp]: "be_uint16 \<lparr>sl_data = put_be16 v, sl_spare = sp\<rparr> = Ret v"
  by (simp add: put_be16_def)

lemma le_uint16_put [simp]: "le_uint16 \<lparr>sl_data = put_le16 v, sl_spare = sp\<rparr> = Ret v"
  by (simp add: put_le16_def)

lemma length_put [simp]: "length (put_be16 v) = 2" "length (put_le16 v) = 2"
  by (simp_all add: put_be16_def put_le16_def)

lemma take_drop_cons:
  "i < length xs \<Longrightarrow> take (Suc n) (drop i xs) = xs ! i # take n (drop (Suc i) xs)"
  by (simp add: Cons_nth_drop_Suc [symmetric])

lemma u16_at_Ret:
  assumes "off + 2 \<le> sl_len s"
  shows "u16_at s off = Ret (be16 (sl_data s ! off) (sl_data s ! (off + 1)))"
proof -
  obtain t where t: "reslice s off (off + 2) = Ret t"
      "sl_data t = take 2 (drop off (sl_data s))"
    using reslice_data [of off "off + 2" s] assms by auto
  have "take 2 (drop off (sl_data s)) = [sl_data s ! off, sl_data s ! (off + 1)]"
    using assms by (simp add: sl_len_def numeral_2_eq_2 take_drop_cons)
  with t show ?thesis by (simp add: u16_at_def)
qed

text \<open>A read at a fixed offset returns as soon as the capacity covers it.\<close>

lemma returns_u16_at: "returns (u16_at s off) \<longleftrightarrow> off + 2 \<le> sl_cap s"
proof (cases "off + 2 \<le> sl_cap s")
  case True
  let ?all = "sl_data s @ sl_spare s"
  have "take 2 (drop off ?all) = [?all ! off, ?all ! (off + 1)]"
    using True by (simp only: sl_cap_def numeral_2_eq_2 take_drop_cons length_append) simp
  then show ?thesis
    using True by (simp add: u16_at_def reslice_Ret)
next
  case False
  then show ?thesis by (simp add: u16_at_def reslice_def)
qed

lemma u32_at_Ret:
  assumes "off + 4 \<le> sl_len s"
  shows "u32_at s off = Ret (be32 (sl_data s ! off) (sl_data s ! (off + 1))
           (sl_data s ! (off + 2)) (sl_data s ! (off + 3)))"
proof -
  obtain t where t: "reslice s off (off + 4) = Ret t"
      "sl_data t = take 4 (drop off (sl_data s))"
    using reslice_data [of off "off + 4" s] assms by auto
  have "take 4 (drop off (sl_data s)) = [sl_data s ! off, sl_data s ! (off + 1),
      sl_data s ! (off + 2), sl_data s ! (off + 3)]"
    using assms by (simp add: sl_len_def eval_nat_numeral take_drop_cons)
  with t show ?thesis by (simp add: u32_at_def)
qed

lemma returns_u64_at:
  assumes "off + 8 \<le> sl_len s"
  shows "returns (u64_at s off)"
proof -
  obtain t where t: "reslice s off (off + 8) = Ret t"
      "sl_data t = take 8 (drop off (sl_data s))"
    using reslice_data [of off "off + 8" s] assms by auto
  have "take 8 (drop off (sl_data s)) = map (\<lambda>k. sl_data s ! (off + k)) [0..<8]"
    using assms by (simp add: sl_len_def eval_nat_numeral take_drop_cons upt_rec)
  with t show ?thesis by (simp add: u64_at_def upt_rec eval_nat_numeral)
qed

end
