(* ===== verification/Go_Strings.thy ===== *)
theory Go_Strings
  imports Go_Prelude
begin

text \<open>
  Strings and error values: the functions of \<open>strings\<close> and \<open>strconv\<close> and the verbs of \<open>fmt\<close> that the
  code uses. An error is its message, because the code inspects errors through \<open>err.Error()\<close> only.
\<close>

section \<open>Errors\<close>

datatype goerror = Errorf string

fun Error :: "goerror \<Rightarrow> string" where
  "Error (Errorf msg) = msg"

text \<open>\<open>fmt.Errorf("<prefix>: %w", err)\<close>.\<close>

definition wrap :: "string \<Rightarrow> goerror \<Rightarrow> goerror" where
  "wrap pre err = Errorf (pre @ '': '' @ Error err)"

lemma Error_wrap [simp]: "Error (wrap pre err) = pre @ '': '' @ Error err"
  by (simp add: wrap_def)

lemma goerror_eqI: "Error e = Error e' \<Longrightarrow> e = e'"
  by (cases e; cases e') simp

section \<open>Contexts\<close>

text \<open>
  A context, as far as the functions look at it: after \<open>ctx_left\<close> further looks it is cancelled
  (never, when \<open>None\<close>), with the error \<open>ctx_err\<close>.
\<close>

record goctx =
  ctx_left :: "nat option"
  ctx_err :: goerror

definition ctx_done :: "goctx \<Rightarrow> bool \<times> goctx" where
  "ctx_done ctx =
     (case ctx_left ctx of
        None \<Rightarrow> (False, ctx)
      | Some 0 \<Rightarrow> (True, ctx)
      | Some (Suc n) \<Rightarrow> (False, ctx\<lparr>ctx_left := Some n\<rparr>))"

section \<open>Searching\<close>

fun has_prefix :: "string \<Rightarrow> string \<Rightarrow> bool" where
  "has_prefix [] s = True"
| "has_prefix (p # ps) [] = False"
| "has_prefix (p # ps) (c # cs) = (if p = c then has_prefix ps cs else False)"

fun str_contains :: "string \<Rightarrow> string \<Rightarrow> bool" where
  "str_contains pat [] = (pat = [])"
| "str_contains pat (c # cs) = (if has_prefix pat (c # cs) then True else str_contains pat cs)"

lemma has_prefix_iff: "has_prefix p s \<longleftrightarrow> (\<exists>t. s = p @ t)"
  by (induction p s rule: has_prefix.induct) auto

lemma str_contains_iff: "str_contains pat s \<longleftrightarrow> (\<exists>a b. s = a @ pat @ b)"
proof (induction s)
  case Nil
  show ?case by auto
next
  case (Cons c cs)
  show ?case
  proof
    assume "str_contains pat (c # cs)"
    with Cons show "\<exists>a b. c # cs = a @ pat @ b"
      by (auto simp: has_prefix_iff split: if_splits) (metis append_Cons append_Nil)+
  next
    assume "\<exists>a b. c # cs = a @ pat @ b"
    then obtain a b where ab: "c # cs = a @ pat @ b" by blast
    show "str_contains pat (c # cs)"
    proof (cases a)
      case Nil
      with ab have "has_prefix pat (c # cs)" unfolding has_prefix_iff by auto
      then show ?thesis by simp
    next
      case (Cons a0 a')
      with ab have "cs = a' @ pat @ b" by simp
      with Cons.IH show ?thesis by auto
    qed
  qed
qed

lemma str_contains_append:
  "str_contains pat s \<Longrightarrow> str_contains pat (s @ t)"
  "str_contains pat t \<Longrightarrow> str_contains pat (s @ t)"
  by (metis append.assoc str_contains_iff)+

text \<open>\<open>cut_at sep s\<close>: the text before and after the first occurrence of \<open>sep\<close>.\<close>

fun cut_at :: "string \<Rightarrow> string \<Rightarrow> (string \<times> string) option" where
  "cut_at sep [] = None"
| "cut_at sep (c # cs) =
     (if has_prefix sep (c # cs) then Some ([], drop (length sep) (c # cs))
      else map_option (\<lambda>(a, b). (c # a, b)) (cut_at sep cs))"

lemma cut_at_Some: "cut_at sep s = Some (a, b) \<Longrightarrow> s = a @ sep @ b"
  by (induction s arbitrary: a) (auto simp: has_prefix_iff split: if_splits)

lemma cut_at_shorter: "sep \<noteq> [] \<Longrightarrow> cut_at sep s = Some (a, b) \<Longrightarrow> length b < length s"
  by (drule cut_at_Some) simp

text \<open>\<open>strings.SplitN(s, sep, n)\<close> for \<open>n > 0\<close> and \<open>strings.Split(s, sep)\<close>, with a non-empty separator.\<close>

fun SplitN :: "string \<Rightarrow> string \<Rightarrow> nat \<Rightarrow> string list" where
  "SplitN s sep 0 = []"
| "SplitN s sep (Suc 0) = [s]"
| "SplitN s sep (Suc (Suc n)) =
     (case cut_at sep s of None \<Rightarrow> [s] | Some (a, b) \<Rightarrow> a # SplitN b sep (Suc n))"

definition Split :: "string \<Rightarrow> string \<Rightarrow> string list" where
  "Split s sep = SplitN s sep (Suc (length s))"

lemma SplitN_nonempty: "SplitN s sep (Suc n) \<noteq> []"
  by (cases n) (auto split: option.splits)

text \<open>\<open>strings.TrimRight(s, cutset)\<close>.\<close>

definition TrimRight :: "string \<Rightarrow> string \<Rightarrow> string" where
  "TrimRight s cutset = rev (dropWhile (\<lambda>c. c \<in> set cutset) (rev s))"

lemma TrimRight_id: "s = [] \<or> last s \<notin> set cutset \<Longrightarrow> TrimRight s cutset = s"
  by (cases s rule: rev_cases) (auto simp: TrimRight_def)

lemma TrimRight_append: "set t \<subseteq> set cutset \<Longrightarrow> TrimRight (s @ t) cutset = TrimRight s cutset"
  unfolding TrimRight_def rev_append
  by (subst dropWhile_append2) (auto simp: subset_iff)

section \<open>Numbers\<close>

definition digit :: "nat \<Rightarrow> char" where
  "digit d = char_of (48 + d)"

fun show_nat :: "nat \<Rightarrow> string" where
  "show_nat n = (if n < 10 then [digit n] else show_nat (n div 10) @ [digit (n mod 10)])"

declare show_nat.simps [simp del]

definition show_int :: "int \<Rightarrow> string" where
  "show_int i = (if i < 0 then ''-'' @ show_nat (nat (- i)) else show_nat (nat i))"

definition hex_digit :: "nat \<Rightarrow> char" where
  "hex_digit d = (if d < 10 then char_of (48 + d) else char_of (55 + d))"

definition hex_lower :: "nat \<Rightarrow> char" where
  "hex_lower d = (if d < 10 then char_of (48 + d) else char_of (87 + d))"

text \<open>The verbs \<open>%02X\<close> on a byte and \<open>%04X\<close> on 16 bits; \<open>hex.EncodeToString\<close>.\<close>

definition fmt_02X :: "byte \<Rightarrow> string" where
  "fmt_02X b = [hex_digit (unat b div 16), hex_digit (unat b mod 16)]"

definition fmt_04X :: "u16 \<Rightarrow> string" where
  "fmt_04X w = [hex_digit (unat w div 4096), hex_digit (unat w div 256 mod 16),
     hex_digit (unat w div 16 mod 16), hex_digit (unat w mod 16)]"

definition hex_EncodeToString :: "byte list \<Rightarrow> string" where
  "hex_EncodeToString bs =
     concat (map (\<lambda>b. [hex_lower (unat b div 16), hex_lower (unat b mod 16)]) bs)"

definition is_digit :: "char \<Rightarrow> bool" where
  "is_digit c \<longleftrightarrow> 48 \<le> (of_char c :: nat) \<and> (of_char c :: nat) \<le> 57"

fun digits_value :: "nat \<Rightarrow> string \<Rightarrow> nat" where
  "digits_value acc [] = acc"
| "digits_value acc (c # cs) = digits_value (10 * acc + (of_char c - 48)) cs"

text \<open>\<open>strconv.Atoi\<close> on a string of decimal digits: an error when the value exceeds \<open>int\<close>.\<close>

definition Atoi_digits :: "string \<Rightarrow> goerror + int" where
  "Atoi_digits s =
     (let v = digits_value 0 s
      in if v < 2 ^ 63 then Inr (int v)
         else Inl (Errorf (''strconv.Atoi: parsing '' @ [CHR 0x22] @ s @ [CHR 0x22] @
                '': value out of range'')))"

lemma digit_of_char: "d < 10 \<Longrightarrow> (of_char (digit d) :: nat) = 48 + d"
  by (simp add: digit_def)

lemma is_digit_digit: "d < 10 \<Longrightarrow> is_digit (digit d)"
  by (simp add: is_digit_def digit_of_char)

lemma show_nat_digits: "list_all is_digit (show_nat n)"
proof (induction n rule: show_nat.induct)
  case (1 n)
  then show ?case
    by (subst show_nat.simps) (simp add: is_digit_digit)
qed

lemma show_nat_nonempty: "show_nat n \<noteq> []"
  by (subst show_nat.simps) simp

lemma digits_value_append:
  "digits_value acc (s @ [c]) = 10 * digits_value acc s + (of_char c - 48)"
  by (induction acc s rule: digits_value.induct) simp_all

lemma digits_value_show_nat: "digits_value 0 (show_nat n) = n"
proof (induction n rule: show_nat.induct)
  case (1 n)
  show ?case
  proof (cases "n < 10")
    case True
    then show ?thesis by (subst show_nat.simps) (simp add: digit_of_char)
  next
    case False
    with 1 show ?thesis
      by (subst show_nat.simps) (simp add: digits_value_append digit_of_char)
  qed
qed

lemma Atoi_show_nat: "n < 2 ^ 63 \<Longrightarrow> Atoi_digits (show_nat n) = Inr (int n)"
  by (simp add: Atoi_digits_def digits_value_show_nat)

lemma show_nat_inj: "show_nat m = show_nat n \<longleftrightarrow> m = n"
  by (metis digits_value_show_nat)

lemma hex_digit_inj: "a < 16 \<Longrightarrow> b < 16 \<Longrightarrow> hex_digit a = hex_digit b \<longleftrightarrow> a = b"
  by (auto simp: hex_digit_def split: if_splits)

end
