(* ===== verification/Modbus.thy ===== *)
theory Modbus
  imports Go_Strings
begin

text \<open>
  The Modbus framing of \<open>et/tcp_transport.go\<close> and \<open>et/dtls_transport.go\<close>: the request frames of both
  transports, the CRC of the RTU framing, and the two response parsers. Parsers work on slices, so
  that what they return keeps the spare capacity of the receive buffer, and every index they use is
  checked as Go checks it.
\<close>

section \<open>Checksum\<close>

text \<open>One step of the inner loop \<open>for i := 0; i < 8; i++\<close>.\<close>

definition crc_shift :: "u16 \<Rightarrow> u16" where
  "crc_shift crc = (if crc AND 1 \<noteq> 0 then drop_bit 1 crc XOR 0xA001 else drop_bit 1 crc)"

definition crc_byte :: "u16 \<Rightarrow> byte \<Rightarrow> u16" where
  "crc_byte crc b = (crc_shift ^^ 8) (crc XOR ucast b)"

definition calculateCRC16 :: "byte list \<Rightarrow> u16" where
  "calculateCRC16 data = foldl crc_byte 0xFFFF data"

section \<open>Requests\<close>

text \<open>The RTU request of \<open>dtlsTransport.doRead\<close>.\<close>

definition rtu_request :: "u16 \<Rightarrow> u16 \<Rightarrow> byte list" where
  "rtu_request startReg quantity =
     (let head = [0xF7, 0x03] @ put_be16 startReg @ put_be16 quantity
      in head @ put_le16 (calculateCRC16 head))"

text \<open>\<open>tcpTransport.buildRequest\<close>: the transaction id is incremented first; it wraps at 16 bits.\<close>

definition buildRequest :: "u16 \<Rightarrow> u16 \<Rightarrow> u16 \<Rightarrow> u16 \<times> byte list" where
  "buildRequest txID startReg quantity =
     (let txID' = txID + 1
      in (txID', put_be16 txID' @ put_be16 0 @ put_be16 6 @ [0xF7, 0x03]
                 @ put_be16 startReg @ put_be16 quantity))"

section \<open>Responses\<close>

definition exception_error :: "byte \<Rightarrow> byte \<Rightarrow> goerror" where
  "exception_error funcCode exceptionCode =
     Errorf (''modbus error response: function 0x'' @ fmt_02X funcCode @ '', exception 0x''
             @ fmt_02X exceptionCode)"

definition incomplete_error :: "nat \<Rightarrow> nat \<Rightarrow> goerror" where
  "incomplete_error expected got =
     Errorf (''incomplete modbus data: expected '' @ show_nat expected @ '' bytes, got ''
             @ show_nat got)"

definition tcp_short_error :: "nat \<Rightarrow> goerror" where
  "tcp_short_error n = Errorf (''modbus TCP response too short: '' @ show_nat n @ '' bytes'')"

definition rtu_short_error :: "nat \<Rightarrow> goerror" where
  "rtu_short_error n = Errorf (''modbus response too short: '' @ show_nat n @ '' bytes'')"

definition crc_error :: "u16 \<Rightarrow> u16 \<Rightarrow> goerror" where
  "crc_error expected actual =
     Errorf (''modbus CRC mismatch: expected '' @ fmt_04X expected @ '', got '' @ fmt_04X actual)"

definition parseModbusTCPResponse :: "slice \<Rightarrow> (goerror + slice) outcome" where
  "parseModbusTCPResponse data =
     (if sl_len data < 9
      then Ret (Inl (tcp_short_error (sl_len data)))
      else obind (index_at data 7) (\<lambda>funcCode.
           if funcCode AND 0x80 \<noteq> 0
           then obind (index_at data 8) (\<lambda>exceptionCode.
                  Ret (Inl (exception_error funcCode exceptionCode)))
           else obind (index_at data 8) (\<lambda>b.
                let byteCount = unat b
                in if sl_len data < 9 + byteCount
                   then Ret (Inl (incomplete_error (9 + byteCount) (sl_len data)))
                   else obind (reslice data 9 (9 + byteCount)) (\<lambda>d. Ret (Inr d)))))"

definition parseModbusBulkResponse :: "slice \<Rightarrow> (goerror + slice) outcome" where
  "parseModbusBulkResponse data =
     (let n = sl_len data in
      if n < 7
      then Ret (Inl (rtu_short_error n))
      else obind (obind (reslice data (n - 2) n) le_uint16) (\<lambda>expectedCRC.
           obind (reslice data 2 (n - 2)) (\<lambda>body.
           let actualCRC = calculateCRC16 (sl_data body) in
           if expectedCRC \<noteq> actualCRC
           then Ret (Inl (crc_error expectedCRC actualCRC))
           else obind (index_at data 3) (\<lambda>funcCode.
                if funcCode AND 0x80 \<noteq> 0
                then obind (index_at data 4) (\<lambda>exceptionCode.
                       Ret (Inl (exception_error funcCode exceptionCode)))
                else obind (index_at data 4) (\<lambda>b.
                     let byteCount = unat b
                     in if n < 5 + byteCount + 2
                        then Ret (Inl (incomplete_error (5 + byteCount + 2) n))
                        else obind (reslice data 5 (5 + byteCount)) (\<lambda>d. Ret (Inr d)))))))"

text \<open>\<open>isConnClosed\<close> and \<open>isIllegalDataAddress\<close> classify an error by its message.\<close>

definition isConnClosed :: "goerror \<Rightarrow> bool" where
  "isConnClosed err =
     (let msg = Error err in
      str_contains ''conn is closed'' msg \<or> str_contains ''connection refused'' msg \<or>
      str_contains ''broken pipe'' msg \<or> str_contains ''reset by peer'' msg)"

definition isIllegalDataAddress :: "goerror \<Rightarrow> bool" where
  "isIllegalDataAddress err = str_contains ''exception 0x02'' (Error err)"

section \<open>Facts on the checksum\<close>

lemma crc_shift_bit15: "bit (crc_shift c) 15 \<longleftrightarrow> bit c 0"
  by (auto simp: crc_shift_def and_one_eq bit_simps odd_iff_mod_2_eq_one bit_0
      dest: bit_imp_le_length)

lemma xor_left_cancel: "a XOR b = a XOR c \<longleftrightarrow> b = (c :: 'a::len word)"
  by (metis xor.assoc xor.left_neutral xor_self_eq)

lemma xor_right_cancel: "b XOR a = c XOR a \<longleftrightarrow> b = (c :: 'a::len word)"
  by (metis xor.commute xor_left_cancel)

lemma crc_shift_inj: "crc_shift c = crc_shift d \<longleftrightarrow> c = d"
proof
  assume eq: "crc_shift c = crc_shift d"
  then have b0: "bit c 0 \<longleftrightarrow> bit d 0" by (metis crc_shift_bit15)
  then have "drop_bit 1 c = drop_bit 1 d"
    using eq by (auto simp: crc_shift_def and_one_eq bit_0 odd_iff_mod_2_eq_one xor_right_cancel
        split: if_splits)
  then have "bit c (Suc n) \<longleftrightarrow> bit d (Suc n)" for n
    by (metis bit_drop_bit_eq comp_apply plus_1_eq_Suc)
  with b0 show "c = d" by (intro bit_word_eqI) (metis old.nat.exhaust)
qed simp

lemma funpow_inj:
  fixes f :: "'a \<Rightarrow> 'a"
  assumes "\<And>x y. f x = f y \<longleftrightarrow> x = y"
  shows "(f ^^ n) x = (f ^^ n) y \<longleftrightarrow> x = y"
  by (induction n) (simp_all add: assms)

lemma crc_byte_inj_crc: "crc_byte c b = crc_byte d b \<longleftrightarrow> c = d"
  unfolding crc_byte_def by (subst funpow_inj) (simp_all add: crc_shift_inj xor_right_cancel)

lemma ucast_byte_inj: "(ucast (b :: byte) :: u16) = ucast c \<longleftrightarrow> b = c"
proof
  assume "(ucast b :: u16) = ucast c"
  then have "bit b n \<longleftrightarrow> bit c n" if "n < 8" for n
    using that by (auto simp: bit_eq_iff bit_simps)
  then show "b = c" by (intro bit_word_eqI) simp
qed simp

lemma crc_byte_inj_byte: "crc_byte c a = crc_byte c b \<longleftrightarrow> a = b"
  unfolding crc_byte_def
  by (subst funpow_inj) (simp_all add: crc_shift_inj xor_left_cancel ucast_byte_inj)

lemma foldl_crc_inj: "foldl crc_byte c xs = foldl crc_byte d xs \<longleftrightarrow> c = d"
  by (induction xs arbitrary: c d) (simp_all add: crc_byte_inj_crc)

lemma crc_one_byte: "calculateCRC16 (xs @ a # ys) = calculateCRC16 (xs @ b # ys) \<longleftrightarrow> a = b"
  by (simp add: calculateCRC16_def foldl_crc_inj crc_byte_inj_byte)

lemma crc_shift_even: "\<not> bit c 0 \<Longrightarrow> crc_shift c = drop_bit 1 c"
  by (simp add: crc_shift_def and_one_eq bit_0 odd_iff_mod_2_eq_one)

lemma crc_shift_zeros: "(\<forall>i < n. \<not> bit c i) \<Longrightarrow> (crc_shift ^^ n) c = drop_bit n c"
proof (induction n arbitrary: c)
  case (Suc n)
  then have "crc_shift c = drop_bit 1 c" by (simp add: crc_shift_even)
  moreover have "(crc_shift ^^ n) (drop_bit 1 c) = drop_bit n (drop_bit 1 c)"
    using Suc.prems by (intro Suc.IH) (simp add: bit_simps)
  ultimately show ?case by (simp add: funpow_swap1 [symmetric] drop_bit_drop_bit funpow_Suc_right del: funpow.simps)
qed simp

lemma crc_byte_low: "crc_byte c (ucast c) = drop_bit 8 c"
proof -
  have "(crc_shift ^^ 8) (c XOR ucast (ucast c :: byte)) = drop_bit 8 (c XOR ucast (ucast c :: byte))"
    by (rule crc_shift_zeros) (auto simp: bit_simps)
  also have "\<dots> = drop_bit 8 c"
    by (rule bit_word_eqI) (auto simp: bit_simps)
  finally show ?thesis by (simp add: crc_byte_def)
qed

text \<open>
  Appending the checksum of a message, low byte first, gives a message whose checksum is zero: the
  property by which a Modbus device recognises the frames this code sends.
\<close>

lemma crc_residue: "calculateCRC16 (data @ put_le16 (calculateCRC16 data)) = 0"
proof -
  let ?c = "calculateCRC16 data"
  have "crc_byte (drop_bit 8 ?c) (ucast (drop_bit 8 ?c)) = drop_bit 8 (drop_bit 8 ?c)"
    by (rule crc_byte_low)
  also have "\<dots> = 0" by (rule bit_word_eqI) (auto simp: bit_simps dest: bit_imp_le_length)
  finally show ?thesis
    by (simp add: calculateCRC16_def [of "_ @ _"] put_le16_def crc_byte_low
        flip: calculateCRC16_def)
qed

section \<open>Messages\<close>

text \<open>
  The four patterns of \<open>isConnClosed\<close> and the one of \<open>isIllegalDataAddress\<close> start with one of the
  letters c, b, r, e, which no number in a message contains.
\<close>

definition pattern_start :: "char \<Rightarrow> bool" where
  "pattern_start c \<longleftrightarrow> c \<in> set ''cbre''"

lemma str_contains_skip:
  "p \<notin> set s \<Longrightarrow> str_contains (p # ps) (s @ t) = str_contains (p # ps) t"
  by (induction s) auto

lemma hex_digit_not_start: "d < 16 \<Longrightarrow> pattern_start c \<Longrightarrow> c \<noteq> hex_digit d"
  by (auto simp: hex_digit_def pattern_start_def split: if_splits
      dest!: arg_cong [where f = "of_char :: char \<Rightarrow> nat"])

lemma unat_byte_div: "unat (b :: byte) div 16 < 16"
  using unat_byte_less [of b] by simp

lemma unat_u16_div: "unat (w :: u16) div 4096 < 16"
  using unat_u16_less [of w] by simp

lemma skip_numbers:
  assumes "pattern_start p"
  shows "str_contains (p # ps) (fmt_02X b @ t) = str_contains (p # ps) t"
    "str_contains (p # ps) (fmt_04X w @ t) = str_contains (p # ps) t"
    "str_contains (p # ps) (show_nat n @ t) = str_contains (p # ps) t"
    "\<not> str_contains (p # ps) (fmt_02X b)"
    "\<not> str_contains (p # ps) (fmt_04X w)"
    "\<not> str_contains (p # ps) (show_nat n)"
proof -
  have hex: "p \<noteq> hex_digit d" if "d < 16" for d
    using that assms by (rule hex_digit_not_start)
  have "p \<notin> set (fmt_02X b)"
    by (simp add: fmt_02X_def hex unat_byte_div)
  moreover have "p \<notin> set (fmt_04X w)"
    by (simp add: fmt_04X_def hex unat_u16_div)
  moreover have "p \<notin> set (show_nat n)"
    using assms show_nat_digits [of n]
    by (auto simp: pattern_start_def list_all_iff is_digit_def)
  ultimately have no: "p \<notin> set (fmt_02X b)" "p \<notin> set (fmt_04X w)" "p \<notin> set (show_nat n)"
    by simp_all
  show "str_contains (p # ps) (fmt_02X b @ t) = str_contains (p # ps) t"
    "str_contains (p # ps) (fmt_04X w @ t) = str_contains (p # ps) t"
    "str_contains (p # ps) (show_nat n @ t) = str_contains (p # ps) t"
    using no by (simp_all add: str_contains_skip)
  show "\<not> str_contains (p # ps) (fmt_02X b)" "\<not> str_contains (p # ps) (fmt_04X w)"
    "\<not> str_contains (p # ps) (show_nat n)"
    using str_contains_skip [OF no(1), of ps "[]"] str_contains_skip [OF no(2), of ps "[]"]
      str_contains_skip [OF no(3), of ps "[]"] by simp_all
qed

lemma code_two: "has_prefix ''02'' (fmt_02X c) \<longleftrightarrow> c = 2"
proof -
  have chars: "CHR ''0'' = hex_digit 0" "CHR ''2'' = hex_digit 2"
    by (simp_all add: hex_digit_def char_of_def bit_simps)
  have "has_prefix ''02'' (fmt_02X c) \<longleftrightarrow> hex_digit (unat c div 16) = hex_digit 0 \<and>
      hex_digit (unat c mod 16) = hex_digit 2"
    unfolding chars fmt_02X_def by auto
  also have "\<dots> \<longleftrightarrow> unat c div 16 = 0 \<and> unat c mod 16 = 2"
    by (simp add: hex_digit_inj unat_byte_div)
  also have "\<dots> \<longleftrightarrow> unat c = 2" by arith
  also have "\<dots> \<longleftrightarrow> c = 2" using word_unat_eq_iff [of c 2] by simp
  finally show ?thesis .
qed

end
