(* ===== verification/Modbus_Correct.thy ===== *)
theory Modbus_Correct
  imports Modbus
begin

text \<open>
  The Modbus layer is correct: the parsers return on every input and accept exactly the well-formed
  frames, frames survive a round trip, a frame with one corrupted byte is rejected, and the errors
  are classified by their meaning although the code only looks at their text.
\<close>

section \<open>Error classification\<close>

lemmas message_simps = skip_numbers pattern_start_def code_two

lemma exception_error_class:
  "isIllegalDataAddress (exception_error f c) \<longleftrightarrow> c = 2"
  "\<not> isConnClosed (exception_error f c)"
  by (simp_all add: isIllegalDataAddress_def isConnClosed_def exception_error_def message_simps
      has_prefix_iff [of "''0''"])

lemma incomplete_error_class:
  "\<not> isIllegalDataAddress (incomplete_error m n)" "\<not> isConnClosed (incomplete_error m n)"
  by (simp_all add: isIllegalDataAddress_def isConnClosed_def incomplete_error_def message_simps)

lemma short_error_class:
  "\<not> isIllegalDataAddress (tcp_short_error n)" "\<not> isConnClosed (tcp_short_error n)"
  "\<not> isIllegalDataAddress (rtu_short_error n)" "\<not> isConnClosed (rtu_short_error n)"
  by (simp_all add: isIllegalDataAddress_def isConnClosed_def tcp_short_error_def
      rtu_short_error_def message_simps)

lemma crc_error_class:
  "\<not> isIllegalDataAddress (crc_error v w)" "\<not> isConnClosed (crc_error v w)"
  by (simp_all add: isIllegalDataAddress_def isConnClosed_def crc_error_def message_simps)

section \<open>The parsers, branch by branch\<close>

lemma index_at_Ret: "i < sl_len s \<Longrightarrow> index_at s i = Ret (sl_data s ! i)"
  by (simp add: index_at_def)

lemma window: "a \<le> b \<Longrightarrow> b \<le> sl_len s \<Longrightarrow>
   reslice s a b = Ret \<lparr>sl_data = take (b - a) (drop a (sl_data s)),
                        sl_spare = drop b (sl_data s @ sl_spare s)\<rparr>"
  using sl_len_le_cap [of s] by (simp add: reslice_Ret sl_len_def)

text \<open>The part of an accepted frame that is the register data, and the buffer behind it.\<close>

definition payload :: "nat \<Rightarrow> slice \<Rightarrow> slice" where
  "payload off s = \<lparr>sl_data = take (unat (sl_data s ! (off - 1))) (drop off (sl_data s)),
     sl_spare = drop (off + unat (sl_data s ! (off - 1))) (sl_data s @ sl_spare s)\<rparr>"

lemma parseTCP_eq:
  "parseModbusTCPResponse s = Ret
     (let n = sl_len s; f = sl_data s ! 7; c = sl_data s ! 8 in
      if n < 9 then Inl (tcp_short_error n)
      else if f AND 0x80 \<noteq> 0 then Inl (exception_error f c)
      else if n < 9 + unat c then Inl (incomplete_error (9 + unat c) n)
      else Inr (payload 9 s))"
  by (auto simp: parseModbusTCPResponse_def Let_def index_at_Ret window payload_def)

definition frame_crc :: "byte list \<Rightarrow> u16" where
  "frame_crc bs = be16 (bs ! (length bs - 1)) (bs ! (length bs - 2))"

definition body_crc :: "byte list \<Rightarrow> u16" where
  "body_crc bs = calculateCRC16 (take (length bs - 4) (drop 2 bs))"

lemma le_uint16_window:
  assumes "7 \<le> sl_len s"
  shows "obind (reslice s (sl_len s - 2) (sl_len s)) le_uint16 = Ret (frame_crc (sl_data s))"
proof -
  let ?d = "sl_data s" and ?n = "sl_len s"
  have "take 2 (drop i xs) = [xs ! i, xs ! (i + 1)]" if "i + 2 \<le> length xs" for i and xs :: "byte list"
    using that by (simp add: numeral_2_eq_2 take_drop_cons)
  from this [of "?n - 2" ?d] assms
  have "take 2 (drop (?n - 2) ?d) = [?d ! (?n - 2), ?d ! (?n - 1)]"
    by (simp add: sl_len_def Suc_diff_Suc numeral_2_eq_2)
  then show ?thesis
    using assms by (simp add: window frame_crc_def sl_len_def)
qed

lemma parseBulk_eq:
  "parseModbusBulkResponse s = Ret
     (let n = sl_len s; bs = sl_data s; f = bs ! 3; c = bs ! 4 in
      if n < 7 then Inl (rtu_short_error n)
      else if frame_crc bs \<noteq> body_crc bs
      then Inl (crc_error (frame_crc bs) (body_crc bs))
      else if f AND 0x80 \<noteq> 0 then Inl (exception_error f c)
      else if n < 5 + unat c + 2 then Inl (incomplete_error (5 + unat c + 2) n)
      else Inr (payload 5 s))"
proof (cases "sl_len s < 7")
  case False
  then have "reslice s 2 (sl_len s - 2) = Ret
      \<lparr>sl_data = take (sl_len s - 4) (drop 2 (sl_data s)),
       sl_spare = drop (sl_len s - 2) (sl_data s @ sl_spare s)\<rparr>"
    by (simp add: window)
  with False show ?thesis
    using le_uint16_window [of s]
    by (auto simp: parseModbusBulkResponse_def Let_def index_at_Ret window payload_def
        body_crc_def sl_len_def)
qed (simp add: parseModbusBulkResponse_def)

section \<open>What the parsers promise\<close>

text \<open>
  Neither parser panics, on any slice: every index and every sub-slice they use is covered by
  the length checks before it.
\<close>

theorem parsers_return:
  "returns (parseModbusTCPResponse s) \<and> returns (parseModbusBulkResponse s)"
  by (simp add: parseTCP_eq parseBulk_eq)

text \<open>
  An error of a parser is taken for ILLEGAL_DATA_ADDRESS exactly when the frame is a Modbus
  exception with code 2 (behind a valid checksum, for the RTU framing), and no error of a parser is
  ever taken for a closed connection, so a protocol error never triggers a reconnect. The code
  decides both by searching the text of the message.
\<close>

theorem parse_errors_classified:
  assumes "parse = parseModbusTCPResponse \<and> least = 9 \<and> off = 7 \<or>
           parse = parseModbusBulkResponse \<and> least = 7 \<and> off = 3 \<and>
             frame_crc (sl_data s) = body_crc (sl_data s)"
    and "parse s = Ret (Inl e)"
  shows "(isIllegalDataAddress e \<longleftrightarrow>
           least \<le> sl_len s \<and> sl_data s ! off AND 0x80 \<noteq> 0 \<and> sl_data s ! (off + 1) = 2) \<and>
         \<not> isConnClosed e"
  using assms
  by (auto simp: parseTCP_eq parseBulk_eq Let_def exception_error_class incomplete_error_class
      short_error_class split: if_splits)

lemma parse_errors_classified_witness:
  "isIllegalDataAddress (exception_error 0x83 2) \<and>
   parseModbusTCPResponse (whole [0, 1, 0, 0, 0, 3, 0xF7, 0x83, 2])
     = Ret (Inl (exception_error 0x83 2))"
proof -
  let ?s = "whole [0, 1, 0, 0, 0, 3, 0xF7, 0x83, 2]"
  have "parseModbusTCPResponse ?s = Ret (Inl (exception_error 0x83 2))"
    by (simp add: parseTCP_eq)
  with parse_errors_classified [of parseModbusTCPResponse 9 7 ?s "exception_error 0x83 2"]
  show ?thesis by simp
qed

lemma parser_keeps_buffer:
  "parseModbusTCPResponse s = Ret (Inr d) \<Longrightarrow> sl_cap d = sl_cap s - 9"
  "parseModbusBulkResponse s = Ret (Inr d) \<Longrightarrow> sl_cap d = sl_cap s - 5"
  by (auto simp: parseTCP_eq parseBulk_eq Let_def payload_def sl_cap_def sl_len_def
      split: if_splits)

definition tcp_frame :: "byte list \<Rightarrow> byte \<Rightarrow> byte list \<Rightarrow> byte list" where
  "tcp_frame header funcCode p = header @ [funcCode, of_nat (length p)] @ p"

definition rtu_frame :: "byte list \<Rightarrow> byte \<Rightarrow> byte \<Rightarrow> byte list \<Rightarrow> byte list" where
  "rtu_frame header slave funcCode p =
     (let body = [slave, funcCode, of_nat (length p)] @ p
      in header @ body @ put_le16 (calculateCRC16 body))"

lemma unat_of_nat_byte: "n < 256 \<Longrightarrow> unat (of_nat n :: byte) = n"
  by (simp add: unat_of_nat)

lemma seven_cases: "length xs = 7 \<Longrightarrow> \<exists>a b c d e f g. xs = [a, b, c, d, e, f, g]"
  by (auto simp: eval_nat_numeral length_Suc_conv)

text \<open>
  A Modbus TCP response carrying up to 255 data bytes decodes to exactly these bytes, and the
  returned slice keeps the receive buffer behind them; bytes received after the frame and the
  contents of the MBAP header make no difference.
\<close>

theorem tcp_round_trip:
  assumes "length header = 7" "funcCode AND 0x80 = 0" "length p < 256"
  shows "parseModbusTCPResponse \<lparr>sl_data = tcp_frame header funcCode p @ junk, sl_spare = sp\<rparr>
           = Ret (Inr \<lparr>sl_data = p, sl_spare = junk @ sp\<rparr>)"
  using seven_cases [OF assms(1)] assms(2,3)
  by (auto simp: parseTCP_eq tcp_frame_def payload_def sl_len_def Let_def unat_of_nat_byte)

lemma tcp_round_trip_witness:
  "parseModbusTCPResponse (whole [0, 9, 0, 0, 0, 5, 0xF7, 3, 2, 0x12, 0x34])
     = Ret (Inr (whole [0x12, 0x34]))"
  using tcp_round_trip [of "[0, 9, 0, 0, 0, 5, 0xF7]" 3 "[0x12, 0x34]" "[]" "[]"]
  by (simp add: tcp_frame_def whole_def)

lemma rtu_frame_crc:
  assumes "length header = 2"
  shows "frame_crc (rtu_frame header slave f p) = calculateCRC16 ([slave, f, of_nat (length p)] @ p)"
    "body_crc (rtu_frame header slave f p) = calculateCRC16 ([slave, f, of_nat (length p)] @ p)"
proof -
  obtain a b where h: "header = [a, b]"
    using assms by (auto simp: numeral_2_eq_2 length_Suc_conv)
  show "frame_crc (rtu_frame header slave f p) = calculateCRC16 ([slave, f, of_nat (length p)] @ p)"
    by (simp add: h rtu_frame_def frame_crc_def Let_def put_le16_def nth_append)
  show "body_crc (rtu_frame header slave f p) = calculateCRC16 ([slave, f, of_nat (length p)] @ p)"
    by (simp add: h rtu_frame_def body_crc_def Let_def)
qed

text \<open>
  An RTU response with its two-byte pre-header, up to 255 data bytes and the right checksum
  decodes to exactly these bytes.
\<close>

theorem rtu_round_trip:
  assumes "length header = 2" "funcCode AND 0x80 = 0" "length p < 256"
  shows "\<exists>d. parseModbusBulkResponse \<lparr>sl_data = rtu_frame header slave funcCode p, sl_spare = sp\<rparr>
           = Ret (Inr d) \<and> sl_data d = p"
proof -
  obtain a b where h: "header = [a, b]"
    using assms by (auto simp: numeral_2_eq_2 length_Suc_conv)
  have "sl_len \<lparr>sl_data = rtu_frame header slave funcCode p, sl_spare = sp\<rparr> = 7 + length p"
    by (simp add: h rtu_frame_def sl_len_def Let_def)
  moreover have "rtu_frame header slave funcCode p ! 3 = funcCode"
    "rtu_frame header slave funcCode p ! 4 = of_nat (length p)"
    "take (length p) (drop 5 (rtu_frame header slave funcCode p)) = p"
    by (simp_all add: h rtu_frame_def Let_def)
  ultimately show ?thesis
    using assms rtu_frame_crc [OF assms(1)]
    by (simp add: parseBulk_eq Let_def payload_def unat_of_nat_byte)
qed

lemma rtu_round_trip_witness:
  "\<exists>d. parseModbusBulkResponse (whole (rtu_frame [0xAA, 0x55] 0xF7 3 [0x12, 0x34])) = Ret (Inr d)
     \<and> sl_data d = [0x12, 0x34]"
  unfolding whole_def by (rule rtu_round_trip) simp_all

lemma be16_inj: "be16 a b = be16 c d \<longleftrightarrow> a = c \<and> b = d"
proof
  assume eq: "be16 a b = be16 c d"
  have "bit b n = bit d n" if "n < 8" for n
    using arg_cong [OF eq, of "\<lambda>w. bit w n"] that by (simp add: be16_bit)
  moreover have "bit a n = bit c n" if "n < 8" for n
    using arg_cong [OF eq, of "\<lambda>w. bit w (n + 8)"] that by (simp add: be16_bit)
  ultimately show "a = c \<and> b = d" by (auto intro: bit_word_eqI)
qed simp

lemma frame_crc_update:
  assumes "7 \<le> length bs"
  shows "i + 2 < length bs \<Longrightarrow> frame_crc (bs[i := b]) = frame_crc bs"
    "length bs \<le> i + 2 \<Longrightarrow> i < length bs \<Longrightarrow> bs ! i \<noteq> b \<Longrightarrow>
     frame_crc (bs[i := b]) \<noteq> frame_crc bs"
  using assms by (auto simp: frame_crc_def be16_inj nth_list_update)

lemma body_crc_update:
  assumes "7 \<le> length bs" "2 \<le> i"
  shows "length bs \<le> i + 2 \<Longrightarrow> body_crc (bs[i := b]) = body_crc bs"
    "i + 2 < length bs \<Longrightarrow> bs ! i \<noteq> b \<Longrightarrow> body_crc (bs[i := b]) \<noteq> body_crc bs"
proof -
  show "length bs \<le> i + 2 \<Longrightarrow> body_crc (bs[i := b]) = body_crc bs"
    using assms by (simp add: body_crc_def drop_update_swap take_update_cancel)
  assume i: "i + 2 < length bs" and ne: "bs ! i \<noteq> b"
  let ?body = "take (length bs - 4) (drop 2 bs)"
  have j: "i - 2 < length ?body" and old: "?body ! (i - 2) = bs ! i"
    using i assms le_add_diff_inverse [of 2 i] by simp_all
  have "body_crc (bs[i := b]) = calculateCRC16 (?body[i - 2 := b])"
    using assms i by (simp add: body_crc_def drop_update_swap take_update_swap)
  also have "?body[i - 2 := b] = take (i - 2) ?body @ b # drop (Suc (i - 2)) ?body"
    using j by (simp only: upd_conv_take_nth_drop)
  finally have "body_crc (bs[i := b]) =
    calculateCRC16 (take (i - 2) ?body @ b # drop (Suc (i - 2)) ?body)" .
  moreover have "body_crc bs =
    calculateCRC16 (take (i - 2) ?body @ bs ! i # drop (Suc (i - 2)) ?body)"
    unfolding body_crc_def using id_take_nth_drop [OF j] old by metis
  ultimately show "body_crc (bs[i := b]) \<noteq> body_crc bs"
    using ne by (simp only: crc_one_byte)
qed

text \<open>
  C14: The checksum of the RTU framing does its work: when a response is accepted, the same response
  with any single byte after the pre-header replaced, data, length, function code or checksum, is
  rejected, with an error that neither triggers a reconnect nor reads as a missing register block.
\<close>

theorem corrupted_byte_rejected:
  assumes "parseModbusBulkResponse \<lparr>sl_data = bs, sl_spare = sp\<rparr> = Ret (Inr d)"
    and "2 \<le> i" "i < length bs" "bs ! i \<noteq> b"
  shows "\<exists>e. parseModbusBulkResponse \<lparr>sl_data = bs[i := b], sl_spare = sp'\<rparr> = Ret (Inl e) \<and>
           \<not> isConnClosed e \<and> \<not> isIllegalDataAddress e"
proof -
  from assms(1) have ok: "7 \<le> length bs" "frame_crc bs = body_crc bs"
    by (auto simp: parseBulk_eq Let_def sl_len_def split: if_splits)
  have "frame_crc (bs[i := b]) \<noteq> body_crc (bs[i := b])"
    using ok assms(2-4) frame_crc_update [OF ok(1), of i b] body_crc_update [OF ok(1), of i b]
    by (cases "i + 2 < length bs") auto
  then show ?thesis
    using ok(1) by (simp add: parseBulk_eq Let_def sl_len_def crc_error_class)
qed

lemma corrupted_byte_rejected_witness:
  "\<exists>e. parseModbusBulkResponse (whole ((rtu_frame [0xAA, 0x55] 0xF7 3 [0x12, 0x34])[5 := 0x13]))
     = Ret (Inl e)"
proof -
  let ?f = "rtu_frame [0xAA, 0x55] 0xF7 3 [0x12, 0x34]"
  have "\<exists>d. parseModbusBulkResponse \<lparr>sl_data = ?f, sl_spare = []\<rparr> = Ret (Inr d)"
    using rtu_frame_crc [of "[0xAA, 0x55]" "0xF7" 3 "[0x12, 0x34]"]
    by (simp add: parseBulk_eq Let_def sl_len_def) (simp add: rtu_frame_def put_le16_def Let_def)
  then obtain d where acc: "parseModbusBulkResponse \<lparr>sl_data = ?f, sl_spare = []\<rparr> = Ret (Inr d)" ..
  have "5 < length ?f" "?f ! 5 \<noteq> 0x13"
    by (simp_all add: rtu_frame_def Let_def put_le16_def)
  with corrupted_byte_rejected [OF acc, of 5 "0x13" "[]"] show ?thesis
    unfolding whole_def by auto
qed

section \<open>Requests\<close>

text \<open>
  The request frames are what the protocols ask for: the RTU request is eight bytes whose
  checksum residue is zero, the Modbus TCP request is twelve bytes whose MBAP length counts the six
  bytes after it; both address unit 0xF7 with function 3 and carry the first register and the
  quantity big-endian at their fixed places. Each TCP request takes the next transaction id.
\<close>

theorem request_layout:
  "length (rtu_request start qty) = 8 \<and> calculateCRC16 (rtu_request start qty) = 0 \<and>
   take 2 (rtu_request start qty) = [0xF7, 3] \<and>
   u16_at (whole (rtu_request start qty)) 2 = Ret start \<and>
   u16_at (whole (rtu_request start qty)) 4 = Ret qty \<and>
   (let (tx', bs) = buildRequest tx start qty in
      tx' = tx + 1 \<and> length bs = 12 \<and> u16_at (whole bs) 0 = Ret tx' \<and> u16_at (whole bs) 2 = Ret 0 \<and>
      u16_at (whole bs) 4 = Ret (of_nat (length (drop 6 bs))) \<and> take 2 (drop 6 bs) = [0xF7, 3] \<and>
      u16_at (whole bs) 8 = Ret start \<and> u16_at (whole bs) 10 = Ret qty)"
proof -
  have "calculateCRC16 (rtu_request start qty) = 0"
    unfolding rtu_request_def Let_def by (rule crc_residue)
  moreover have "be16 0 0 = 0" "be16 0 6 = 6"
    by (simp_all add: be16_def)
  ultimately show ?thesis
    by (simp add: rtu_request_def buildRequest_def Let_def u16_at_Ret sl_len_def whole_def)
      (simp add: put_be16_def put_le16_def)
qed

end
