(* ===== verification/Transport.thy ===== *)
theory Transport
  imports Modbus_Correct
begin

text \<open>
  The two transports, \<open>et/tcp_transport.go\<close> and \<open>et/dtls_transport.go\<close>, as functions on their own
  state and the state of the network, one call at a time (the mutex gives a caller the transport for
  the length of a call; what happens between the two critical sections of \<open>ReadRegisters\<close> is the
  subject of \<open>Transport_Race\<close>). The network is a parameter: dialling, closing, deadlines, writing and
  reading may each fail or succeed in any way. The interface \<open>Transport\<close> of \<open>et/transport.go\<close> is a
  record of operations, and the laws the inverter relies on are a locale.
\<close>

section \<open>The network\<close>

type_synonym conn = nat

text \<open>
  What \<open>net\<close> and the DTLS library provide: every operation may change the state of the network.
  A read delivers some bytes; \<open>conn_Read\<close> copies what fits into the buffer, as \<open>io.Reader\<close> demands.
\<close>

record 'w network =
  nw_DialTCP :: "string \<Rightarrow> 'w \<Rightarrow> (goerror + conn) \<times> 'w"
  nw_ResolveUDPAddr :: "string \<Rightarrow> 'w \<Rightarrow> (goerror + string) \<times> 'w"
  nw_DialDTLS :: "string \<Rightarrow> 'w \<Rightarrow> (goerror + conn) \<times> 'w"
  nw_Close :: "conn \<Rightarrow> 'w \<Rightarrow> goerror option \<times> 'w"
  nw_SetWriteDeadline :: "conn \<Rightarrow> nat \<Rightarrow> 'w \<Rightarrow> goerror option \<times> 'w"
  nw_SetReadDeadline :: "conn \<Rightarrow> nat \<Rightarrow> 'w \<Rightarrow> goerror option \<times> 'w"
  nw_Write :: "conn \<Rightarrow> byte list \<Rightarrow> 'w \<Rightarrow> goerror option \<times> 'w"
  nw_Read :: "conn \<Rightarrow> 'w \<Rightarrow> (goerror + byte list) \<times> 'w"

definition conn_Read ::
    "'w network \<Rightarrow> conn \<Rightarrow> byte list \<Rightarrow> 'w \<Rightarrow> (goerror + nat \<times> byte list) \<times> 'w" where
  "conn_Read net c buf w =
     (case nw_Read net c w of
        (Inl err, w') \<Rightarrow> (Inl err, w')
      | (Inr bs, w') \<Rightarrow>
          (Inr (min (length bs) (length buf), take (length buf) bs @ drop (length bs) buf), w'))"

text \<open>Seconds.\<close>

definition tcpReadTimeout :: nat where "tcpReadTimeout = 10"
definition tcpWriteTimeout :: nat where "tcpWriteTimeout = 5"
definition dtlsReadTimeout :: nat where "dtlsReadTimeout = 5"
definition dtlsWriteTimeout :: nat where "dtlsWriteTimeout = 5"

definition respBufSize :: nat where "respBufSize = 4096"

definition JoinHostPort :: "string \<Rightarrow> string \<Rightarrow> string" where
  "JoinHostPort host port =
     (if CHR '':'' \<in> set host then ''['' @ host @ '']:'' @ port else host @ '':'' @ port)"

section \<open>One exchange\<close>

text \<open>
  The part of \<open>doRead\<close> both transports share: write the request under a deadline, read one response
  into a fresh buffer under a deadline, and cut the buffer to the bytes received.
\<close>

definition exchange ::
    "'w network \<Rightarrow> nat \<Rightarrow> nat \<Rightarrow> conn \<Rightarrow> byte list \<Rightarrow> 'w \<Rightarrow> ((goerror + slice) \<times> 'w) outcome" where
  "exchange net wtimeout rtimeout c req w =
     (case nw_SetWriteDeadline net c wtimeout w of
        (Some err, w1) \<Rightarrow> Ret (Inl (wrap ''set write deadline'' err), w1)
      | (None, w1) \<Rightarrow>
     (case nw_Write net c req w1 of
        (Some err, w2) \<Rightarrow> Ret (Inl (wrap ''modbus write error'' err), w2)
      | (None, w2) \<Rightarrow>
     (case nw_SetReadDeadline net c rtimeout w2 of
        (Some err, w3) \<Rightarrow> Ret (Inl (wrap ''set read deadline'' err), w3)
      | (None, w3) \<Rightarrow>
     (case conn_Read net c (replicate respBufSize 0) w3 of
        (Inl err, w4) \<Rightarrow> Ret (Inl (wrap ''modbus read error'' err), w4)
      | (Inr (n, respBuf), w4) \<Rightarrow>
          obind (reslice (whole respBuf) 0 n) (\<lambda>responseBytes. Ret (Inr responseBytes, w4))))))"

text \<open>Parse the response of an exchange that got one.\<close>

definition parsed ::
    "(slice \<Rightarrow> (goerror + slice) outcome) \<Rightarrow> (goerror + slice) \<times> 'w \<Rightarrow> ((goerror + slice) \<times> 'w) outcome" where
  "parsed parse r =
     (case r of
        (Inl err, w) \<Rightarrow> Ret (Inl err, w)
      | (Inr resp, w) \<Rightarrow> obind (parse resp) (\<lambda>p. Ret (p, w)))"

section \<open>TCP\<close>

record tcpTransport =
  tt_ip :: string
  tt_port :: int
  tt_conn :: "conn option"
  tt_txID :: u16

definition NewTCPTransport :: "string \<Rightarrow> int \<Rightarrow> tcpTransport" where
  "NewTCPTransport ip port = \<lparr>tt_ip = ip, tt_port = port, tt_conn = None, tt_txID = 1\<rparr>"

text \<open>\<open>_ = t.conn.Close(); t.conn = nil\<close>.\<close>

definition tcp_drop :: "'w network \<Rightarrow> tcpTransport \<times> 'w \<Rightarrow> tcpTransport \<times> 'w" where
  "tcp_drop net = (\<lambda>(t, w). case tt_conn t of
       None \<Rightarrow> (t, w)
     | Some c \<Rightarrow> (t\<lparr>tt_conn := None\<rparr>, snd (nw_Close net c w)))"

definition tcp_Connect ::
    "'w network \<Rightarrow> tcpTransport \<times> 'w \<Rightarrow> (goerror option \<times> tcpTransport \<times> 'w) outcome" where
  "tcp_Connect net s =
     (case tcp_drop net s of (t, w) \<Rightarrow>
      case nw_DialTCP net (JoinHostPort (tt_ip t) (show_int (tt_port t))) w of
        (Inl err, w') \<Rightarrow> Ret (Some (wrap ''tcp dial failed'' err), t, w')
      | (Inr c, w') \<Rightarrow> Ret (None, t\<lparr>tt_conn := Some c\<rparr>, w'))"

definition tcp_Close ::
    "'w network \<Rightarrow> tcpTransport \<times> 'w \<Rightarrow> (goerror option \<times> tcpTransport \<times> 'w) outcome" where
  "tcp_Close net = (\<lambda>(t, w). case tt_conn t of
       None \<Rightarrow> Ret (None, t, w)
     | Some c \<Rightarrow> (case nw_Close net c w of (err, w') \<Rightarrow> Ret (err, t\<lparr>tt_conn := None\<rparr>, w')))"

text \<open>\<open>doRead\<close> builds the request, which takes a transaction id, before it uses the connection; a
  method call on a nil connection panics.\<close>

definition tcp_doRead ::
    "'w network \<Rightarrow> conn option \<Rightarrow> u16 \<Rightarrow> u16 \<Rightarrow> tcpTransport \<times> 'w
     \<Rightarrow> ((goerror + slice) \<times> tcpTransport \<times> 'w) outcome" where
  "tcp_doRead net conn startReg quantity = (\<lambda>(t, w).
     case buildRequest (tt_txID t) startReg quantity of (tx, req) \<Rightarrow>
     case conn of
       None \<Rightarrow> Panic
     | Some c \<Rightarrow>
         obind (obind (exchange net tcpWriteTimeout tcpReadTimeout c req w)
                  (parsed parseModbusTCPResponse))
           (\<lambda>(r, w'). Ret (r, t\<lparr>tt_txID := tx\<rparr>, w')))"

text \<open>The second half of \<open>ReadRegisters\<close>: connect again and retry once.\<close>

definition tcp_reconnect ::
    "'w network \<Rightarrow> u16 \<Rightarrow> u16 \<Rightarrow> tcpTransport \<times> 'w
     \<Rightarrow> ((goerror + slice) \<times> tcpTransport \<times> 'w) outcome" where
  "tcp_reconnect net startReg quantity s =
     obind (tcp_Connect net s) (\<lambda>(e, s'). case e of
         Some err \<Rightarrow> Ret (Inl (wrap ''reconnect failed'' err), s')
       | None \<Rightarrow> tcp_doRead net (tt_conn (fst s')) startReg quantity s')"

definition tcp_ReadRegisters ::
    "'w network \<Rightarrow> u16 \<Rightarrow> u16 \<Rightarrow> tcpTransport \<times> 'w
     \<Rightarrow> ((goerror + slice) \<times> tcpTransport \<times> 'w) outcome" where
  "tcp_ReadRegisters net startReg quantity s =
     (case tt_conn (fst s) of
        None \<Rightarrow> tcp_reconnect net startReg quantity s
      | Some c \<Rightarrow>
          obind (tcp_doRead net (Some c) startReg quantity s) (\<lambda>(r, s'). case r of
            Inr data \<Rightarrow> Ret (Inr data, s')
          | Inl err \<Rightarrow>
              if \<not> isConnClosed err then Ret (Inl err, s')
              else tcp_reconnect net startReg quantity (tcp_drop net s')))"

section \<open>DTLS\<close>

record dtlsTransport =
  dt_ip :: string
  dt_port :: int
  dt_conn :: "conn option"

definition NewDTLSTransport :: "string \<Rightarrow> int \<Rightarrow> dtlsTransport" where
  "NewDTLSTransport ip port = \<lparr>dt_ip = ip, dt_port = port, dt_conn = None\<rparr>"

definition dtls_drop :: "'w network \<Rightarrow> dtlsTransport \<times> 'w \<Rightarrow> dtlsTransport \<times> 'w" where
  "dtls_drop net = (\<lambda>(t, w). case dt_conn t of
       None \<Rightarrow> (t, w)
     | Some c \<Rightarrow> (t\<lparr>dt_conn := None\<rparr>, snd (nw_Close net c w)))"

definition dtls_Connect ::
    "'w network \<Rightarrow> dtlsTransport \<times> 'w \<Rightarrow> (goerror option \<times> dtlsTransport \<times> 'w) outcome" where
  "dtls_Connect net s =
     (case dtls_drop net s of (t, w) \<Rightarrow>
      case nw_ResolveUDPAddr net (JoinHostPort (dt_ip t) (show_int (dt_port t))) w of
        (Inl err, w') \<Rightarrow> Ret (Some (wrap ''failed to resolve UDP address'' err), t, w')
      | (Inr udpAddr, w') \<Rightarrow>
      case nw_DialDTLS net udpAddr w' of
        (Inl err, w'') \<Rightarrow> Ret (Some (wrap ''dtls dial failed'' err), t, w'')
      | (Inr c, w'') \<Rightarrow> Ret (None, t\<lparr>dt_conn := Some c\<rparr>, w''))"

definition dtls_Close ::
    "'w network \<Rightarrow> dtlsTransport \<times> 'w \<Rightarrow> (goerror option \<times> dtlsTransport \<times> 'w) outcome" where
  "dtls_Close net = (\<lambda>(t, w). case dt_conn t of
       None \<Rightarrow> Ret (None, t, w)
     | Some c \<Rightarrow> (case nw_Close net c w of (err, w') \<Rightarrow> Ret (err, t\<lparr>dt_conn := None\<rparr>, w')))"

definition dtls_doRead ::
    "'w network \<Rightarrow> conn option \<Rightarrow> u16 \<Rightarrow> u16 \<Rightarrow> dtlsTransport \<times> 'w
     \<Rightarrow> ((goerror + slice) \<times> dtlsTransport \<times> 'w) outcome" where
  "dtls_doRead net conn startReg quantity = (\<lambda>(t, w).
     case conn of
       None \<Rightarrow> Panic
     | Some c \<Rightarrow>
         obind (obind (exchange net dtlsWriteTimeout dtlsReadTimeout c
                         (rtu_request startReg quantity) w)
                  (parsed parseModbusBulkResponse))
           (\<lambda>(r, w'). Ret (r, t, w')))"

definition dtls_reconnect ::
    "'w network \<Rightarrow> u16 \<Rightarrow> u16 \<Rightarrow> dtlsTransport \<times> 'w
     \<Rightarrow> ((goerror + slice) \<times> dtlsTransport \<times> 'w) outcome" where
  "dtls_reconnect net startReg quantity s =
     obind (dtls_Connect net s) (\<lambda>(e, s'). case e of
         Some err \<Rightarrow> Ret (Inl (wrap ''reconnect failed'' err), s')
       | None \<Rightarrow> dtls_doRead net (dt_conn (fst s')) startReg quantity s')"

definition dtls_ReadRegisters ::
    "'w network \<Rightarrow> u16 \<Rightarrow> u16 \<Rightarrow> dtlsTransport \<times> 'w
     \<Rightarrow> ((goerror + slice) \<times> dtlsTransport \<times> 'w) outcome" where
  "dtls_ReadRegisters net startReg quantity s =
     (case dt_conn (fst s) of
        None \<Rightarrow> dtls_reconnect net startReg quantity s
      | Some c \<Rightarrow>
          obind (dtls_doRead net (Some c) startReg quantity s) (\<lambda>(r, s'). case r of
            Inr data \<Rightarrow> Ret (Inr data, s')
          | Inl err \<Rightarrow>
              if \<not> isConnClosed err then Ret (Inl err, s')
              else dtls_reconnect net startReg quantity (dtls_drop net s')))"

section \<open>The interface\<close>

text \<open>\<open>type Transport interface\<close>, with the laws a client may rely on.\<close>

record 's transport =
  tr_Connect :: "'s \<Rightarrow> (goerror option \<times> 's) outcome"
  tr_Close :: "'s \<Rightarrow> (goerror option \<times> 's) outcome"
  tr_ReadRegisters :: "u16 \<Rightarrow> u16 \<Rightarrow> 's \<Rightarrow> ((goerror + slice) \<times> 's) outcome"

locale transport =
  fixes T :: "'s transport"
  assumes connect_returns: "returns (tr_Connect T s)"
    and close_returns: "returns (tr_Close T s)"
    and read_returns: "returns (tr_ReadRegisters T startReg quantity s)"
    and read_capacity: "tr_ReadRegisters T startReg quantity s = Ret (Inr d, s') \<Longrightarrow>
          respBufSize \<le> sl_cap d + 9"

definition tcp_transport :: "'w network \<Rightarrow> (tcpTransport \<times> 'w) transport" where
  "tcp_transport net = \<lparr>tr_Connect = tcp_Connect net, tr_Close = tcp_Close net,
     tr_ReadRegisters = tcp_ReadRegisters net\<rparr>"

definition dtls_transport :: "'w network \<Rightarrow> (dtlsTransport \<times> 'w) transport" where
  "dtls_transport net = \<lparr>tr_Connect = dtls_Connect net, tr_Close = dtls_Close net,
     tr_ReadRegisters = dtls_ReadRegisters net\<rparr>"

section \<open>Both transports satisfy the interface\<close>

lemma exchange_Ret: "\<exists>r w'. exchange net wt rt c req w = Ret (r, w') \<and>
    (\<forall>d. r = Inr d \<longrightarrow> sl_cap d = respBufSize)"
  by (auto simp: exchange_def conn_Read_def reslice_def Let_def sl_cap_def whole_def
      split: prod.splits option.splits sum.splits)

lemma parsed_Ret:
  assumes "\<And>s. returns (parse s)"
    and "\<And>s d. parse s = Ret (Inr d) \<Longrightarrow> sl_cap s \<le> sl_cap d + 9"
  shows "\<exists>r w'. obind (exchange net wt rt c req w) (parsed parse) = Ret (r, w') \<and>
    (\<forall>d. r = Inr d \<longrightarrow> respBufSize \<le> sl_cap d + 9)"
proof -
  obtain r w' where ex: "exchange net wt rt c req w = Ret (r, w')"
      "\<forall>d. r = Inr d \<longrightarrow> sl_cap d = respBufSize"
    using exchange_Ret [of net wt rt c req w] by blast
  show ?thesis
  proof (cases r)
    case (Inr resp)
    obtain p where "parse resp = Ret p" using assms(1) [of resp] by (auto simp: returns_iff)
    with ex Inr assms(2) [of resp] show ?thesis by (auto simp: parsed_def)
  qed (simp add: ex parsed_def)
qed

lemmas parsers_total = parseTCP_eq parseBulk_eq

lemma parser_cap:
  "parseModbusTCPResponse s = Ret (Inr d) \<Longrightarrow> sl_cap s \<le> sl_cap d + 9"
  "parseModbusBulkResponse s = Ret (Inr d) \<Longrightarrow> sl_cap s \<le> sl_cap d + 9"
  using parser_keeps_buffer by fastforce+

lemma tcp_doRead_Ret:
  "\<exists>r s'. tcp_doRead net (Some c) a q s = Ret (r, s') \<and> (\<forall>d. r = Inr d \<longrightarrow> respBufSize \<le> sl_cap d + 9) \<and>
     tt_conn (fst s') = tt_conn (fst s)"
  using parsed_Ret [of parseModbusTCPResponse net tcpWriteTimeout tcpReadTimeout c
      "snd (buildRequest (tt_txID (fst s)) a q)" "snd s"]
  by (cases s) (auto simp: tcp_doRead_def parser_cap parsers_total split: prod.splits)

lemma dtls_doRead_Ret:
  "\<exists>r s'. dtls_doRead net (Some c) a q s = Ret (r, s') \<and> (\<forall>d. r = Inr d \<longrightarrow> respBufSize \<le> sl_cap d + 9) \<and>
     dt_conn (fst s') = dt_conn (fst s)"
  using parsed_Ret [of parseModbusBulkResponse net dtlsWriteTimeout dtlsReadTimeout c
      "rtu_request a q" "snd s"]
  by (cases s) (auto simp: dtls_doRead_def parser_cap parsers_total split: prod.splits)

lemma tcp_Connect_Ret:
  "\<exists>e s'. tcp_Connect net s = Ret (e, s') \<and> (e = None \<longleftrightarrow> tt_conn (fst s') \<noteq> None)"
  by (auto simp: tcp_Connect_def tcp_drop_def split: prod.splits sum.splits option.splits)

lemma dtls_Connect_Ret:
  "\<exists>e s'. dtls_Connect net s = Ret (e, s') \<and> (e = None \<longleftrightarrow> dt_conn (fst s') \<noteq> None)"
  by (auto simp: dtls_Connect_def dtls_drop_def split: prod.splits sum.splits option.splits)

lemma tcp_reconnect_Ret:
  "\<exists>r s'. tcp_reconnect net a q s = Ret (r, s') \<and> (\<forall>d. r = Inr d \<longrightarrow> respBufSize \<le> sl_cap d + 9)"
proof -
  obtain e s1 where c: "tcp_Connect net s = Ret (e, s1)" "e = None \<longleftrightarrow> tt_conn (fst s1) \<noteq> None"
    using tcp_Connect_Ret by blast
  show ?thesis
  proof (cases e)
    case None
    with c obtain k where "tt_conn (fst s1) = Some k" by blast
    then show ?thesis
      using tcp_doRead_Ret [of net k a q s1] by (auto simp: tcp_reconnect_def c None)
  qed (simp add: tcp_reconnect_def c)
qed

lemma dtls_reconnect_Ret:
  "\<exists>r s'. dtls_reconnect net a q s = Ret (r, s') \<and> (\<forall>d. r = Inr d \<longrightarrow> respBufSize \<le> sl_cap d + 9)"
proof -
  obtain e s1 where c: "dtls_Connect net s = Ret (e, s1)" "e = None \<longleftrightarrow> dt_conn (fst s1) \<noteq> None"
    using dtls_Connect_Ret by blast
  show ?thesis
  proof (cases e)
    case None
    with c obtain k where "dt_conn (fst s1) = Some k" by blast
    then show ?thesis
      using dtls_doRead_Ret [of net k a q s1] by (auto simp: dtls_reconnect_def c None)
  qed (simp add: dtls_reconnect_def c)
qed

lemma tcp_ReadRegisters_Ret:
  "\<exists>r s'. tcp_ReadRegisters net a q s = Ret (r, s') \<and>
     (\<forall>d. r = Inr d \<longrightarrow> respBufSize \<le> sl_cap d + 9)"
proof (cases "tt_conn (fst s)")
  case (Some c)
  obtain r s1 where r: "tcp_doRead net (Some c) a q s = Ret (r, s1)"
      "\<forall>d. r = Inr d \<longrightarrow> respBufSize \<le> sl_cap d + 9"
    using tcp_doRead_Ret by blast
  then show ?thesis
    using tcp_reconnect_Ret [of net a q "tcp_drop net s1"]
    by (cases r) (auto simp: tcp_ReadRegisters_def Some)
qed (use tcp_reconnect_Ret in \<open>simp add: tcp_ReadRegisters_def\<close>)

lemma dtls_ReadRegisters_Ret:
  "\<exists>r s'. dtls_ReadRegisters net a q s = Ret (r, s') \<and>
     (\<forall>d. r = Inr d \<longrightarrow> respBufSize \<le> sl_cap d + 9)"
proof (cases "dt_conn (fst s)")
  case (Some c)
  obtain r s1 where r: "dtls_doRead net (Some c) a q s = Ret (r, s1)"
      "\<forall>d. r = Inr d \<longrightarrow> respBufSize \<le> sl_cap d + 9"
    using dtls_doRead_Ret by blast
  then show ?thesis
    using dtls_reconnect_Ret [of net a q "dtls_drop net s1"]
    by (cases r) (auto simp: dtls_ReadRegisters_def Some)
qed (use dtls_reconnect_Ret in \<open>simp add: dtls_ReadRegisters_def\<close>)

interpretation tcp: transport "tcp_transport net" for net :: "'w network"
proof
  fix a q and s :: "tcpTransport \<times> 'w"
  show "returns (tr_Connect (tcp_transport net) s)"
    using tcp_Connect_Ret [of net s] by (auto simp: tcp_transport_def)
  show "returns (tr_Close (tcp_transport net) s)"
    by (auto simp: tcp_transport_def tcp_Close_def split: prod.splits option.splits)
  show "returns (tr_ReadRegisters (tcp_transport net) a q s)"
    using tcp_ReadRegisters_Ret [of net a q s] by (auto simp: tcp_transport_def)
  fix d s'
  show "tr_ReadRegisters (tcp_transport net) a q s = Ret (Inr d, s') \<Longrightarrow> respBufSize \<le> sl_cap d + 9"
    using tcp_ReadRegisters_Ret [of net a q s] by (auto simp: tcp_transport_def)
qed

interpretation dtls: transport "dtls_transport net" for net :: "'w network"
proof
  fix a q and s :: "dtlsTransport \<times> 'w"
  show "returns (tr_Connect (dtls_transport net) s)"
    using dtls_Connect_Ret [of net s] by (auto simp: dtls_transport_def)
  show "returns (tr_Close (dtls_transport net) s)"
    by (auto simp: dtls_transport_def dtls_Close_def split: prod.splits option.splits)
  show "returns (tr_ReadRegisters (dtls_transport net) a q s)"
    using dtls_ReadRegisters_Ret [of net a q s] by (auto simp: dtls_transport_def)
  fix d s'
  show "tr_ReadRegisters (dtls_transport net) a q s = Ret (Inr d, s') \<Longrightarrow> respBufSize \<le> sl_cap d + 9"
    using dtls_ReadRegisters_Ret [of net a q s] by (auto simp: dtls_transport_def)
qed

end
