(* ===== verification/Transport_Correct.thy ===== *)
theory Transport_Correct
  imports Transport "HOL-Library.Multiset" "HOL-Library.Sublist"
begin

text \<open>
  What the transports guarantee over any network: they never use or close a connection that is not
  open, never lose one, and a register read makes at most one reconnect. Over a network with a
  Modbus device behind it, a register read returns the device's registers.
\<close>

section \<open>Recording the calls on the network\<close>

datatype net_event =
    Dialled conn
  | DialFailed
  | Closed conn
  | Used conn
  | Written conn "byte list"

text \<open>The network \<open>net\<close> with a log of the operations the transport calls on it.\<close>

definition dialled :: "goerror + conn \<Rightarrow> net_event" where
  "dialled r = (case r of Inl _ \<Rightarrow> DialFailed | Inr c \<Rightarrow> Dialled c)"

definition noting :: "('a \<Rightarrow> net_event) \<Rightarrow> 'a \<times> 'w \<Rightarrow> net_event list \<Rightarrow> 'a \<times> 'w \<times> net_event list" where
  "noting ev rw log = (fst rw, snd rw, log @ [ev (fst rw)])"

definition logged :: "'w network \<Rightarrow> ('w \<times> net_event list) network" where
  "logged net =
     \<lparr>nw_DialTCP = \<lambda>a (w, log). noting dialled (nw_DialTCP net a w) log,
      nw_ResolveUDPAddr = \<lambda>a (w, log). (case nw_ResolveUDPAddr net a w of (r, w') \<Rightarrow> (r, w', log)),
      nw_DialDTLS = \<lambda>a (w, log). noting dialled (nw_DialDTLS net a w) log,
      nw_Close = \<lambda>c (w, log). noting (\<lambda>_. Closed c) (nw_Close net c w) log,
      nw_SetWriteDeadline = \<lambda>c d (w, log). noting (\<lambda>_. Used c) (nw_SetWriteDeadline net c d w) log,
      nw_SetReadDeadline = \<lambda>c d (w, log). noting (\<lambda>_. Used c) (nw_SetReadDeadline net c d w) log,
      nw_Write = \<lambda>c bs (w, log). noting (\<lambda>_. Written c bs) (nw_Write net c bs w) log,
      nw_Read = \<lambda>c (w, log). noting (\<lambda>_. Used c) (nw_Read net c w) log\<rparr>"

text \<open>The open connections after a log; \<open>None\<close> when it uses or closes one that is not open.\<close>

fun track_event :: "net_event \<Rightarrow> conn multiset \<Rightarrow> conn multiset option" where
  "track_event (Dialled c) M = Some (add_mset c M)"
| "track_event DialFailed M = Some M"
| "track_event (Closed c) M = (if c \<in># M then Some (M - {#c#}) else None)"
| "track_event (Used c) M = (if c \<in># M then Some M else None)"
| "track_event (Written c bs) M = (if c \<in># M then Some M else None)"

fun track :: "net_event list \<Rightarrow> conn multiset \<Rightarrow> conn multiset option" where
  "track [] M = Some M"
| "track (e # es) M = (case track_event e M of None \<Rightarrow> None | Some M' \<Rightarrow> track es M')"

lemma track_append:
  "track (es @ fs) M = (case track es M of None \<Rightarrow> None | Some M' \<Rightarrow> track fs M')"
  by (induction es arbitrary: M) (auto split: option.splits)

definition held :: "conn option \<Rightarrow> conn multiset" where
  "held co = (case co of None \<Rightarrow> {#} | Some c \<Rightarrow> {#c#})"

fun dials :: "net_event list \<Rightarrow> nat" where
  "dials [] = 0"
| "dials (Dialled _ # es) = Suc (dials es)"
| "dials (DialFailed # es) = Suc (dials es)"
| "dials (_ # es) = dials es"

fun writes :: "net_event list \<Rightarrow> byte list list" where
  "writes [] = []"
| "writes (Written _ bs # es) = bs # writes es"
| "writes (_ # es) = writes es"

lemma dials_append [simp]: "dials (es @ fs) = dials es + dials fs"
  by (induction es rule: dials.induct) simp_all

lemma writes_append [simp]: "writes (es @ fs) = writes es @ writes fs"
  by (induction es rule: writes.induct) simp_all

section \<open>The effect of each operation on the log\<close>

lemmas net_splits = prod.splits option.splits sum.splits

lemma logged_exchange:
  assumes "exchange (logged net) wt rt c req (w, log) = Ret (r, w', log')"
  shows "\<exists>es. log' = log @ es \<and> track es {#c#} = Some {#c#} \<and> dials es = 0 \<and>
           (writes es = [] \<or> writes es = [req])"
  using assms
  by (auto simp: exchange_def logged_def noting_def conn_Read_def obind_Ret_iff
      split: net_splits)

lemma logged_parsed:
  assumes "obind (exchange (logged net) wt rt c req (w, log)) (parsed parse) = Ret (r, w', log')"
  shows "\<exists>es. log' = log @ es \<and> track es {#c#} = Some {#c#} \<and> dials es = 0 \<and>
           (writes es = [] \<or> writes es = [req])"
proof -
  obtain r1 w1 log1 where ex: "exchange (logged net) wt rt c req (w, log) = Ret (r1, w1, log1)"
    using assms by (auto simp: obind_Ret_iff)
  with assms have "log' = log1"
    by (auto simp: parsed_def obind_Ret_iff split: sum.splits)
  with logged_exchange [OF ex] show ?thesis by simp
qed

lemma logged_tcp_doRead:
  assumes "tcp_doRead (logged net) (Some c) a q (t, w, log) = Ret (r, t', w', log')"
  shows "\<exists>es. log' = log @ es \<and> track es {#c#} = Some {#c#} \<and> dials es = 0 \<and>
           (writes es = [] \<or> writes es = [snd (buildRequest (tt_txID t) a q)]) \<and>
           t' = t\<lparr>tt_txID := tt_txID t + 1\<rparr>"
proof -
  let ?req = "snd (buildRequest (tt_txID t) a q)"
  have ex: "obind (exchange (logged net) tcpWriteTimeout tcpReadTimeout c ?req (w, log))
      (parsed parseModbusTCPResponse) = Ret (r, w', log')" and t: "t' = t\<lparr>tt_txID := tt_txID t + 1\<rparr>"
    using assms by (auto simp: tcp_doRead_def obind_Ret_iff buildRequest_def Let_def)
  show ?thesis using logged_parsed [OF ex] t by blast
qed

lemma logged_dtls_doRead:
  assumes "dtls_doRead (logged net) (Some c) a q (t, w, log) = Ret (r, t', w', log')"
  shows "\<exists>es. log' = log @ es \<and> track es {#c#} = Some {#c#} \<and> dials es = 0 \<and>
           (writes es = [] \<or> writes es = [rtu_request a q]) \<and> t' = t"
proof -
  have ex: "obind (exchange (logged net) dtlsWriteTimeout dtlsReadTimeout c (rtu_request a q) (w, log))
      (parsed parseModbusBulkResponse) = Ret (r, w', log')" and t: "t' = t"
    using assms by (auto simp: dtls_doRead_def obind_Ret_iff)
  show ?thesis using logged_parsed [OF ex] t by blast
qed

text \<open>
  \<open>account k before after log log'\<close>: the calls between the two logs only used open connections, left
  open what \<open>after\<close> holds, and dialled at most \<open>k\<close> times.
\<close>

definition account :: "nat \<Rightarrow> conn option \<Rightarrow> conn option \<Rightarrow> byte list list \<Rightarrow> net_event list \<Rightarrow> bool" where
  "account k before after reqs es \<longleftrightarrow>
     track es (held before) = Some (held after) \<and> dials es \<le> k \<and> writes es = reqs"

lemma account_append:
  "account k b c rs es \<Longrightarrow> account l c d rs' fs \<Longrightarrow> account (k + l) b d (rs @ rs') (es @ fs)"
  by (simp add: account_def track_append)

lemma account_mono: "account k b c rs es \<Longrightarrow> k \<le> l \<Longrightarrow> account l b c rs es"
  by (simp add: account_def)

text \<open>
  The reconnect logic, once for both transports: what \<open>connect\<close>, dropping the connection and one
  \<open>doRead\<close> do to the log is assumed, and the log of a whole \<open>ReadRegisters\<close> follows. \<open>reqs t n\<close> is
  the n-th request frame the transport will build from state \<open>t\<close> on.
\<close>

locale reconnecting =
  fixes conn_of :: "'t \<Rightarrow> conn option"
    and connect :: "'t \<times> 'w \<times> net_event list \<Rightarrow> (goerror option \<times> 't \<times> 'w \<times> net_event list) outcome"
    and drop_conn :: "'t \<times> 'w \<times> net_event list \<Rightarrow> 't \<times> 'w \<times> net_event list"
    and do_read :: "conn option \<Rightarrow> 't \<times> 'w \<times> net_event list
          \<Rightarrow> ((goerror + slice) \<times> 't \<times> 'w \<times> net_event list) outcome"
    and reconnect :: "'t \<times> 'w \<times> net_event list
          \<Rightarrow> ((goerror + slice) \<times> 't \<times> 'w \<times> net_event list) outcome"
    and read :: "'t \<times> 'w \<times> net_event list
          \<Rightarrow> ((goerror + slice) \<times> 't \<times> 'w \<times> net_event list) outcome"
    and reqs :: "'t \<Rightarrow> nat \<Rightarrow> byte list"
  assumes connect_log: "connect (t, w, log) = Ret (e, t', w', log') \<Longrightarrow>
      \<exists>es. log' = log @ es \<and> account 1 (conn_of t) (conn_of t') [] es \<and> reqs t' = reqs t \<and>
           (e = None \<longleftrightarrow> conn_of t' \<noteq> None)"
    and drop_log: "\<exists>es t' w'. drop_conn (t, w, log) = (t', w', log @ es) \<and>
           account 0 (conn_of t) None [] es \<and> conn_of t' = None \<and> reqs t' = reqs t"
    and do_read_log: "do_read (Some c) (t, w, log) = Ret (r, t', w', log') \<Longrightarrow>
      \<exists>es. log' = log @ es \<and> track es {#c#} = Some {#c#} \<and> dials es = 0 \<and>
           (writes es = [] \<or> writes es = [reqs t 0]) \<and> conn_of t' = conn_of t \<and>
           reqs t' = (\<lambda>n. reqs t (Suc n))"
    and reconnect_eq: "reconnect s = obind (connect s) (\<lambda>(e, s'). case e of
        Some err \<Rightarrow> Ret (Inl (wrap ''reconnect failed'' err), s')
      | None \<Rightarrow> do_read (conn_of (fst s')) s')"
    and read_eq: "read s = (case conn_of (fst s) of
        None \<Rightarrow> reconnect s
      | Some c \<Rightarrow> obind (do_read (Some c) s) (\<lambda>(r, s'). case r of
            Inr data \<Rightarrow> Ret (Inr data, s')
          | Inl err \<Rightarrow> if \<not> isConnClosed err then Ret (Inl err, s')
              else reconnect (drop_conn s')))"
begin

lemma reconnect_log:
  assumes "reconnect (t, w, log) = Ret (r, t', w', log')"
  shows "\<exists>es rs. log' = log @ es \<and> account 1 (conn_of t) (conn_of t') rs es \<and>
           (rs = [] \<or> rs = [reqs t 0])"
proof -
  obtain e t1 w1 log1 where c: "connect (t, w, log) = Ret (e, t1, w1, log1)"
    using assms by (auto simp: reconnect_eq obind_Ret_iff)
  from connect_log [OF c] obtain es where es: "log1 = log @ es"
      "account 1 (conn_of t) (conn_of t1) [] es" "reqs t1 = reqs t"
      "e = None \<longleftrightarrow> conn_of t1 \<noteq> None" by blast
  show ?thesis
  proof (cases e)
    case None
    then obtain k where k: "conn_of t1 = Some k" using es(4) by blast
    have "do_read (Some k) (t1, w1, log1) = Ret (r, t', w', log')"
      using assms by (simp add: reconnect_eq c None k)
    from do_read_log [OF this] obtain fs where fs: "log' = log1 @ fs"
        "track fs {#k#} = Some {#k#}" "dials fs = 0" "conn_of t' = Some k"
        "writes fs = [] \<or> writes fs = [reqs t 0]"
      by (auto simp: es(3) k)
    then have "account 0 (conn_of t1) (conn_of t') (writes fs) fs"
      by (simp add: account_def held_def k)
    from account_append [OF es(2) this] fs(1,5) es(1) show ?thesis by auto
  next
    case (Some err)
    then have "t' = t1" "log' = log1" using assms by (auto simp: reconnect_eq c)
    with es show ?thesis by blast
  qed
qed

lemma read_log:
  assumes "read (t, w, log) = Ret (r, t', w', log')"
  shows "\<exists>es rs. log' = log @ es \<and> account 1 (conn_of t) (conn_of t') rs es \<and>
           subseq rs [reqs t 0, reqs t 1]"
proof (cases "conn_of t")
  case None
  then have "reconnect (t, w, log) = Ret (r, t', w', log')"
    using assms by (simp add: read_eq)
  from reconnect_log [OF this] obtain es rs where "log' = log @ es"
      "account 1 (conn_of t) (conn_of t') rs es" "rs = [] \<or> rs = [reqs t 0]"
    by blast
  moreover have "subseq rs [reqs t 0, reqs t 1]"
    using calculation(3) by auto
  ultimately show ?thesis by blast
next
  case (Some c)
  obtain r1 t1 w1 log1 where d: "do_read (Some c) (t, w, log) = Ret (r1, t1, w1, log1)"
    using assms Some by (auto simp: read_eq obind_Ret_iff)
  from do_read_log [OF d] obtain es where es: "log1 = log @ es"
      "track es {#c#} = Some {#c#}" "dials es = 0"
      "conn_of t1 = conn_of t" "reqs t1 = (\<lambda>n. reqs t (Suc n))"
      "writes es = [] \<or> writes es = [reqs t 0]"
    by blast
  then have acc: "account 0 (conn_of t) (conn_of t1) (writes es) es"
    by (simp add: account_def held_def Some)
  show ?thesis
  proof (cases "\<exists>err. r1 = Inl err \<and> isConnClosed err")
    case True
    obtain fs t2 w2 where drop: "drop_conn (t1, w1, log1) = (t2, w2, log1 @ fs)"
        "account 0 (conn_of t1) None [] fs" "conn_of t2 = None" "reqs t2 = reqs t1"
      using drop_log [of t1 w1 log1] by blast
    have "reconnect (t2, w2, log1 @ fs) = Ret (r, t', w', log')"
      using assms Some True by (auto simp: read_eq d drop(1))
    from reconnect_log [OF this] obtain gs rs where gs: "log' = (log1 @ fs) @ gs"
        "account 1 None (conn_of t') rs gs" "rs = [] \<or> rs = [reqs t 1]"
      by (auto simp: es(5) drop(3,4))
    have "account 1 (conn_of t) (conn_of t') (writes es @ rs) (es @ fs @ gs)"
      using account_append [OF account_append [OF acc drop(2)] gs(2)] by simp
    moreover have "subseq (writes es @ rs) [reqs t 0, reqs t 1]"
      using es(6) gs(3) by auto
    ultimately show ?thesis using gs(1) es(1) by (metis append.assoc)
  next
    case False
    then have "t' = t1" "log' = log1"
      using assms Some by (auto simp: read_eq d split: sum.splits if_splits)
    moreover have "subseq (writes es) [reqs t 0, reqs t 1]"
      using es(6) by auto
    ultimately show ?thesis
      using es(1) account_mono [OF acc, of 1] by auto
  qed
qed

end

section \<open>The two transports\<close>

lemmas log_defs = logged_def noting_def dialled_def account_def held_def

lemma logged_tcp_drop:
  "\<exists>es w'. tcp_drop (logged net) (t, w, log) = (t\<lparr>tt_conn := None\<rparr>, w', log @ es) \<and>
     account 0 (tt_conn t) None [] es"
  by (cases "tt_conn t") (auto simp: tcp_drop_def log_defs)

lemma logged_dtls_drop:
  "\<exists>es w'. dtls_drop (logged net) (t, w, log) = (t\<lparr>dt_conn := None\<rparr>, w', log @ es) \<and>
     account 0 (dt_conn t) None [] es"
  by (cases "dt_conn t") (auto simp: dtls_drop_def log_defs)

lemma logged_tcp_Connect:
  assumes "tcp_Connect (logged net) (t, w, log) = Ret (e, t', w', log')"
  shows "\<exists>es. log' = log @ es \<and> account 1 (tt_conn t) (tt_conn t') [] es \<and>
           tt_txID t' = tt_txID t \<and> (e = None \<longleftrightarrow> tt_conn t' \<noteq> None)"
proof -
  obtain es w1 where d: "tcp_drop (logged net) (t, w, log) = (t\<lparr>tt_conn := None\<rparr>, w1, log @ es)"
      "account 0 (tt_conn t) None [] es"
    using logged_tcp_drop [of net t w log] by blast
  show ?thesis
    using assms d by (auto simp: tcp_Connect_def log_defs track_append split: net_splits)
qed

lemma logged_dtls_Connect:
  assumes "dtls_Connect (logged net) (t, w, log) = Ret (e, t', w', log')"
  shows "\<exists>es. log' = log @ es \<and> account 1 (dt_conn t) (dt_conn t') [] es \<and>
           (e = None \<longleftrightarrow> dt_conn t' \<noteq> None)"
proof -
  obtain es w1 where d: "dtls_drop (logged net) (t, w, log) = (t\<lparr>dt_conn := None\<rparr>, w1, log @ es)"
      "account 0 (dt_conn t) None [] es"
    using logged_dtls_drop [of net t w log] by blast
  show ?thesis
    using assms d by (auto simp: dtls_Connect_def log_defs track_append split: net_splits)
qed

lemma logged_tcp_Close:
  assumes "tcp_Close (logged net) (t, w, log) = Ret (e, t', w', log')"
  shows "\<exists>es. log' = log @ es \<and> account 0 (tt_conn t) (tt_conn t') [] es \<and> tt_conn t' = None"
  using assms by (cases "tt_conn t") (auto simp: tcp_Close_def log_defs split: net_splits)

lemma logged_dtls_Close:
  assumes "dtls_Close (logged net) (t, w, log) = Ret (e, t', w', log')"
  shows "\<exists>es. log' = log @ es \<and> account 0 (dt_conn t) (dt_conn t') [] es \<and> dt_conn t' = None"
  using assms by (cases "dt_conn t") (auto simp: dtls_Close_def log_defs split: net_splits)

definition tcp_requests :: "u16 \<Rightarrow> u16 \<Rightarrow> tcpTransport \<Rightarrow> nat \<Rightarrow> byte list" where
  "tcp_requests a q t n = snd (buildRequest (tt_txID t + of_nat n) a q)"

interpretation tcp_log: reconnecting tt_conn "tcp_Connect (logged net)" "tcp_drop (logged net)"
  "\<lambda>co. tcp_doRead (logged net) co a q" "tcp_reconnect (logged net) a q"
  "tcp_ReadRegisters (logged net) a q" "tcp_requests a q"
  for net :: "'w network" and a q
proof (unfold_locales, goal_cases)
  case (1 t w log e t' w' log')
  from logged_tcp_Connect [OF 1] show ?case by (auto simp: tcp_requests_def fun_eq_iff)
next
  case (2 t w log)
  from logged_tcp_drop [of net t w log] show ?case
    by (fastforce simp: tcp_requests_def fun_eq_iff)
next
  case (3 c t w log r t' w' log')
  from logged_tcp_doRead [OF 3] show ?case
    by (auto simp: tcp_requests_def fun_eq_iff ac_simps)
qed (simp_all add: tcp_reconnect_def tcp_ReadRegisters_def)

interpretation dtls_log: reconnecting dt_conn "dtls_Connect (logged net)" "dtls_drop (logged net)"
  "\<lambda>co. dtls_doRead (logged net) co a q" "dtls_reconnect (logged net) a q"
  "dtls_ReadRegisters (logged net) a q" "\<lambda>_ _. rtu_request a q"
  for net :: "'w network" and a q
proof (unfold_locales, goal_cases)
  case (1 t w log e t' w' log')
  from logged_dtls_Connect [OF 1] show ?case by blast
next
  case (2 t w log)
  from logged_dtls_drop [of net t w log] show ?case by fastforce
next
  case (3 c t w log r t' w' log')
  from logged_dtls_doRead [OF 3] show ?case by auto
qed (simp_all add: dtls_reconnect_def dtls_ReadRegisters_def)

section \<open>Any sequence of calls\<close>

text \<open>The states a TCP transport reaches from \<open>NewTCPTransport\<close> by calls in any order.\<close>

inductive tcp_reach :: "'w network \<Rightarrow> tcpTransport \<times> 'w \<Rightarrow> tcpTransport \<times> 'w \<Rightarrow> bool"
  for net s0 where
  tcp_start: "tcp_reach net s0 s0"
| tcp_call_Connect: "tcp_reach net s0 s \<Longrightarrow> tcp_Connect net s = Ret (e, s') \<Longrightarrow> tcp_reach net s0 s'"
| tcp_call_Close: "tcp_reach net s0 s \<Longrightarrow> tcp_Close net s = Ret (e, s') \<Longrightarrow> tcp_reach net s0 s'"
| tcp_call_Read:
    "tcp_reach net s0 s \<Longrightarrow> tcp_ReadRegisters net a q s = Ret (r, s') \<Longrightarrow> tcp_reach net s0 s'"

inductive dtls_reach :: "'w network \<Rightarrow> dtlsTransport \<times> 'w \<Rightarrow> dtlsTransport \<times> 'w \<Rightarrow> bool"
  for net s0 where
  dtls_start: "dtls_reach net s0 s0"
| dtls_call_Connect:
    "dtls_reach net s0 s \<Longrightarrow> dtls_Connect net s = Ret (e, s') \<Longrightarrow> dtls_reach net s0 s'"
| dtls_call_Close:
    "dtls_reach net s0 s \<Longrightarrow> dtls_Close net s = Ret (e, s') \<Longrightarrow> dtls_reach net s0 s'"
| dtls_call_Read:
    "dtls_reach net s0 s \<Longrightarrow> dtls_ReadRegisters net a q s = Ret (r, s') \<Longrightarrow> dtls_reach net s0 s'"

text \<open>The invariant: the log is clean and the open connections are those the transport holds.\<close>

definition conn_inv :: "conn option \<Rightarrow> net_event list \<Rightarrow> bool" where
  "conn_inv co log \<longleftrightarrow> track log {#} = Some (held co)"

lemma conn_inv_step: "conn_inv co log \<Longrightarrow> account k co co' rs es \<Longrightarrow> conn_inv co' (log @ es)"
  by (simp add: conn_inv_def account_def track_append)

lemma tcp_reach_inv:
  assumes "tcp_reach (logged net) s0 s" "s0 = (NewTCPTransport ip port, w0, [])"
  shows "conn_inv (tt_conn (fst s)) (snd (snd s))"
  using assms
proof (induction rule: tcp_reach.induct)
  case tcp_start
  then show ?case by (simp add: conn_inv_def held_def NewTCPTransport_def)
next
  case (tcp_call_Connect s e s')
  obtain t w log t' w' log' where st: "s = (t, w, log)" "s' = (t', w', log')"
    by (cases s; cases s')
  from logged_tcp_Connect [OF tcp_call_Connect.hyps(2) [unfolded st]] tcp_call_Connect show ?case
    by (auto simp: st intro: conn_inv_step)
next
  case (tcp_call_Close s e s')
  obtain t w log t' w' log' where st: "s = (t, w, log)" "s' = (t', w', log')"
    by (cases s; cases s')
  from logged_tcp_Close [OF tcp_call_Close.hyps(2) [unfolded st]] tcp_call_Close show ?case
    by (auto simp: st intro: conn_inv_step)
next
  case (tcp_call_Read s a q r s')
  obtain t w log t' w' log' where st: "s = (t, w, log)" "s' = (t', w', log')"
    by (cases s; cases s')
  from tcp_log.read_log [OF tcp_call_Read.hyps(2) [unfolded st]] tcp_call_Read show ?case
    by (auto simp: st intro: conn_inv_step)
qed

lemma dtls_reach_inv:
  assumes "dtls_reach (logged net) s0 s" "s0 = (NewDTLSTransport ip port, w0, [])"
  shows "conn_inv (dt_conn (fst s)) (snd (snd s))"
  using assms
proof (induction rule: dtls_reach.induct)
  case dtls_start
  then show ?case by (simp add: conn_inv_def held_def NewDTLSTransport_def)
next
  case (dtls_call_Connect s e s')
  obtain t w log t' w' log' where st: "s = (t, w, log)" "s' = (t', w', log')"
    by (cases s; cases s')
  from logged_dtls_Connect [OF dtls_call_Connect.hyps(2) [unfolded st]] dtls_call_Connect show ?case
    by (auto simp: st intro: conn_inv_step)
next
  case (dtls_call_Close s e s')
  obtain t w log t' w' log' where st: "s = (t, w, log)" "s' = (t', w', log')"
    by (cases s; cases s')
  from logged_dtls_Close [OF dtls_call_Close.hyps(2) [unfolded st]] dtls_call_Close show ?case
    by (auto simp: st intro: conn_inv_step)
next
  case (dtls_call_Read s a q r s')
  obtain t w log t' w' log' where st: "s = (t, w, log)" "s' = (t', w', log')"
    by (cases s; cases s')
  from dtls_log.read_log [OF dtls_call_Read.hyps(2) [unfolded st]] dtls_call_Read show ?case
    by (auto simp: st intro: conn_inv_step)
qed

section \<open>A device behind the network\<close>

text \<open>
  A Modbus device: its registers and the blocks it answers; it answers a block it does not have with
  the exception ILLEGAL_DATA_ADDRESS. The network delivers every request to it and every answer
  back; its state is the last request.
\<close>

record device =
  dv_regs :: "u16 \<Rightarrow> u16"
  dv_has :: "u16 \<Rightarrow> u16 \<Rightarrow> bool"

definition registers :: "device \<Rightarrow> u16 \<Rightarrow> u16 \<Rightarrow> byte list" where
  "registers dv start qty =
     concat (map (\<lambda>i. put_be16 (dv_regs dv (start + of_nat i))) [0..<unat qty])"

definition device_pdu :: "device \<Rightarrow> u16 \<Rightarrow> u16 \<Rightarrow> byte list" where
  "device_pdu dv start qty =
     (if dv_has dv start qty then [3, of_nat (2 * unat qty)] @ registers dv start qty
      else [0x83, 2])"

definition tcp_answer :: "device \<Rightarrow> byte list \<Rightarrow> byte list" where
  "tcp_answer dv req =
     (let pdu = device_pdu dv (be16 (req ! 8) (req ! 9)) (be16 (req ! 10) (req ! 11))
      in take 4 req @ put_be16 (of_nat (length pdu + 1)) @ [req ! 6] @ pdu)"

definition rtu_answer :: "device \<Rightarrow> byte list \<Rightarrow> byte list" where
  "rtu_answer dv req =
     (let body = [req ! 0] @ device_pdu dv (be16 (req ! 2) (req ! 3)) (be16 (req ! 4) (req ! 5))
      in [0xAA, 0x55] @ body @ put_le16 (calculateCRC16 body))"

definition device_network :: "(byte list \<Rightarrow> byte list) \<Rightarrow> byte list network" where
  "device_network answer =
     \<lparr>nw_DialTCP = \<lambda>a w. (Inr 0, w), nw_ResolveUDPAddr = \<lambda>a w. (Inr a, w),
      nw_DialDTLS = \<lambda>a w. (Inr 0, w), nw_Close = \<lambda>c w. (None, w),
      nw_SetWriteDeadline = \<lambda>c d w. (None, w), nw_SetReadDeadline = \<lambda>c d w. (None, w),
      nw_Write = \<lambda>c bs w. (None, bs), nw_Read = \<lambda>c w. (Inr (answer w), w)\<rparr>"

lemma length_registers [simp]: "length (registers dv a q) = 2 * unat q"
proof -
  have "length (concat (map (\<lambda>i. put_be16 (f i)) [0..<n])) = 2 * n" for f n
    by (induction n) simp_all
  then show ?thesis by (simp add: registers_def)
qed

lemma device_exchange:
  assumes "length (answer req) \<le> respBufSize"
  shows "\<exists>sp. exchange (device_network answer) wt rt c req w =
           Ret (Inr \<lparr>sl_data = answer req, sl_spare = sp\<rparr>, req)"
  using assms
  by (simp add: exchange_def device_network_def conn_Read_def reslice_def Let_def whole_def sl_cap_def)

text \<open>What a read of the device must return.\<close>

definition device_result :: "device \<Rightarrow> u16 \<Rightarrow> u16 \<Rightarrow> goerror + slice \<Rightarrow> bool" where
  "device_result dv a q r \<longleftrightarrow>
     (if dv_has dv a q then (\<exists>d. r = Inr d \<and> sl_data d = registers dv a q)
      else r = Inl (exception_error 0x83 2))"

lemma unat_q_byte:
  assumes "q \<le> 127"
  shows "unat (2 * ucast (q :: u16) :: byte) = 2 * unat q"
proof -
  have "unat q \<le> 127" using assms by (simp add: word_le_nat_alt)
  then show ?thesis using unat_of_nat_byte [of "2 * unat q"] by simp
qed

lemma tcp_request_fields:
  "snd (buildRequest tx a q) ! 8 = ucast (drop_bit 8 a)" "snd (buildRequest tx a q) ! 9 = ucast a"
  "snd (buildRequest tx a q) ! 10 = ucast (drop_bit 8 q)" "snd (buildRequest tx a q) ! 11 = ucast q"
  "length (take 4 (snd (buildRequest tx a q))) = 4"
  by (simp_all add: buildRequest_def put_be16_def Let_def)

lemma four_cases: "length xs = 4 \<Longrightarrow> \<exists>a b c d. xs = [a, b, c, d]"
  by (auto simp: eval_nat_numeral length_Suc_conv)

lemma tcp_answer_parse:
  assumes "q \<le> 127"
  shows "\<exists>r. parseModbusTCPResponse \<lparr>sl_data = tcp_answer dv (snd (buildRequest tx a q)), sl_spare = sp\<rparr>
             = Ret r \<and> device_result dv a q r"
proof -
  obtain h0 h1 h2 h3 where h: "take 4 (snd (buildRequest tx a q)) = [h0, h1, h2, h3]"
    using four_cases tcp_request_fields(5) by blast
  show ?thesis
    by (simp add: tcp_answer_def Let_def tcp_request_fields h parseTCP_eq sl_len_def put_be16_def
        device_pdu_def device_result_def payload_def unat_q_byte [OF assms])
qed

lemma length_pdu: "q \<le> 127 \<Longrightarrow> length (device_pdu dv a q) \<le> 256"
  by (simp add: device_pdu_def word_le_nat_alt)

lemma length_answers:
  assumes "q \<le> 127"
  shows "length (tcp_answer dv (snd (buildRequest tx a q))) \<le> respBufSize"
    "length (rtu_answer dv (rtu_request a q)) \<le> respBufSize"
  using length_pdu [OF assms, of dv a]
  by (simp_all add: tcp_answer_def rtu_answer_def tcp_request_fields Let_def respBufSize_def
      rtu_request_def put_be16_def)

lemma rtu_request_fields:
  "rtu_request a q ! 0 = 0xF7"
  "rtu_request a q ! 2 = ucast (drop_bit 8 a)" "rtu_request a q ! 3 = ucast a"
  "rtu_request a q ! 4 = ucast (drop_bit 8 q)" "rtu_request a q ! 5 = ucast q"
  by (simp_all add: rtu_request_def put_be16_def Let_def)

lemma rtu_exception_crc:
  "frame_crc ([x, y, s, f, c] @ put_le16 (calculateCRC16 [s, f, c])) = calculateCRC16 [s, f, c]"
  "body_crc ([x, y, s, f, c] @ put_le16 (calculateCRC16 [s, f, c])) = calculateCRC16 [s, f, c]"
  by (simp_all add: frame_crc_def body_crc_def put_le16_def)

lemma rtu_answer_frame:
  assumes "dv_has dv a q"
  shows "rtu_answer dv (rtu_request a q) = rtu_frame [0xAA, 0x55] 0xF7 3 (registers dv a q)"
  using assms by (simp add: rtu_answer_def rtu_request_fields device_pdu_def rtu_frame_def Let_def)

lemma rtu_answer_parse:
  assumes "q \<le> 127"
  shows "\<exists>r. parseModbusBulkResponse \<lparr>sl_data = rtu_answer dv (rtu_request a q), sl_spare = sp\<rparr>
             = Ret r \<and> device_result dv a q r"
proof (cases "dv_has dv a q")
  case True
  have q: "2 * unat q < 256" using assms by (simp add: word_le_nat_alt)
  let ?f = "rtu_frame [0xAA, 0x55] 0xF7 3 (registers dv a q)"
  have "?f ! 3 = 3" "?f ! 4 = 2 * ucast q" "length ?f = 7 + 2 * unat q"
    "take (2 * unat q) (drop 5 ?f) = registers dv a q"
    by (simp_all add: rtu_frame_def Let_def)
  with True show ?thesis
    using rtu_frame_crc [of "[0xAA, 0x55]" "0xF7" 3 "registers dv a q"]
    by (simp add: rtu_answer_frame parseBulk_eq Let_def sl_len_def payload_def device_result_def
        unat_q_byte [OF assms])
next
  case False
  then have "rtu_answer dv (rtu_request a q) =
      [0xAA, 0x55, 0xF7, 0x83, 2] @ put_le16 (calculateCRC16 [0xF7, 0x83, 2])"
    by (simp add: rtu_answer_def rtu_request_fields device_pdu_def Let_def)
  with False rtu_exception_crc [of "0xAA" "0x55" "0xF7" "0x83" 2] show ?thesis
    by (simp add: parseBulk_eq Let_def sl_len_def device_result_def)
qed

lemma device_result_open: "device_result dv a q (Inl err) \<Longrightarrow> \<not> isConnClosed err"
  by (auto simp: device_result_def exception_error_class split: if_splits)

lemma tcp_device_doRead:
  assumes "q \<le> 127"
  shows "\<exists>r s'. tcp_doRead (device_network (tcp_answer dv)) (Some c) a q s = Ret (r, s') \<and>
           device_result dv a q r"
proof -
  obtain t w where s: "s = (t, w)" by (cases s)
  obtain sp where "exchange (device_network (tcp_answer dv)) tcpWriteTimeout tcpReadTimeout c
      (snd (buildRequest (tt_txID t) a q)) w =
    Ret (Inr \<lparr>sl_data = tcp_answer dv (snd (buildRequest (tt_txID t) a q)), sl_spare = sp\<rparr>,
         snd (buildRequest (tt_txID t) a q))"
    using device_exchange [of "tcp_answer dv", OF length_answers(1) [OF assms]] by blast
  with tcp_answer_parse [OF assms, of dv "tt_txID t" a sp] show ?thesis
    by (auto simp: s tcp_doRead_def parsed_def split: prod.splits)
qed

lemma dtls_device_doRead:
  assumes "q \<le> 127"
  shows "\<exists>r s'. dtls_doRead (device_network (rtu_answer dv)) (Some c) a q s = Ret (r, s') \<and>
           device_result dv a q r"
proof -
  obtain t w where s: "s = (t, w)" by (cases s)
  obtain sp where "exchange (device_network (rtu_answer dv)) dtlsWriteTimeout dtlsReadTimeout c
      (rtu_request a q) w =
    Ret (Inr \<lparr>sl_data = rtu_answer dv (rtu_request a q), sl_spare = sp\<rparr>, rtu_request a q)"
    using device_exchange [of "rtu_answer dv", OF length_answers(2) [OF assms]] by blast
  with rtu_answer_parse [OF assms, of dv a sp] show ?thesis
    by (auto simp: s dtls_doRead_def parsed_def)
qed

lemma device_Connect:
  "\<exists>s'. tcp_Connect (device_network f) s1 = Ret (None, s') \<and> tt_conn (fst s') = Some 0"
  "\<exists>s'. dtls_Connect (device_network f) s2 = Ret (None, s') \<and> dt_conn (fst s') = Some 0"
  by (auto simp: tcp_Connect_def dtls_Connect_def device_network_def split: prod.splits)

lemma tcp_device_read:
  assumes "q \<le> 127"
  shows "\<exists>r s'. tcp_ReadRegisters (device_network (tcp_answer dv)) a q s = Ret (r, s') \<and>
           device_result dv a q r"
proof (cases "tt_conn (fst s)")
  case None
  obtain s1 where "tcp_Connect (device_network (tcp_answer dv)) s = Ret (None, s1)"
      "tt_conn (fst s1) = Some 0"
    using device_Connect(1) [of "tcp_answer dv" s] by blast
  with tcp_device_doRead [OF assms, of dv 0 a s1] show ?thesis
    by (simp add: tcp_ReadRegisters_def None tcp_reconnect_def)
next
  case (Some c)
  obtain r s1 where r: "tcp_doRead (device_network (tcp_answer dv)) (Some c) a q s = Ret (r, s1)"
      "device_result dv a q r"
    using tcp_device_doRead [OF assms] by blast
  then have "tcp_ReadRegisters (device_network (tcp_answer dv)) a q s = Ret (r, s1)"
    by (auto simp: tcp_ReadRegisters_def Some dest: device_result_open split: sum.splits)
  with r(2) show ?thesis by blast
qed

lemma dtls_device_read:
  assumes "q \<le> 127"
  shows "\<exists>r s'. dtls_ReadRegisters (device_network (rtu_answer dv)) a q s = Ret (r, s') \<and>
           device_result dv a q r"
proof (cases "dt_conn (fst s)")
  case None
  obtain s1 where "dtls_Connect (device_network (rtu_answer dv)) s = Ret (None, s1)"
      "dt_conn (fst s1) = Some 0"
    using device_Connect(2) [of "rtu_answer dv" s] by blast
  with dtls_device_doRead [OF assms, of dv 0 a s1] show ?thesis
    by (simp add: dtls_ReadRegisters_def None dtls_reconnect_def)
next
  case (Some c)
  obtain r s1 where r: "dtls_doRead (device_network (rtu_answer dv)) (Some c) a q s = Ret (r, s1)"
      "device_result dv a q r"
    using dtls_device_doRead [OF assms] by blast
  then have "dtls_ReadRegisters (device_network (rtu_answer dv)) a q s = Ret (r, s1)"
    by (auto simp: dtls_ReadRegisters_def Some dest: device_result_open split: sum.splits)
  with r(2) show ?thesis by blast
qed

section \<open>Properties\<close>

text \<open>
  A TCP transport never loses a connection and never uses or closes one that is not open,
  whatever the network does and whatever calls are made in whatever order: the connections it has
  dialled and not closed are always exactly the one it holds.
\<close>

theorem tcp_connections:
  assumes "tcp_reach (logged net) (NewTCPTransport ip port, w0, []) (t, w, log)"
  shows "track log {#} = Some (held (tt_conn t))"
  using tcp_reach_inv [OF assms] by (simp add: conn_inv_def)

lemma tcp_connections_witness:
  "track [Dialled 0] {#} = Some {#0#} \<and>
   tcp_reach (logged (device_network id)) (NewTCPTransport ''inv'' 502, [], [])
     (NewTCPTransport ''inv'' 502\<lparr>tt_conn := Some 0\<rparr>, [], [Dialled 0])"
proof -
  let ?s0 = "(NewTCPTransport ''inv'' 502, [], [])"
  let ?t1 = "NewTCPTransport ''inv'' 502\<lparr>tt_conn := Some 0\<rparr>"
  have "tcp_Connect (logged (device_network id)) ?s0 = Ret (None, ?t1, [], [Dialled 0])"
    by (simp add: tcp_Connect_def tcp_drop_def NewTCPTransport_def log_defs device_network_def)
  then have r: "tcp_reach (logged (device_network id)) ?s0 (?t1, [], [Dialled 0])"
    by (rule tcp_call_Connect [OF tcp_start])
  with tcp_connections [OF r] show ?thesis by (simp add: held_def)
qed

text \<open>
  The same for the DTLS transport: the connections it has dialled and not closed are always
  exactly the one it holds, and it uses and closes no other.
\<close>

theorem dtls_connections:
  assumes "dtls_reach (logged net) (NewDTLSTransport ip port, w0, []) (t, w, log)"
  shows "track log {#} = Some (held (dt_conn t))"
  using dtls_reach_inv [OF assms] by (simp add: conn_inv_def)

lemma dtls_connections_witness:
  "track [Dialled 0] {#} = Some {#0#} \<and>
   dtls_reach (logged (device_network id)) (NewDTLSTransport ''inv'' 8899, [], [])
     (NewDTLSTransport ''inv'' 8899\<lparr>dt_conn := Some 0\<rparr>, [], [Dialled 0])"
proof -
  let ?s0 = "(NewDTLSTransport ''inv'' 8899, [], [])"
  let ?t1 = "NewDTLSTransport ''inv'' 8899\<lparr>dt_conn := Some 0\<rparr>"
  have "dtls_Connect (logged (device_network id)) ?s0 = Ret (None, ?t1, [], [Dialled 0])"
    by (simp add: dtls_Connect_def dtls_drop_def NewDTLSTransport_def log_defs device_network_def)
  then have r: "dtls_reach (logged (device_network id)) ?s0 (?t1, [], [Dialled 0])"
    by (rule dtls_call_Connect [OF dtls_start])
  with dtls_connections [OF r] show ?thesis by (simp add: held_def)
qed

text \<open>
  One register read over TCP dials at most once and sends at most two frames, the requests for
  the same registers with the next two transaction ids, in this order, whatever the network
  answers.
\<close>

theorem tcp_read_bounded:
  assumes "tcp_ReadRegisters (logged net) a q (t, w, log) = Ret (r, t', w', log')"
  shows "\<exists>es. log' = log @ es \<and> dials es \<le> 1 \<and>
           subseq (writes es) [snd (buildRequest (tt_txID t) a q), snd (buildRequest (tt_txID t + 1) a q)]"
  using tcp_log.read_log [OF assms] by (auto simp: account_def tcp_requests_def)

lemma tcp_read_bounded_witness:
  "\<exists>r t' w' log'. tcp_ReadRegisters (logged (device_network id)) 35000 33
       (NewTCPTransport ''inv'' 502, [], []) = Ret (r, t', w', log') \<and> dials log' \<le> 1 \<and>
     length (writes log') \<le> 2"
proof -
  let ?s0 = "(NewTCPTransport ''inv'' 502, [], [])"
  obtain r t' w' log' where r: "tcp_ReadRegisters (logged (device_network id)) 35000 33 ?s0
      = Ret (r, t', w', log')"
    using tcp_ReadRegisters_Ret [of "logged (device_network id)" 35000 33 ?s0] by auto
  from tcp_read_bounded [OF r] show ?thesis
    using r list_emb_length by fastforce
qed

text \<open>
  C5: End to end, over either transport and from any state of it: when a Modbus device answers, a
  read of up to 127 registers returns exactly the device's registers, big-endian and in order, and a
  read of a block the device does not have fails with the error that the inverter recognises as
  ILLEGAL_DATA_ADDRESS.
\<close>

theorem device_read:
  assumes "q \<le> 127"
  shows "(\<exists>r s'. tcp_ReadRegisters (device_network (tcp_answer dv)) a q s = Ret (r, s') \<and>
           device_result dv a q r) \<and>
         (\<exists>r u'. dtls_ReadRegisters (device_network (rtu_answer dv)) a q u = Ret (r, u') \<and>
           device_result dv a q r)"
  using tcp_device_read [OF assms] dtls_device_read [OF assms] by blast

lemma device_read_witness:
  "\<exists>d s'. tcp_ReadRegisters (device_network (tcp_answer \<lparr>dv_regs = \<lambda>r. r, dv_has = \<lambda>_ _. True\<rparr>))
     35000 2 (NewTCPTransport ''inv'' 502, []) = Ret (Inr d, s') \<and>
     sl_data d = [0x88, 0xB8, 0x88, 0xB9]"
proof -
  let ?dv = "\<lparr>dv_regs = \<lambda>r. r, dv_has = \<lambda>_ _. True\<rparr>"
  have regs: "registers ?dv 35000 2 = [0x88, 0xB8, 0x88, 0xB9]"
    by (simp add: registers_def put_be16_def upt_rec)
  show ?thesis
    using device_read [of 2 ?dv 35000 "(NewTCPTransport ''inv'' 502, [])"
        "(NewDTLSTransport ''inv'' 8899, [])"]
    by (auto simp: device_result_def regs)
qed

end
