(* ===== verification/Go_Float.thy ===== *)
theory Go_Float
  imports Go_Prelude Complex_Main
begin

text \<open>
  Go's \<open>float64\<close>: IEEE 754 binary64 with round-to-nearest-even. A finite value is kept as the
  rational number it denotes, so arithmetic is the exact operation followed by \<open>f_round\<close>. Negative
  zero, the infinities and NaN have constructors of their own.
\<close>

section \<open>Values and rounding\<close>

datatype f64 = NaN | PosInf | NegInf | NegZero | Fin rat

definition pow2 :: "int \<Rightarrow> rat" where
  "pow2 e = (if 0 \<le> e then 2 ^ nat e else 1 / 2 ^ nat (- e))"

text \<open>The binary logarithm of a positive integer, rounded down.\<close>

function int_log2 :: "int \<Rightarrow> int" where
  "int_log2 n = (if n \<le> 1 then 0 else 1 + int_log2 (n div 2))"
  by pat_completeness auto
termination
  by (relation "measure nat") auto

declare int_log2.simps [simp del]

text \<open>The binary exponent of a positive rational: \<open>pow2 e \<le> q < pow2 (e + 1)\<close>.\<close>

definition ilog2 :: "rat \<Rightarrow> int" where
  "ilog2 q = (if 1 \<le> q then int_log2 \<lfloor>q\<rfloor> else - 1 - int_log2 (\<lceil>1 / q\<rceil> - 1))"

definition round_even :: "rat \<Rightarrow> int" where
  "round_even x =
     (let n = \<lfloor>x\<rfloor>; f = x - of_int n
      in if f < 1/2 then n else if f > 1/2 then n + 1 else if even n then n else n + 1)"

text \<open>53 bits of precision, and the fixed grid \<open>pow2 (-1074)\<close> in the subnormal range.\<close>

definition grid :: "rat \<Rightarrow> int" where
  "grid q = max (ilog2 q - 52) (- 1074)"

definition round_mag :: "rat \<Rightarrow> rat" where
  "round_mag q = of_int (round_even (q / pow2 (grid q))) * pow2 (grid q)"

definition f_round :: "rat \<Rightarrow> f64" where
  "f_round q =
     (if q = 0 then Fin 0
      else let r = round_mag \<bar>q\<bar>
           in if r \<noteq> 0 \<and> ilog2 r \<ge> 1024 then (if q < 0 then NegInf else PosInf)
              else if r = 0 then (if q < 0 then NegZero else Fin 0)
              else Fin (if q < 0 then - r else r))"

section \<open>Operations\<close>

definition f_of_int :: "int \<Rightarrow> f64" where
  "f_of_int n = f_round (of_int n)"

fun f_neg_bit :: "f64 \<Rightarrow> bool" where
  "f_neg_bit NaN = False"
| "f_neg_bit PosInf = False"
| "f_neg_bit NegInf = True"
| "f_neg_bit NegZero = True"
| "f_neg_bit (Fin q) = (q < 0)"

definition f_zero :: "bool \<Rightarrow> f64" where
  "f_zero neg = (if neg then NegZero else Fin 0)"

definition f_inf :: "bool \<Rightarrow> f64" where
  "f_inf neg = (if neg then NegInf else PosInf)"

text \<open>The rational a finite value denotes, \<open>None\<close> for NaN and the infinities.\<close>

fun f_val :: "f64 \<Rightarrow> rat option" where
  "f_val (Fin q) = Some q"
| "f_val NegZero = Some 0"
| "f_val _ = None"

definition f_mul :: "f64 \<Rightarrow> f64 \<Rightarrow> f64" where
  "f_mul x y =
     (let neg = (f_neg_bit x \<noteq> f_neg_bit y)
      in if x = NaN \<or> y = NaN then NaN
         else case (f_val x, f_val y) of
           (Some a, Some b) \<Rightarrow> if a * b = 0 then f_zero neg else f_round (a * b)
         | (Some a, None) \<Rightarrow> if a = 0 then NaN else f_inf neg
         | (None, Some b) \<Rightarrow> if b = 0 then NaN else f_inf neg
         | (None, None) \<Rightarrow> f_inf neg)"

definition f_div :: "f64 \<Rightarrow> f64 \<Rightarrow> f64" where
  "f_div x y =
     (let neg = (f_neg_bit x \<noteq> f_neg_bit y)
      in if x = NaN \<or> y = NaN then NaN
         else case (f_val x, f_val y) of
           (Some a, Some b) \<Rightarrow>
             if b = 0 then (if a = 0 then NaN else f_inf neg)
             else if a = 0 then f_zero neg else f_round (a / b)
         | (Some a, None) \<Rightarrow> f_zero neg
         | (None, Some b) \<Rightarrow> f_inf neg
         | (None, None) \<Rightarrow> NaN)"

definition f_add :: "f64 \<Rightarrow> f64 \<Rightarrow> f64" where
  "f_add x y =
     (if x = NaN \<or> y = NaN then NaN
      else case (f_val x, f_val y) of
        (Some a, Some b) \<Rightarrow> if x = NegZero \<and> y = NegZero then NegZero else f_round (a + b)
      | (Some a, None) \<Rightarrow> y
      | (None, Some b) \<Rightarrow> x
      | (None, None) \<Rightarrow> if x = y then x else NaN)"

fun f_uminus :: "f64 \<Rightarrow> f64" where
  "f_uminus NaN = NaN"
| "f_uminus PosInf = NegInf"
| "f_uminus NegInf = PosInf"
| "f_uminus NegZero = Fin 0"
| "f_uminus (Fin q) = (if q = 0 then NegZero else Fin (- q))"

definition f_sub :: "f64 \<Rightarrow> f64 \<Rightarrow> f64" where
  "f_sub x y = f_add x (f_uminus y)"

definition f_less :: "f64 \<Rightarrow> f64 \<Rightarrow> bool" where
  "f_less x y =
     (if x = NaN \<or> y = NaN then False
      else case (f_val x, f_val y) of
        (Some a, Some b) \<Rightarrow> a < b
      | (Some a, None) \<Rightarrow> y = PosInf
      | (None, Some b) \<Rightarrow> x = NegInf
      | (None, None) \<Rightarrow> x = NegInf \<and> y = PosInf)"

text \<open>Go's conversion \<open>int(x)\<close> of a finite value truncates towards zero.\<close>

fun f_trunc :: "f64 \<Rightarrow> int option" where
  "f_trunc (Fin q) = Some (if q < 0 then - \<lfloor>- q\<rfloor> else \<lfloor>q\<rfloor>)"
| "f_trunc NegZero = Some 0"
| "f_trunc _ = None"

text \<open>\<open>float64(math.Float32frombits(w))\<close>: every binary32 value is a binary64 value.\<close>

definition f_of_float32_bits :: "u32 \<Rightarrow> f64" where
  "f_of_float32_bits w =
     (let neg = bit w 31; ex = uint (drop_bit 23 w AND 255); man = uint (w AND 8388607)
      in if ex = 255 then (if man = 0 then f_inf neg else NaN)
         else let m = (if ex = 0 then man else man + 8388608);
                  q = of_int m * pow2 ((if ex = 0 then 1 else ex) - 150)
              in if q = 0 then f_zero neg else Fin (if neg then - q else q))"

section \<open>Powers of two and exponents\<close>

lemma pow2_powi: "pow2 e = 2 powi e"
  by (simp add: pow2_def power_int_def power_one_over inverse_eq_divide)

lemma pow2_pos [simp]: "0 < pow2 e"
  by (simp add: pow2_def)

lemma pow2_nonneg [simp]: "0 \<le> pow2 e"
  by (simp add: pow2_def)

lemma pow2_nonzero [simp]: "pow2 e \<noteq> 0"
  using pow2_pos [of e] by linarith

lemma pow2_add: "pow2 (a + b) = pow2 a * pow2 b"
  by (simp add: pow2_powi power_int_add)

lemma pow2_mono: "a \<le> b \<Longrightarrow> pow2 a \<le> pow2 b"
  by (simp add: pow2_powi power_int_increasing)

lemma pow2_less_iff: "pow2 a < pow2 b \<longleftrightarrow> a < b"
proof
  assume "pow2 a < pow2 b"
  then show "a < b" using pow2_mono [of b a] by linarith
next
  assume "a < b"
  then have "pow2 b = pow2 a * pow2 (b - a)" by (simp flip: pow2_add)
  moreover have "1 < pow2 (b - a)" using \<open>a < b\<close> by (simp add: pow2_def)
  ultimately show "pow2 a < pow2 b" by simp
qed

lemma pow2_nat: "0 \<le> e \<Longrightarrow> pow2 e = of_int (2 ^ nat e)"
  by (simp add: pow2_def)

lemma pow2_uminus: "pow2 (- e) = 1 / pow2 e"
  by (simp add: pow2_powi power_int_minus inverse_eq_divide)

lemma int_log2_nonneg: "0 \<le> int_log2 n"
  by (induction n rule: int_log2.induct) (subst int_log2.simps, simp)

lemma int_log2_bounds:
  "1 \<le> n \<Longrightarrow> 2 ^ nat (int_log2 n) \<le> n \<and> n < 2 ^ (nat (int_log2 n) + 1)"
proof (induction n rule: int_log2.induct)
  case (1 n)
  show ?case
  proof (cases "n \<le> 1")
    case True
    with 1 show ?thesis by (subst (1 2) int_log2.simps) simp
  next
    case False
    with 1 have IH: "2 ^ nat (int_log2 (n div 2)) \<le> n div 2"
        "n div 2 < 2 ^ (nat (int_log2 (n div 2)) + 1)" by auto
    have "int_log2 n = 1 + int_log2 (n div 2)"
      using False by (subst int_log2.simps) simp
    then have "nat (int_log2 n) = Suc (nat (int_log2 (n div 2)))"
      using int_log2_nonneg [of "n div 2"] by simp
    moreover have "2 * (n div 2) \<le> n" "n < 2 * (n div 2) + 2" by linarith+
    ultimately show ?thesis using IH by simp
  qed
qed

lemma ilog2_bounds:
  assumes "0 < q"
  shows "pow2 (ilog2 q) \<le> q \<and> q < pow2 (ilog2 q + 1)"
proof (cases "1 \<le> q")
  case True
  let ?k = "int_log2 \<lfloor>q\<rfloor>"
  have b: "2 ^ nat ?k \<le> \<lfloor>q\<rfloor>" "\<lfloor>q\<rfloor> < 2 ^ (nat ?k + 1)"
    using int_log2_bounds [of "\<lfloor>q\<rfloor>"] True by (auto simp: le_floor_iff)
  have k: "ilog2 q = ?k" "0 \<le> ?k"
    using True by (simp_all add: ilog2_def int_log2_nonneg)
  have "pow2 ?k \<le> q"
    using b(1) k(2) by (simp add: pow2_nat le_floor_iff)
  moreover have "q < pow2 (?k + 1)"
    using b(2) k(2) by (simp add: pow2_nat floor_less_iff nat_add_distrib)
  ultimately show ?thesis by (simp add: k(1))
next
  case False
  let ?n = "\<lceil>1 / q\<rceil>" and ?k = "int_log2 (\<lceil>1 / q\<rceil> - 1)"
  have "1 < 1 / q" using False assms by simp
  then have n: "1 \<le> ?n - 1" by (simp add: less_ceiling_iff le_diff_eq)
  have b: "2 ^ nat ?k \<le> ?n - 1" "?n - 1 < 2 ^ (nat ?k + 1)"
    using int_log2_bounds [OF n] by auto
  have k: "ilog2 q = - (?k + 1)" "0 \<le> ?k"
    using False by (simp_all add: ilog2_def int_log2_nonneg)
  have "1 / q \<le> of_int (2 ^ (nat ?k + 1))"
    using b(2) by (simp only: flip: ceiling_le_iff)
  then have up: "1 / q \<le> pow2 (?k + 1)"
    using k(2) by (simp add: pow2_nat nat_add_distrib)
  have "of_int (2 ^ nat ?k) < 1 / q"
    using b(1) by (simp only: flip: less_ceiling_iff)
  then have lo: "pow2 ?k < 1 / q"
    using k(2) by (simp add: pow2_nat)
  have "1 / pow2 (?k + 1) \<le> q"
    using up assms by (simp add: field_simps)
  moreover have "q < 1 / pow2 ?k"
    using lo assms by (simp add: field_simps)
  ultimately show ?thesis
    unfolding k(1) by (simp add: pow2_uminus [symmetric])
qed

lemma ilog2_mono:
  assumes "0 < p" "p \<le> q"
  shows "ilog2 p \<le> ilog2 q"
proof -
  have "pow2 (ilog2 p) < pow2 (ilog2 q + 1)"
    using ilog2_bounds [of p] ilog2_bounds [of q] assms by linarith
  then show ?thesis by (simp add: pow2_less_iff)
qed

lemma ilog2_unique:
  assumes "pow2 e \<le> q" "q < pow2 (e + 1)"
  shows "ilog2 q = e"
proof -
  have q: "0 < q" using assms(1) pow2_pos [of e] by linarith
  have "pow2 e < pow2 (ilog2 q + 1)" "pow2 (ilog2 q) < pow2 (e + 1)"
    using ilog2_bounds [OF q] assms by linarith+
  then show ?thesis by (simp add: pow2_less_iff)
qed

section \<open>Rounding\<close>

lemma round_even_int [simp]: "round_even (of_int n) = n"
  by (simp add: round_even_def)

lemma round_even_err: "\<bar>of_int (round_even x) - x\<bar> \<le> 1/2"
  using floor_correct [of x] by (auto simp: round_even_def Let_def abs_le_iff)

lemma round_even_mono:
  assumes "x \<le> y"
  shows "round_even x \<le> round_even y"
proof (rule ccontr)
  assume "\<not> round_even x \<le> round_even y"
  then have "of_int (round_even y) + (1::rat) \<le> of_int (round_even x)" by linarith
  with round_even_err [of x] round_even_err [of y] assms
  have eq: "x = y" "x = of_int (round_even y) + 1/2" by linarith+
  then show False using \<open>\<not> round_even x \<le> round_even y\<close> by simp
qed

lemma round_mag_nonneg: "0 < q \<Longrightarrow> 0 \<le> round_mag q"
proof -
  assume "0 < q"
  then have "round_even (of_int 0) \<le> round_even (q / pow2 (grid q))"
    by (intro round_even_mono) (simp add: less_imp_le)
  then have "0 \<le> round_even (q / pow2 (grid q))" by (simp only: round_even_int)
  then show ?thesis by (simp add: round_mag_def)
qed

text \<open>A value on the grid of its exponent is kept.\<close>

lemma round_mag_exact:
  assumes "q = of_int m * pow2 (grid q)"
  shows "round_mag q = q"
proof -
  have "q / pow2 (grid q) = of_int m"
    by (subst assms) simp
  then show ?thesis using assms by (simp add: round_mag_def)
qed

lemma round_mag_le_pow2:
  assumes "0 < q" "- 1074 \<le> e" "q \<le> pow2 e"
  shows "round_mag q \<le> pow2 e"
proof -
  have "pow2 (ilog2 q) \<le> pow2 e" using ilog2_bounds [OF assms(1)] assms(3) by linarith
  then have "ilog2 q \<le> e" using pow2_less_iff [of e "ilog2 q"] by linarith
  then have g: "grid q \<le> e" using assms(2) by (simp add: grid_def)
  then have pe: "pow2 e = of_int (2 ^ nat (e - grid q)) * pow2 (grid q)"
    by (subst pow2_nat [symmetric]) (simp_all flip: pow2_add)
  have "q / pow2 (grid q) \<le> of_int (2 ^ nat (e - grid q))"
    using assms(3) pe by (simp add: divide_le_eq)
  then have "round_even (q / pow2 (grid q)) \<le> 2 ^ nat (e - grid q)"
    using round_even_mono round_even_int by metis
  then show ?thesis
    by (simp only: round_mag_def pe mult_le_cancel_right_pos pow2_pos of_int_le_iff)
qed

lemma pow2_le_round_mag:
  assumes "pow2 e \<le> q" "- 1022 \<le> e"
  shows "pow2 e \<le> round_mag q"
proof -
  have q: "0 < q" using assms(1) pow2_pos [of e] by linarith
  have "pow2 e < pow2 (ilog2 q + 1)" using ilog2_bounds [OF q] assms(1) by linarith
  then have le: "e \<le> ilog2 q" by (simp add: pow2_less_iff)
  then have g: "grid q = ilog2 q - 52" using assms(2) by (simp add: grid_def)
  have "pow2 (ilog2 q) / pow2 (grid q) = of_int (2 ^ 52)"
    by (simp add: g pow2_nat [symmetric] pow2_powi power_int_diff)
  moreover have "pow2 (ilog2 q) / pow2 (grid q) \<le> q / pow2 (grid q)"
    using ilog2_bounds [OF q] by (intro divide_right_mono) (simp_all add: less_imp_le)
  ultimately have "2 ^ 52 \<le> round_even (q / pow2 (grid q))"
    using round_even_mono round_even_int by metis
  then have "of_int (2 ^ 52) * pow2 (grid q) \<le> round_mag q"
    by (simp only: round_mag_def mult_le_cancel_right_pos pow2_pos of_int_le_iff)
  then have "pow2 (ilog2 q) \<le> round_mag q"
    using \<open>pow2 (ilog2 q) / pow2 (grid q) = of_int (2 ^ 52)\<close> by (simp add: field_simps)
  then show ?thesis using pow2_mono [OF le] by linarith
qed

lemma round_mag_mono:
  assumes "0 < p" "p \<le> q"
  shows "round_mag p \<le> round_mag q"
proof (cases "grid p = grid q")
  case True
  have "p / pow2 (grid q) \<le> q / pow2 (grid q)"
    using assms by (intro divide_right_mono) (simp_all add: less_imp_le)
  then have "round_even (p / pow2 (grid q)) \<le> round_even (q / pow2 (grid q))"
    by (rule round_even_mono)
  then show ?thesis by (simp add: round_mag_def True)
next
  case False
  then have lt: "ilog2 p < ilog2 q" and sub: "- 1022 < ilog2 q"
    using ilog2_mono [OF assms] by (auto simp: grid_def max_def split: if_splits)
  have "p \<le> pow2 (ilog2 p + 1)" using ilog2_bounds [OF assms(1)] by linarith
  also have "\<dots> \<le> pow2 (ilog2 q)" using lt by (simp add: pow2_mono)
  finally have "round_mag p \<le> pow2 (ilog2 q)"
    using assms(1) sub by (intro round_mag_le_pow2) auto
  also have "\<dots> \<le> round_mag q"
    using assms sub ilog2_bounds [of q] by (intro pow2_le_round_mag) auto
  finally show ?thesis .
qed

section \<open>Conversions and products\<close>

lemma round_mag_of_int:
  assumes "0 < n" "n \<le> 2 ^ 53"
  shows "round_mag (of_int n) = of_int n"
proof -
  let ?q = "of_int n :: rat"
  have q: "pow2 (ilog2 ?q) \<le> ?q" "1 \<le> ?q"
    using ilog2_bounds [of ?q] assms(1) by auto
  have "?q \<le> pow2 53" using assms(2) by (simp add: pow2_nat flip: of_int_le_iff)
  then have "pow2 (ilog2 ?q) \<le> pow2 53" using q(1) by linarith
  then have k: "ilog2 ?q \<le> 53" using pow2_less_iff [of 53 "ilog2 ?q"] by linarith
  have k0: "0 \<le> ilog2 ?q"
    using ilog2_mono [of 1 ?q] q(2) by (simp add: ilog2_def int_log2.simps)
  show ?thesis
  proof (cases "ilog2 ?q = 53")
    case True
    then have "?q = pow2 53" using q(1) \<open>?q \<le> pow2 53\<close> by simp
    moreover have "grid ?q = 1" using True by (simp add: grid_def)
    ultimately have "?q = of_int (2 ^ 52) * pow2 (grid ?q)"
      by (simp only:) (simp add: pow2_def)
    then show ?thesis by (rule round_mag_exact)
  next
    case False
    then have g: "grid ?q = - int (nat (52 - ilog2 ?q))"
      using k k0 by (simp add: grid_def)
    have "?q = of_int (n * 2 ^ nat (52 - ilog2 ?q)) * pow2 (grid ?q)"
      unfolding g by (simp add: pow2_def)
    then show ?thesis by (rule round_mag_exact)
  qed
qed

lemma f_of_int_exact [simp]:
  assumes "\<bar>n\<bar> \<le> 2 ^ 53"
  shows "f_of_int n = Fin (of_int n)"
proof (cases "n = 0")
  case True
  then show ?thesis by (simp add: f_of_int_def f_round_def)
next
  case False
  let ?q = "of_int \<bar>n\<bar> :: rat"
  have r: "round_mag ?q = ?q" using assms False by (intro round_mag_of_int) auto
  have pos: "0 < ?q" using False by simp
  have "?q \<le> pow2 53" using assms by (simp only: pow2_nat of_int_le_iff) simp
  then have "pow2 (ilog2 ?q) \<le> pow2 53" using ilog2_bounds [OF pos] by linarith
  then have "\<not> 1024 \<le> ilog2 ?q" using pow2_mono [of 1024 "ilog2 ?q"] pow2_less_iff [of 53 1024]
    by linarith
  then show ?thesis using r False by (auto simp: f_of_int_def f_round_def Let_def)
qed

lemma f_round_nonneg_mono:
  assumes "0 \<le> p" "p \<le> q" "f_round q = Fin r"
  shows "\<exists>s. f_round p = Fin s \<and> 0 \<le> s \<and> s \<le> r"
proof (cases "p = 0")
  case True
  have "0 \<le> r"
    using assms round_mag_nonneg [of q] by (auto simp: f_round_def Let_def split: if_splits)
  then show ?thesis by (simp add: True f_round_def)
next
  case False
  then have p: "0 < p" "0 < q" using assms by auto
  let ?s = "round_mag p" and ?r = "round_mag q"
  have sr: "0 \<le> ?s" "?s \<le> ?r"
    using p assms by (auto intro: round_mag_nonneg round_mag_mono)
  have r: "r = ?r" "?r = 0 \<or> ilog2 ?r < 1024"
    using assms(3) p by (auto simp: f_round_def Let_def split: if_splits)
  have "\<not> (?s \<noteq> 0 \<and> 1024 \<le> ilog2 ?s)"
    using ilog2_mono [of ?s ?r] sr r(2) by auto
  then show ?thesis using p sr r(1) by (auto simp: f_round_def Let_def)
qed

text \<open>Scaling a non-negative integer by a positive factor is monotone.\<close>

lemma f_mul_of_int_mono:
  assumes "0 \<le> m" "m \<le> n" "n \<le> 2 ^ 53" "0 < c"
    and "f_mul (Fin (of_int n)) (Fin c) = Fin r"
  shows "\<exists>s. f_mul (Fin (of_int m)) (Fin c) = Fin s \<and> 0 \<le> s \<and> s \<le> r"
proof (cases "m = 0")
  case True
  have "0 \<le> of_int n * c" using assms by simp
  then have "0 \<le> r"
    using assms f_round_nonneg_mono [of 0 "of_int n * c" r]
    by (auto simp: f_mul_def f_zero_def f_round_def split: if_splits)
  then show ?thesis using assms by (simp add: True f_mul_def f_zero_def)
next
  case False
  then have "f_round (of_int n * c) = Fin r"
    using assms by (simp add: f_mul_def)
  then show ?thesis
    using f_round_nonneg_mono [of "of_int m * c" "of_int n * c" r] assms False
    by (auto simp: f_mul_def)
qed

lemma f_less_Fin [simp]: "f_less (Fin a) (Fin b) \<longleftrightarrow> a < b"
  by (simp add: f_less_def)

end
