(* ===== verification/Sensor_Readers.thy ===== *)
theory Sensor_Readers
  imports Go_Float Sensor_Labels
begin

text \<open>
  The register readers of \<open>et/registry.go\<close> (lines 461-742): each turns a register index and its
  parameters into a calculator, a function from the raw bytes of a block to a sensor value. Readers
  check their bounds against the length of the slice; a register the block does not have reads as
  zero or as the empty string.
\<close>

section \<open>Sensor values\<close>

text \<open>\<open>time.Time{}\<close>, or \<open>time.Date(\<dots>, time.Local)\<close> as seconds of the local civil time since
  1970-01-01 00:00:00.\<close>

datatype gotime = TimeZero | LocalTime int

datatype sval = VFloat f64 | VString string | VTime gotime

text \<open>A numeric constant of the source, converted to \<open>float64\<close>.\<close>

definition f_lit :: "rat \<Rightarrow> f64" where
  "f_lit q = f_round q"

definition undef16 :: u16 where "undef16 = 0xFFFF"
definition undef32 :: u32 where "undef32 = 0xFFFFFFFF"
definition undef64 :: u64 where "undef64 = 0xFFFFFFFFFFFFFFFF"

type_synonym calculator = "slice \<Rightarrow> sval outcome"

section \<open>Numeric readers\<close>

definition uint16Reader :: "nat \<Rightarrow> f64 \<Rightarrow> calculator" where
  "uint16Reader regIdx scale data =
     (let offset = regIdx * 2
      in if offset + 2 > sl_len data then Ret (VFloat (f_of_int 0))
         else obind (u16_at data offset) (\<lambda>raw.
           if raw = undef16 then Ret (VFloat (f_of_int 0))
           else Ret (VFloat (f_mul (f_of_int (uint raw)) scale))))"

definition int16Reader :: "nat \<Rightarrow> f64 \<Rightarrow> calculator" where
  "int16Reader regIdx scale data =
     (let offset = regIdx * 2
      in if offset + 2 > sl_len data then Ret (VFloat (f_of_int 0))
         else obind (u16_at data offset) (\<lambda>raw.
           Ret (VFloat (f_mul (f_of_int (sint raw)) scale))))"

definition readUint32 :: "slice \<Rightarrow> nat \<Rightarrow> u32 outcome" where
  "readUint32 data regIdx =
     (let offset = regIdx * 2
      in if offset + 4 > sl_len data then Ret 0 else u32_at data offset)"

definition uint32Reader :: "nat \<Rightarrow> calculator" where
  "uint32Reader regIdx data =
     obind (readUint32 data regIdx) (\<lambda>v.
       if v = undef32 then Ret (VFloat (f_of_int 0)) else Ret (VFloat (f_of_int (uint v))))"

definition int32Reader :: "nat \<Rightarrow> calculator" where
  "int32Reader regIdx data =
     obind (readUint32 data regIdx) (\<lambda>v. Ret (VFloat (f_of_int (sint v))))"

definition energy4Reader :: "nat \<Rightarrow> calculator" where
  "energy4Reader regIdx data =
     obind (readUint32 data regIdx) (\<lambda>v.
       if v = undef32 then Ret (VFloat (f_of_int 0))
       else Ret (VFloat (f_div (f_of_int (uint v)) (f_lit 10))))"

definition energy2Reader :: "nat \<Rightarrow> calculator" where
  "energy2Reader regIdx data =
     (let offset = regIdx * 2
      in if offset + 2 > sl_len data then Ret (VFloat (f_of_int 0))
         else obind (u16_at data offset) (\<lambda>raw.
           if raw = undef16 then Ret (VFloat (f_of_int 0))
           else Ret (VFloat (f_div (f_of_int (uint raw)) (f_lit 10)))))"

definition energy8Reader :: "nat \<Rightarrow> calculator" where
  "energy8Reader regIdx data =
     (let offset = regIdx * 2
      in if offset + 8 > sl_len data then Ret (VFloat (f_of_int 0))
         else obind (u64_at data offset) (\<lambda>v.
           if v = undef64 then Ret (VFloat (f_of_int 0))
           else Ret (VFloat (f_div (f_of_int (uint v)) (f_lit 100)))))"

definition tempReader :: "nat \<Rightarrow> calculator" where
  "tempReader regIdx data =
     (let offset = regIdx * 2
      in if offset + 2 > sl_len data then Ret (VFloat (f_of_int 0))
         else obind (u16_at data offset) (\<lambda>raw.
           let v = sint raw
           in if v = - 1 \<or> v = 32767 then Ret (VFloat (f_of_int 0))
              else Ret (VFloat (f_div (f_of_int v) (f_lit 10)))))"

definition cellVoltageReader :: "nat \<Rightarrow> calculator" where
  "cellVoltageReader regIdx data =
     (let offset = regIdx * 2
      in if offset + 2 > sl_len data then Ret (VFloat (f_of_int 0))
         else obind (u16_at data offset) (\<lambda>raw.
           Ret (VFloat (f_div (f_of_int (uint raw)) (f_lit 1000)))))"

definition decimalReader :: "nat \<Rightarrow> f64 \<Rightarrow> calculator" where
  "decimalReader regIdx scale data =
     (let offset = regIdx * 2
      in if offset + 2 > sl_len data then Ret (VFloat (f_of_int 0))
         else obind (u16_at data offset) (\<lambda>raw.
           Ret (VFloat (f_div (f_of_int (sint raw)) scale))))"

definition floatReader :: "nat \<Rightarrow> f64 \<Rightarrow> calculator" where
  "floatReader regIdx scale data =
     (let offset = regIdx * 2
      in if offset + 4 > sl_len data then Ret (VFloat (f_of_int 0))
         else obind (u32_at data offset) (\<lambda>w.
           Ret (VFloat (f_div (f_of_float32_bits w) scale))))"

section \<open>Byte-level codes\<close>

definition highByteReader :: "nat \<Rightarrow> calculator" where
  "highByteReader regIdx data =
     (let offset = regIdx * 2
      in if offset + 2 > sl_len data then Ret (VFloat (f_of_int 0))
         else obind (index_at data offset) (\<lambda>b. Ret (VFloat (f_of_int (sint b)))))"

definition lowByteReader :: "nat \<Rightarrow> calculator" where
  "lowByteReader regIdx data =
     (let offset = regIdx * 2
      in if offset + 2 > sl_len data then Ret (VFloat (f_of_int 0))
         else obind (index_at data (offset + 1)) (\<lambda>b. Ret (VFloat (f_of_int (sint b)))))"

section \<open>Labels\<close>

text \<open>A missing key gives the empty string.\<close>

definition label_or_empty :: "(int \<times> string) list \<Rightarrow> int \<Rightarrow> string" where
  "label_or_empty labels v = (case map_of labels v of None \<Rightarrow> '''' | Some s \<Rightarrow> s)"

definition enumHReader :: "nat \<Rightarrow> (int \<times> string) list \<Rightarrow> calculator" where
  "enumHReader regIdx labels data =
     (let offset = regIdx * 2
      in if offset + 2 > sl_len data then Ret (VString '''')
         else obind (index_at data offset) (\<lambda>b. Ret (VString (label_or_empty labels (sint b)))))"

definition enumLReader :: "nat \<Rightarrow> (int \<times> string) list \<Rightarrow> calculator" where
  "enumLReader regIdx labels data =
     (let offset = regIdx * 2
      in if offset + 2 > sl_len data then Ret (VString '''')
         else obind (index_at data (offset + 1))
                (\<lambda>b. Ret (VString (label_or_empty labels (sint b)))))"

definition enum2Reader :: "nat \<Rightarrow> (int \<times> string) list \<Rightarrow> calculator" where
  "enum2Reader regIdx labels data =
     (let offset = regIdx * 2
      in if offset + 2 > sl_len data then Ret (VString '''')
         else obind (u16_at data offset)
                (\<lambda>raw. Ret (VString (label_or_empty labels (uint raw)))))"

section \<open>Bitmaps\<close>

text \<open>The loop \<open>for i := 0; i < 32; i++\<close>, with the remaining bits and the parts found so far.\<close>

function decodeBitmap_loop :: "nat \<Rightarrow> u32 \<Rightarrow> (int \<times> string) list \<Rightarrow> string list \<Rightarrow> string list" where
  "decodeBitmap_loop i v labels parts =
     (if i < 32
      then let parts' =
             (if v AND 1 = 1
              then (case map_of labels (int i) of
                      Some s \<Rightarrow> if s \<noteq> '''' then parts @ [s] else parts
                    | None \<Rightarrow> parts)
              else parts)
           in decodeBitmap_loop (Suc i) (drop_bit 1 v) labels parts'
      else parts)"
  by pat_completeness auto
termination
  by (relation "measure (\<lambda>(i, v, labels, parts). 32 - i)") auto

declare decodeBitmap_loop.simps [simp del]

definition decodeBitmap :: "u32 \<Rightarrow> (int \<times> string) list \<Rightarrow> string" where
  "decodeBitmap v labels =
     (case decodeBitmap_loop 0 v labels [] of
        [] \<Rightarrow> ''''
      | [p] \<Rightarrow> p
      | p # ps \<Rightarrow> foldl (\<lambda>result q. result @ '', '' @ q) p ps)"

definition enumBitmap4Reader :: "nat \<Rightarrow> (int \<times> string) list \<Rightarrow> calculator" where
  "enumBitmap4Reader regIdx labels data =
     (let offset = regIdx * 2
      in if offset + 4 > sl_len data then Ret (VString '''')
         else obind (u32_at data offset) (\<lambda>v. Ret (VString (decodeBitmap v labels))))"

definition enumBitmap22Reader :: "nat \<Rightarrow> nat \<Rightarrow> (int \<times> string) list \<Rightarrow> calculator" where
  "enumBitmap22Reader hiReg loReg labels data =
     (let hiOff = hiReg * 2; loOff = loReg * 2
      in if hiOff + 2 > sl_len data \<or> loOff + 2 > sl_len data then Ret (VString '''')
         else obind (u16_at data hiOff) (\<lambda>hi. obind (u16_at data loOff) (\<lambda>lo.
           let v = push_bit 16 (ucast hi :: u32) OR (ucast lo :: u32)
           in Ret (VString (decodeBitmap v labels)))))"

section \<open>Timestamps\<close>

definition is_leap :: "int \<Rightarrow> bool" where
  "is_leap y \<longleftrightarrow> y mod 4 = 0 \<and> (y mod 100 \<noteq> 0 \<or> y mod 400 = 0)"

definition days_before_month :: "int \<Rightarrow> int \<Rightarrow> int" where
  "days_before_month y m0 =
     [0, 31, 59, 90, 120, 151, 181, 212, 243, 273, 304, 334] ! nat m0
     + (if is_leap y \<and> m0 \<ge> 2 then 1 else 0)"

definition days_before_year :: "int \<Rightarrow> int" where
  "days_before_year y =
     365 * (y - 1970) + ((y - 1) div 4 - (y - 1) div 100 + (y - 1) div 400) - 477"

text \<open>
  \<open>time.Date(year, month, day, hour, min, sec, 0, loc)\<close> accepts values out of range and
  normalises them: the month into the year, the rest by carrying.
\<close>

definition time_date :: "int \<Rightarrow> int \<Rightarrow> int \<Rightarrow> int \<Rightarrow> int \<Rightarrow> int \<Rightarrow> int" where
  "time_date year month day hour mi sec =
     (let y = year + (month - 1) div 12; m0 = (month - 1) mod 12
      in (days_before_year y + days_before_month y m0 + (day - 1)) * 86400
         + hour * 3600 + mi * 60 + sec)"

definition timestampReader :: "nat \<Rightarrow> calculator" where
  "timestampReader regIdx data =
     (let offset = regIdx * 2
      in if offset + 6 > sl_len data then Ret (VTime TimeZero)
         else obind (index_at data offset) (\<lambda>b0.
              obind (index_at data (offset + 1)) (\<lambda>b1.
              obind (index_at data (offset + 2)) (\<lambda>b2.
              obind (index_at data (offset + 3)) (\<lambda>b3.
              obind (index_at data (offset + 4)) (\<lambda>b4.
              obind (index_at data (offset + 5)) (\<lambda>b5.
                Ret (VTime (LocalTime
                  (time_date (2000 + uint b0) (uint b1) (uint b2) (uint b3) (uint b4) (uint b5)))))))))))"

section \<open>What every reader guarantees\<close>

text \<open>
  \<open>never_panics f\<close>: the calculator returns on every slice. \<open>reads_upto k f\<close>: on slices with at least
  \<open>k\<close> bytes the result depends on the first \<open>k\<close> bytes only, so neither on what follows in the block
  nor on the spare capacity.
\<close>

definition never_panics :: "calculator \<Rightarrow> bool" where
  "never_panics f \<longleftrightarrow> (\<forall>s. returns (f s))"

definition agree :: "nat \<Rightarrow> slice \<Rightarrow> slice \<Rightarrow> bool" where
  "agree k s s' \<longleftrightarrow>
     k \<le> sl_len s \<and> k \<le> sl_len s' \<and> take k (sl_data s) = take k (sl_data s')"

definition reads_upto :: "nat \<Rightarrow> calculator \<Rightarrow> bool" where
  "reads_upto k f \<longleftrightarrow> (\<forall>s s'. agree k s s' \<longrightarrow> f s = f s')"

lemma agree_mono: "agree n s s' \<Longrightarrow> k \<le> n \<Longrightarrow> agree k s s'"
  unfolding agree_def by (metis le_trans min.absorb1 take_take)

lemma reads_upto_mono: "reads_upto k f \<Longrightarrow> k \<le> n \<Longrightarrow> reads_upto n f"
  unfolding reads_upto_def by (blast intro: agree_mono)

lemma agree_len: "agree k s s' \<Longrightarrow> k \<le> sl_len s" "agree k s s' \<Longrightarrow> k \<le> sl_len s'"
  by (simp_all add: agree_def)

lemma agree_nth: "agree k s s' \<Longrightarrow> i < k \<Longrightarrow> sl_data s ! i = sl_data s' ! i"
  unfolding agree_def by (metis nth_take)

lemma index_at_cong: "agree k s s' \<Longrightarrow> i < k \<Longrightarrow> index_at s i = index_at s' i"
  by (auto simp: index_at_def agree_nth dest: agree_len)

lemma u16_at_cong: "agree k s s' \<Longrightarrow> off + 2 \<le> k \<Longrightarrow> u16_at s off = u16_at s' off"
  using agree_len [of k s s'] by (simp add: u16_at_Ret agree_nth)

lemma u32_at_cong: "agree k s s' \<Longrightarrow> off + 4 \<le> k \<Longrightarrow> u32_at s off = u32_at s' off"
  using agree_len [of k s s'] by (simp add: u32_at_Ret agree_nth)

lemma agree_window:
  "agree k s s' \<Longrightarrow> b \<le> k \<Longrightarrow>
   take (b - a) (drop a (sl_data s)) = take (b - a) (drop a (sl_data s'))"
  unfolding agree_def by (metis drop_take min.absorb1 take_take)

lemma u64_at_cong:
  assumes "agree k s s'" "off + 8 \<le> k"
  shows "u64_at s off = u64_at s' off"
proof -
  have len: "off + 8 \<le> sl_len s" "off + 8 \<le> sl_len s'"
    using agree_len [OF assms(1)] assms(2) by auto
  obtain t where t: "reslice s off (off + 8) = Ret t"
      "sl_data t = take (off + 8 - off) (drop off (sl_data s))"
    using reslice_data [OF le_add1 len(1)] by blast
  obtain t' where t': "reslice s' off (off + 8) = Ret t'"
      "sl_data t' = take (off + 8 - off) (drop off (sl_data s'))"
    using reslice_data [OF le_add1 len(2)] by blast
  have "sl_data t = sl_data t'"
    unfolding t(2) t'(2) using assms by (rule agree_window)
  then show ?thesis by (simp add: u64_at_def t(1) t'(1))
qed

lemma readUint32_cong:
  "agree k s s' \<Longrightarrow> 2 * i + 4 \<le> k \<Longrightarrow> readUint32 s i = readUint32 s' i"
  using agree_len [of k s s'] u32_at_cong [of k s s' "2 * i"]
  by (simp add: readUint32_def Let_def mult.commute)

lemmas reader_defs = uint16Reader_def int16Reader_def uint32Reader_def int32Reader_def
  energy4Reader_def energy2Reader_def energy8Reader_def tempReader_def cellVoltageReader_def
  decimalReader_def floatReader_def highByteReader_def lowByteReader_def enumHReader_def
  enumLReader_def enum2Reader_def enumBitmap4Reader_def enumBitmap22Reader_def
  timestampReader_def

text \<open>Within the length of the slice every access returns.\<close>

lemma returns_obind: "returns m \<Longrightarrow> (\<And>x. returns (f x)) \<Longrightarrow> returns (obind m f)"
  by (cases m) auto

lemma returns_reads:
  "i < sl_len s \<Longrightarrow> returns (index_at s i)"
  "off + 2 \<le> sl_len s \<Longrightarrow> returns (u16_at s off)"
  "off + 4 \<le> sl_len s \<Longrightarrow> returns (u32_at s off)"
  "returns (readUint32 s j)"
  by (simp_all add: index_at_def u16_at_Ret u32_at_Ret readUint32_def Let_def)

lemma reads_uptoI:
  assumes "\<And>s s'. k \<le> sl_len s \<Longrightarrow> k \<le> sl_len s' \<Longrightarrow>
      (\<And>i. i < k \<Longrightarrow> index_at s i = index_at s' i) \<Longrightarrow>
      (\<And>off. off + 2 \<le> k \<Longrightarrow> u16_at s off = u16_at s' off) \<Longrightarrow>
      (\<And>off. off + 4 \<le> k \<Longrightarrow> u32_at s off = u32_at s' off) \<Longrightarrow>
      (\<And>off. off + 8 \<le> k \<Longrightarrow> u64_at s off = u64_at s' off) \<Longrightarrow>
      (\<And>i. 2 * i + 4 \<le> k \<Longrightarrow> readUint32 s i = readUint32 s' i) \<Longrightarrow> f s = f s'"
  shows "reads_upto k f"
  unfolding reads_upto_def
proof (intro allI impI)
  fix s s' assume "agree k s s'"
  then show "f s = f s'"
    by (intro assms agree_len) (auto intro: index_at_cong u16_at_cong u32_at_cong u64_at_cong
        readUint32_cong)
qed

lemma readers_never_panic [reader_ok]:
  "never_panics (uint16Reader i c)" "never_panics (int16Reader i c)"
  "never_panics (uint32Reader i)" "never_panics (int32Reader i)"
  "never_panics (energy4Reader i)" "never_panics (energy2Reader i)"
  "never_panics (energy8Reader i)" "never_panics (tempReader i)"
  "never_panics (cellVoltageReader i)" "never_panics (decimalReader i c)"
  "never_panics (floatReader i c)" "never_panics (highByteReader i)"
  "never_panics (lowByteReader i)" "never_panics (enumHReader i t)"
  "never_panics (enumLReader i t)" "never_panics (enum2Reader i t)"
  "never_panics (enumBitmap4Reader i t)" "never_panics (enumBitmap22Reader i j t)"
  "never_panics (timestampReader i)"
  by (auto simp: never_panics_def reader_defs Let_def
      intro!: returns_obind returns_reads returns_u64_at)

lemma readers_reads_upto [reader_ok]:
  "2 * i + 2 \<le> k \<Longrightarrow> reads_upto k (uint16Reader i c)"
  "2 * i + 2 \<le> k \<Longrightarrow> reads_upto k (int16Reader i c)"
  "2 * i + 4 \<le> k \<Longrightarrow> reads_upto k (uint32Reader i)"
  "2 * i + 4 \<le> k \<Longrightarrow> reads_upto k (int32Reader i)"
  "2 * i + 4 \<le> k \<Longrightarrow> reads_upto k (energy4Reader i)"
  "2 * i + 2 \<le> k \<Longrightarrow> reads_upto k (energy2Reader i)"
  "2 * i + 8 \<le> k \<Longrightarrow> reads_upto k (energy8Reader i)"
  "2 * i + 2 \<le> k \<Longrightarrow> reads_upto k (tempReader i)"
  "2 * i + 2 \<le> k \<Longrightarrow> reads_upto k (cellVoltageReader i)"
  "2 * i + 2 \<le> k \<Longrightarrow> reads_upto k (decimalReader i c)"
  "2 * i + 4 \<le> k \<Longrightarrow> reads_upto k (floatReader i c)"
  "2 * i + 2 \<le> k \<Longrightarrow> reads_upto k (highByteReader i)"
  "2 * i + 2 \<le> k \<Longrightarrow> reads_upto k (lowByteReader i)"
  "2 * i + 2 \<le> k \<Longrightarrow> reads_upto k (enumHReader i t)"
  "2 * i + 2 \<le> k \<Longrightarrow> reads_upto k (enumLReader i t)"
  "2 * i + 2 \<le> k \<Longrightarrow> reads_upto k (enum2Reader i t)"
  "2 * i + 4 \<le> k \<Longrightarrow> reads_upto k (enumBitmap4Reader i t)"
  "2 * i + 2 \<le> k \<Longrightarrow> 2 * j + 2 \<le> k \<Longrightarrow> reads_upto k (enumBitmap22Reader i j t)"
  "2 * i + 6 \<le> k \<Longrightarrow> reads_upto k (timestampReader i)"
  by (rule reads_uptoI; simp add: reader_defs Let_def mult.commute)+

text \<open>\<open>data_only f\<close>: the result depends on the bytes of the slice alone, not on its spare capacity.\<close>

definition data_only :: "calculator \<Rightarrow> bool" where
  "data_only f \<longleftrightarrow> (\<forall>s s'. sl_data s = sl_data s' \<longrightarrow> f s = f s')"

lemma data_onlyI:
  assumes "\<And>s s'. sl_len s = sl_len s' \<Longrightarrow>
      (\<And>i. i < sl_len s' \<Longrightarrow> index_at s i = index_at s' i) \<Longrightarrow>
      (\<And>off. off + 2 \<le> sl_len s' \<Longrightarrow> u16_at s off = u16_at s' off) \<Longrightarrow>
      (\<And>off. off + 4 \<le> sl_len s' \<Longrightarrow> u32_at s off = u32_at s' off) \<Longrightarrow>
      (\<And>off. off + 8 \<le> sl_len s' \<Longrightarrow> u64_at s off = u64_at s' off) \<Longrightarrow>
      (\<And>i. readUint32 s i = readUint32 s' i) \<Longrightarrow> f s = f s'"
  shows "data_only f"
  unfolding data_only_def
proof (intro allI impI)
  fix s s' :: slice assume eq: "sl_data s = sl_data s'"
  then have ag: "agree (sl_len s') s s'" and len: "sl_len s = sl_len s'"
    by (simp_all add: agree_def sl_len_def)
  have u32: "readUint32 s i = readUint32 s' i" for i
    using u32_at_cong [OF ag] by (simp add: readUint32_def Let_def len)
  show "f s = f s'"
    by (rule assms) (use ag len u32 in \<open>auto intro: index_at_cong u16_at_cong u32_at_cong u64_at_cong\<close>)
qed

lemma readers_data_only [reader_ok]:
  "data_only (uint16Reader i c)" "data_only (int16Reader i c)"
  "data_only (uint32Reader i)" "data_only (int32Reader i)"
  "data_only (energy4Reader i)" "data_only (energy2Reader i)"
  "data_only (energy8Reader i)" "data_only (tempReader i)"
  "data_only (cellVoltageReader i)" "data_only (decimalReader i c)"
  "data_only (floatReader i c)" "data_only (highByteReader i)"
  "data_only (lowByteReader i)" "data_only (enumHReader i t)"
  "data_only (enumLReader i t)" "data_only (enum2Reader i t)"
  "data_only (enumBitmap4Reader i t)" "data_only (enumBitmap22Reader i j t)"
  "data_only (timestampReader i)"
  by (rule data_onlyI; simp add: reader_defs Let_def)+

end
