(* ===== verification/Sensor_Registry.thy ===== *)
theory Sensor_Registry
  imports Sensor_Readers "HOL-Library.List_Lexorder" "HOL-Library.Char_ord"
begin

text \<open>
  The sensor tables of \<open>et/registry.go\<close>: the four registries in source order, the calculators
  written inline in them, the register blocks, the lookup table that \<open>init\<close> builds, and the name
  listings. What is proved: the tables are consistent (unique names, disjoint blocks), every
  calculator stays inside the registers its block reads, and the calculators that index the data
  without a check.
\<close>

section \<open>Blocks and definitions\<close>

datatype blockType = BlockMain | BlockBattery | BlockMeter | BlockMPPT

text \<open>The blocks are finitely many, so that a statement about all of them can be evaluated.\<close>

instantiation blockType :: enum
begin

definition enum_blockType :: "blockType list" where
  "enum_blockType = [BlockMain, BlockBattery, BlockMeter, BlockMPPT]"

definition enum_all_blockType :: "(blockType \<Rightarrow> bool) \<Rightarrow> bool" where
  "enum_all_blockType P \<longleftrightarrow> P BlockMain \<and> P BlockBattery \<and> P BlockMeter \<and> P BlockMPPT"

definition enum_ex_blockType :: "(blockType \<Rightarrow> bool) \<Rightarrow> bool" where
  "enum_ex_blockType P \<longleftrightarrow> P BlockMain \<or> P BlockBattery \<or> P BlockMeter \<or> P BlockMPPT"

instance
proof
  have all: "b \<in> {BlockMain, BlockBattery, BlockMeter, BlockMPPT}" for b by (cases b) simp_all
  show "(UNIV :: blockType set) = set enum_class.enum" using all by (auto simp: enum_blockType_def)
  show "distinct (enum_class.enum :: blockType list)" by (simp add: enum_blockType_def)
  show "enum_class.enum_all P \<longleftrightarrow> Ball UNIV P" for P :: "blockType \<Rightarrow> bool"
    by (auto simp: enum_all_blockType_def) (metis blockType.exhaust)
  show "enum_class.enum_ex P \<longleftrightarrow> Bex UNIV P" for P :: "blockType \<Rightarrow> bool"
    by (auto simp: enum_ex_blockType_def) (metis blockType.exhaust)
qed

end

definition baseRegistersOffset :: u16 where "baseRegistersOffset = 35100"
definition baseRegistersCount :: u16 where "baseRegistersCount = 125"
definition batteryRegistersOffset :: u16 where "batteryRegistersOffset = 37000"
definition batteryRegistersCount :: u16 where "batteryRegistersCount = 24"
definition mpptRegistersOffset :: u16 where "mpptRegistersOffset = 35301"
definition mpptRegistersCount :: u16 where "mpptRegistersCount = 61"
definition meterRegistersOffset :: u16 where "meterRegistersOffset = 36000"
definition meterRegistersCount :: u16 where "meterRegistersCount = 125"
definition meterRegistersCountFallb1 :: u16 where "meterRegistersCountFallb1 = 58"
definition meterRegistersCountFallb2 :: u16 where "meterRegistersCountFallb2 = 45"

lemmas block_consts = baseRegistersOffset_def baseRegistersCount_def batteryRegistersOffset_def
  batteryRegistersCount_def mpptRegistersOffset_def mpptRegistersCount_def
  meterRegistersOffset_def meterRegistersCount_def meterRegistersCountFallb1_def
  meterRegistersCountFallb2_def

record sensorDefinition =
  sd_Name :: string
  sd_Unit :: string
  sd_Calculator :: calculator

record sensorBlock =
  sb_block :: blockType
  sb_startReg :: u16
  sb_readQty :: u16
  sb_def :: sensorDefinition

abbreviation sensor :: "string \<Rightarrow> string \<Rightarrow> calculator \<Rightarrow> sensorDefinition" where
  "sensor n u c \<equiv> \<lparr>sd_Name = n, sd_Unit = u, sd_Calculator = c\<rparr>"

section \<open>Calculators written inline\<close>

text \<open>\<open>data[80:82]\<close> is sliced without a check of the length.\<close>

definition grid_in_out_calc :: calculator where
  "grid_in_out_calc data = obind (u16_at data 80) (\<lambda>raw.
     let v = sint raw
     in if v < - 90 then Ret (VFloat (f_of_int 2))
        else if v \<ge> 90 then Ret (VFloat (f_of_int 1))
        else Ret (VFloat (f_of_int 0)))"

definition grid_in_out_label_calc :: calculator where
  "grid_in_out_label_calc data = obind (u16_at data 80) (\<lambda>raw.
     let v = sint raw;
         mode = (if v < - 90 then 2 else if v \<ge> 90 then 1 else 0)
     in case map_of gridInOutModes mode of
          None \<Rightarrow> Ret (VString '''')
        | Some s \<Rightarrow> Ret (VString s))"

text \<open>\<open>v := readUint32(data, i)\<close> with \<open>undef32\<close> replaced by 0.\<close>

definition defined_u32 :: "slice \<Rightarrow> nat \<Rightarrow> u32 outcome" where
  "defined_u32 data i = obind (readUint32 data i) (\<lambda>v. Ret (if v = undef32 then 0 else v))"

definition ppv_calc :: calculator where
  "ppv_calc data =
     obind (defined_u32 data 5) (\<lambda>v1. obind (defined_u32 data 9) (\<lambda>v2.
     obind (defined_u32 data 13) (\<lambda>v3. obind (defined_u32 data 17) (\<lambda>v4.
       Ret (VFloat (f_of_int (uint (v1 + v2 + v3 + v4))))))))"

definition house_consumption_calc :: calculator where
  "house_consumption_calc data =
     obind (defined_u32 data 5) (\<lambda>v1. obind (defined_u32 data 9) (\<lambda>v2.
     obind (defined_u32 data 13) (\<lambda>v3. obind (defined_u32 data 17) (\<lambda>v4.
     obind (readUint32 data 82) (\<lambda>w5. obind (u16_at data 80) (\<lambda>w6.
       Ret (VFloat (f_of_int
         (uint v1 + uint v2 + uint v3 + uint v4 + sint w5 - sint w6)))))))))"

section \<open>The registries\<close>

definition registry_pv_grid :: "(string \<times> sensorDefinition) list" where
  "registry_pv_grid = [
    (''vpv1'', sensor ''PV1 Voltage'' ''V'' (uint16Reader 3 (f_lit (1/10)))),
    (''ipv1'', sensor ''PV1 Current'' ''A'' (uint16Reader 4 (f_lit (1/10)))),
    (''ppv1'', sensor ''PV1 Power'' ''W'' (uint32Reader 5)),
    (''vpv2'', sensor ''PV2 Voltage'' ''V'' (uint16Reader 7 (f_lit (1/10)))),
    (''ipv2'', sensor ''PV2 Current'' ''A'' (uint16Reader 8 (f_lit (1/10)))),
    (''ppv2'', sensor ''PV2 Power'' ''W'' (uint32Reader 9)),
    (''vpv3'', sensor ''PV3 Voltage'' ''V'' (uint16Reader 11 (f_lit (1/10)))),
    (''ipv3'', sensor ''PV3 Current'' ''A'' (uint16Reader 12 (f_lit (1/10)))),
    (''ppv3'', sensor ''PV3 Power'' ''W'' (uint32Reader 13)),
    (''vpv4'', sensor ''PV4 Voltage'' ''V'' (uint16Reader 15 (f_lit (1/10)))),
    (''ipv4'', sensor ''PV4 Current'' ''A'' (uint16Reader 16 (f_lit (1/10)))),
    (''ppv4'', sensor ''PV4 Power'' ''W'' (uint32Reader 17)),
    (''pv4_mode'', sensor ''PV4 Mode Code'' '''' (highByteReader 19)),
    (''pv3_mode'', sensor ''PV3 Mode Code'' '''' (lowByteReader 19)),
    (''pv2_mode'', sensor ''PV2 Mode Code'' '''' (highByteReader 20)),
    (''pv1_mode'', sensor ''PV1 Mode Code'' '''' (lowByteReader 20)),
    (''pv4_mode_label'', sensor ''PV4 Mode'' '''' (enumHReader 19 pvModes)),
    (''pv3_mode_label'', sensor ''PV3 Mode'' '''' (enumLReader 19 pvModes)),
    (''pv2_mode_label'', sensor ''PV2 Mode'' '''' (enumHReader 20 pvModes)),
    (''pv1_mode_label'', sensor ''PV1 Mode'' '''' (enumLReader 20 pvModes)),
    (''vgrid'', sensor ''Grid L1 Voltage'' ''V'' (uint16Reader 21 (f_lit (1/10)))),
    (''igrid'', sensor ''Grid L1 Current'' ''A'' (uint16Reader 22 (f_lit (1/10)))),
    (''fgrid'', sensor ''Grid L1 Frequency'' ''Hz'' (int16Reader 23 (f_lit (1/100)))),
    (''pgrid'', sensor ''Grid L1 Power'' ''W'' (int16Reader 25 (f_lit 1))),
    (''vgrid2'', sensor ''Grid L2 Voltage'' ''V'' (uint16Reader 26 (f_lit (1/10)))),
    (''igrid2'', sensor ''Grid L2 Current'' ''A'' (uint16Reader 27 (f_lit (1/10)))),
    (''fgrid2'', sensor ''Grid L2 Frequency'' ''Hz'' (int16Reader 28 (f_lit (1/100)))),
    (''pgrid2'', sensor ''Grid L2 Power'' ''W'' (int16Reader 30 (f_lit 1))),
    (''vgrid3'', sensor ''Grid L3 Voltage'' ''V'' (uint16Reader 31 (f_lit (1/10)))),
    (''igrid3'', sensor ''Grid L3 Current'' ''A'' (uint16Reader 32 (f_lit (1/10)))),
    (''fgrid3'', sensor ''Grid L3 Frequency'' ''Hz'' (int16Reader 33 (f_lit (1/100)))),
    (''pgrid3'', sensor ''Grid L3 Power'' ''W'' (int16Reader 35 (f_lit 1))),
    (''grid_mode'', sensor ''Grid Mode Code'' '''' (uint16Reader 36 (f_lit 1))),
    (''grid_mode_label'', sensor ''Grid Mode'' '''' (enum2Reader 36 gridModes)),
    (''total_inverter_power'', sensor ''Total Inverter Power'' ''W'' (int16Reader 38 (f_lit 1))),
    (''active_power'', sensor ''Active Power'' ''W'' (int16Reader 40 (f_lit 1))),
    (''reactive_power'', sensor ''Reactive Power'' ''var'' (int16Reader 42 (f_lit 1))),
    (''apparent_power'', sensor ''Apparent Power'' ''VA'' (int16Reader 44 (f_lit 1))),
    (''grid_in_out'', sensor ''Grid In/Out Code'' '''' (grid_in_out_calc)),
    (''grid_in_out_label'', sensor ''Grid In/Out'' '''' (grid_in_out_label_calc))]"

definition registry_backup :: "(string \<times> sensorDefinition) list" where
  "registry_backup = [
    (''backup_v1'', sensor ''Backup L1 Voltage'' ''V'' (uint16Reader 45 (f_lit (1/10)))),
    (''backup_i1'', sensor ''Backup L1 Current'' ''A'' (uint16Reader 46 (f_lit (1/10)))),
    (''backup_f1'', sensor ''Backup L1 Frequency'' ''Hz'' (int16Reader 47 (f_lit (1/100)))),
    (''load_mode1'', sensor ''Load Mode L1'' '''' (uint16Reader 48 (f_lit 1))),
    (''backup_p1'', sensor ''Backup L1 Power'' ''W'' (int16Reader 50 (f_lit 1))),
    (''backup_v2'', sensor ''Backup L2 Voltage'' ''V'' (uint16Reader 51 (f_lit (1/10)))),
    (''backup_i2'', sensor ''Backup L2 Current'' ''A'' (uint16Reader 52 (f_lit (1/10)))),
    (''backup_f2'', sensor ''Backup L2 Frequency'' ''Hz'' (int16Reader 53 (f_lit (1/100)))),
    (''load_mode2'', sensor ''Load Mode L2'' '''' (uint16Reader 54 (f_lit 1))),
    (''backup_p2'', sensor ''Backup L2 Power'' ''W'' (int16Reader 56 (f_lit 1))),
    (''backup_v3'', sensor ''Backup L3 Voltage'' ''V'' (uint16Reader 57 (f_lit (1/10)))),
    (''backup_i3'', sensor ''Backup L3 Current'' ''A'' (uint16Reader 58 (f_lit (1/10)))),
    (''backup_f3'', sensor ''Backup L3 Frequency'' ''Hz'' (int16Reader 59 (f_lit (1/100)))),
    (''load_mode3'', sensor ''Load Mode L3'' '''' (uint16Reader 60 (f_lit 1))),
    (''backup_p3'', sensor ''Backup L3 Power'' ''W'' (int16Reader 62 (f_lit 1))),
    (''load_p1'', sensor ''Load L1 Power'' ''W'' (int16Reader 64 (f_lit 1))),
    (''load_p2'', sensor ''Load L2 Power'' ''W'' (int16Reader 66 (f_lit 1))),
    (''load_p3'', sensor ''Load L3 Power'' ''W'' (int16Reader 68 (f_lit 1))),
    (''backup_ptotal'', sensor ''Load PTotal'' ''W'' (int16Reader 70 (f_lit 1))),
    (''load_ptotal'', sensor ''Load PTotal Backup'' ''W'' (int16Reader 72 (f_lit 1))),
    (''ups_load'', sensor ''UPS Load'' ''W'' (uint16Reader 73 (f_lit 1))),
    (''temperature_air'', sensor ''Air Temperature'' ''C'' (int16Reader 74 (f_lit (1/10)))),
    (''temperature_module'', sensor ''Module Temperature'' ''C'' (int16Reader 75 (f_lit (1/10)))),
    (''temperature'', sensor ''Temperature'' ''C'' (int16Reader 76 (f_lit (1/10)))),
    (''function_bit'', sensor ''Function Bit'' '''' (uint16Reader 77 (f_lit 1))),
    (''bus_voltage'', sensor ''Bus Voltage'' ''V'' (uint16Reader 78 (f_lit (1/10)))),
    (''nbus_voltage'', sensor ''Negative Bus Voltage'' ''V'' (uint16Reader 79 (f_lit (1/10))))]"

definition registry_battery_energy :: "(string \<times> sensorDefinition) list" where
  "registry_battery_energy = [
    (''vbattery1'', sensor ''Battery Voltage'' ''V'' (uint16Reader 80 (f_lit (1/10)))),
    (''ibattery1'', sensor ''Battery Current'' ''A'' (int16Reader 81 (f_lit (1/10)))),
    (''pbattery1'', sensor ''Battery Power'' ''W'' (int32Reader 82)),
    (''battery_mode'', sensor ''Battery Mode Code'' '''' (uint16Reader 84 (f_lit 1))),
    (''battery_mode_label'', sensor ''Battery Mode'' '''' (enum2Reader 84 batteryModes)),
    (''warning_code'', sensor ''Warning Code'' '''' (uint16Reader 85 (f_lit 1))),
    (''safety_country'', sensor ''Safety Country Code'' '''' (uint16Reader 86 (f_lit 1))),
    (''safety_country_label'', sensor ''Safety Country'' '''' (enum2Reader 86 safetyCountries)),
    (''work_mode'', sensor ''Work Mode Code'' '''' (uint16Reader 87 (f_lit 1))),
    (''work_mode_label'', sensor ''Work Mode'' '''' (enum2Reader 87 workModesET)),
    (''operation_mode'', sensor ''Operation Mode'' '''' (uint16Reader 88 (f_lit 1))),
    (''error_codes'', sensor ''Error Codes'' '''' (uint32Reader 89)),
    (''errors'', sensor ''Errors'' '''' (enumBitmap4Reader 89 errorCodes)),
    (''e_total'', sensor ''Total Energy Produced'' ''kWh'' (energy4Reader 91)),
    (''e_day'', sensor ''Daily Energy'' ''kWh'' (energy4Reader 93)),
    (''e_total_exp'', sensor ''Total Export Energy'' ''kWh'' (energy4Reader 95)),
    (''h_total'', sensor ''Total Hours'' '''' (uint32Reader 97)),
    (''e_day_exp'', sensor ''Daily Export Energy'' ''kWh'' (energy2Reader 99)),
    (''e_total_imp'', sensor ''Total Import Energy'' ''kWh'' (energy4Reader 100)),
    (''e_day_imp'', sensor ''Daily Import Energy'' ''kWh'' (energy2Reader 102)),
    (''e_load_total'', sensor ''Total Load Energy'' ''kWh'' (energy4Reader 103)),
    (''e_load_day'', sensor ''Daily Load Energy'' ''kWh'' (energy2Reader 105)),
    (''e_bat_charge_total'', sensor ''Total Battery Charge Energy'' ''kWh'' (energy4Reader 106)),
    (''e_bat_charge_day'', sensor ''Daily Battery Charge Energy'' ''kWh'' (energy2Reader 108)),
    (''e_bat_discharge_total'', sensor ''Total Battery Discharge Energy'' ''kWh'' (energy4Reader 109)),
    (''e_bat_discharge_day'', sensor ''Daily Battery Discharge Energy'' ''kWh'' (energy2Reader 111)),
    (''diagnose_result'', sensor ''Diagnose Result'' '''' (uint32Reader 120)),
    (''diagnose_result_label'', sensor ''Diagnose Result'' '''' (enumBitmap4Reader 120 diagStatusCodes))]"

definition registry_calculated :: "(string \<times> sensorDefinition) list" where
  "registry_calculated = [
    (''ppv'', sensor ''Total PV Power'' ''W'' (ppv_calc)),
    (''house_consumption'', sensor ''House Consumption'' ''W'' (house_consumption_calc)),
    (''timestamp'', sensor ''Timestamp'' '''' (timestampReader 0))]"

definition registry :: "(string \<times> sensorDefinition) list" where
  "registry = registry_pv_grid @ registry_backup @ registry_battery_energy @ registry_calculated"

definition batteryRegistry :: "(string \<times> sensorDefinition) list" where
  "batteryRegistry = [
    (''battery_bms'', sensor ''Battery BMS'' '''' (uint16Reader 0 (f_lit 1))),
    (''battery_index'', sensor ''Battery Index'' '''' (uint16Reader 1 (f_lit 1))),
    (''battery_status'', sensor ''Battery Status'' '''' (uint16Reader 2 (f_lit 1))),
    (''battery_temperature'', sensor ''Battery Temperature'' ''C'' (tempReader 3)),
    (''battery_charge_limit'', sensor ''Battery Charge Limit'' ''A'' (uint16Reader 4 (f_lit 1))),
    (''battery_discharge_limit'', sensor ''Battery Discharge Limit'' ''A'' (uint16Reader 5 (f_lit 1))),
    (''battery_error_l'', sensor ''Battery Error Low'' '''' (uint16Reader 6 (f_lit 1))),
    (''battery_soc'', sensor ''Battery State of Charge'' ''%'' (uint16Reader 7 (f_lit 1))),
    (''battery_soh'', sensor ''Battery State of Health'' ''%'' (uint16Reader 8 (f_lit 1))),
    (''battery_modules'', sensor ''Battery Modules'' '''' (uint16Reader 9 (f_lit 1))),
    (''battery_warning_l'', sensor ''Battery Warning Low'' '''' (uint16Reader 10 (f_lit 1))),
    (''battery_protocol'', sensor ''Battery Protocol'' '''' (uint16Reader 11 (f_lit 1))),
    (''battery_error_h'', sensor ''Battery Error High'' '''' (uint16Reader 12 (f_lit 1))),
    (''battery_error'', sensor ''Battery Error'' '''' (enumBitmap22Reader 12 6 bmsAlarmCodes)),
    (''battery_warning_h'', sensor ''Battery Warning High'' '''' (uint16Reader 13 (f_lit 1))),
    (''battery_warning'', sensor ''Battery Warning'' '''' (enumBitmap22Reader 13 10 bmsWarningCodes)),
    (''battery_sw_version'', sensor ''Battery Software Version'' '''' (uint16Reader 14 (f_lit 1))),
    (''battery_hw_version'', sensor ''Battery Hardware Version'' '''' (uint16Reader 15 (f_lit 1))),
    (''battery_max_cell_temp_id'', sensor ''Battery Max Cell Temperature ID'' '''' (uint16Reader 16 (f_lit 1))),
    (''battery_min_cell_temp_id'', sensor ''Battery Min Cell Temperature ID'' '''' (uint16Reader 17 (f_lit 1))),
    (''battery_max_cell_voltage_id'', sensor ''Battery Max Cell Voltage ID'' '''' (uint16Reader 18 (f_lit 1))),
    (''battery_min_cell_voltage_id'', sensor ''Battery Min Cell Voltage ID'' '''' (uint16Reader 19 (f_lit 1))),
    (''battery_max_cell_temp'', sensor ''Battery Max Cell Temperature'' ''C'' (tempReader 20)),
    (''battery_min_cell_temp'', sensor ''Battery Min Cell Temperature'' ''C'' (tempReader 21)),
    (''battery_max_cell_voltage'', sensor ''Battery Max Cell Voltage'' ''V'' (cellVoltageReader 22)),
    (''battery_min_cell_voltage'', sensor ''Battery Min Cell Voltage'' ''V'' (cellVoltageReader 23))]"

definition meterRegistry :: "(string \<times> sensorDefinition) list" where
  "meterRegistry = [
    (''commode'', sensor ''Commode'' '''' (uint16Reader 0 (f_lit 1))),
    (''rssi'', sensor ''RSSI'' '''' (uint16Reader 1 (f_lit 1))),
    (''manufacture_code'', sensor ''Manufacture Code'' '''' (uint16Reader 2 (f_lit 1))),
    (''meter_test_status'', sensor ''Meter Test Status'' '''' (uint16Reader 3 (f_lit 1))),
    (''meter_comm_status'', sensor ''Meter Communication Status'' '''' (uint16Reader 4 (f_lit 1))),
    (''active_power1'', sensor ''Active Power L1'' ''W'' (int16Reader 5 (f_lit 1))),
    (''active_power2'', sensor ''Active Power L2'' ''W'' (int16Reader 6 (f_lit 1))),
    (''active_power3'', sensor ''Active Power L3'' ''W'' (int16Reader 7 (f_lit 1))),
    (''active_power_total'', sensor ''Active Power Total'' ''W'' (int16Reader 8 (f_lit 1))),
    (''reactive_power_total'', sensor ''Reactive Power Total'' ''var'' (int16Reader 9 (f_lit 1))),
    (''meter_power_factor1'', sensor ''Meter Power Factor L1'' '''' (decimalReader 10 (f_lit 1000))),
    (''meter_power_factor2'', sensor ''Meter Power Factor L2'' '''' (decimalReader 11 (f_lit 1000))),
    (''meter_power_factor3'', sensor ''Meter Power Factor L3'' '''' (decimalReader 12 (f_lit 1000))),
    (''meter_power_factor'', sensor ''Meter Power Factor'' '''' (decimalReader 13 (f_lit 1000))),
    (''meter_freq'', sensor ''Meter Frequency'' ''Hz'' (int16Reader 14 (f_lit (1/100)))),
    (''meter_e_total_exp'', sensor ''Meter Total Energy (export)'' ''kWh'' (floatReader 15 (f_lit 1000))),
    (''meter_e_total_imp'', sensor ''Meter Total Energy (import)'' ''kWh'' (floatReader 17 (f_lit 1000))),
    (''meter_active_power1'', sensor ''Meter Active Power L1'' ''W'' (int32Reader 19)),
    (''meter_active_power2'', sensor ''Meter Active Power L2'' ''W'' (int32Reader 21)),
    (''meter_active_power3'', sensor ''Meter Active Power L3'' ''W'' (int32Reader 23)),
    (''meter_active_power_total'', sensor ''Meter Active Power Total'' ''W'' (int32Reader 25)),
    (''meter_reactive_power1'', sensor ''Meter Reactive Power L1'' ''var'' (int32Reader 27)),
    (''meter_reactive_power2'', sensor ''Meter Reactive Power L2'' ''var'' (int32Reader 29)),
    (''meter_reactive_power3'', sensor ''Meter Reactive Power L3'' ''var'' (int32Reader 31)),
    (''meter_reactive_power_total'', sensor ''Meter Reactive Power Total'' ''var'' (int32Reader 33)),
    (''meter_apparent_power1'', sensor ''Meter Apparent Power L1'' ''VA'' (int32Reader 35)),
    (''meter_apparent_power2'', sensor ''Meter Apparent Power L2'' ''VA'' (int32Reader 37)),
    (''meter_apparent_power3'', sensor ''Meter Apparent Power L3'' ''VA'' (int32Reader 39)),
    (''meter_apparent_power_total'', sensor ''Meter Apparent Power Total'' ''VA'' (int32Reader 41)),
    (''meter_type'', sensor ''Meter Type'' '''' (uint16Reader 43 (f_lit 1))),
    (''meter_sw_version'', sensor ''Meter Software Version'' '''' (uint16Reader 44 (f_lit 1))),
    (''meter2_active_power'', sensor ''Meter 2 Active Power'' ''W'' (int32Reader 45)),
    (''meter2_e_total_exp'', sensor ''Meter 2 Total Energy (export)'' ''kWh'' (floatReader 47 (f_lit 1000))),
    (''meter2_e_total_imp'', sensor ''Meter 2 Total Energy (import)'' ''kWh'' (floatReader 49 (f_lit 1000))),
    (''meter2_comm_status'', sensor ''Meter 2 Communication Status'' '''' (uint16Reader 51 (f_lit 1))),
    (''meter_voltage1'', sensor ''Meter L1 Voltage'' ''V'' (uint16Reader 52 (f_lit (1/10)))),
    (''meter_voltage2'', sensor ''Meter L2 Voltage'' ''V'' (uint16Reader 53 (f_lit (1/10)))),
    (''meter_voltage3'', sensor ''Meter L3 Voltage'' ''V'' (uint16Reader 54 (f_lit (1/10)))),
    (''meter_current1'', sensor ''Meter L1 Current'' ''A'' (uint16Reader 55 (f_lit (1/10)))),
    (''meter_current2'', sensor ''Meter L2 Current'' ''A'' (uint16Reader 56 (f_lit (1/10)))),
    (''meter_current3'', sensor ''Meter L3 Current'' ''A'' (uint16Reader 57 (f_lit (1/10)))),
    (''meter_e_total_exp1'', sensor ''Meter Total Energy (export) L1'' ''kWh'' (energy8Reader 92)),
    (''meter_e_total_exp2'', sensor ''Meter Total Energy (export) L2'' ''kWh'' (energy8Reader 96)),
    (''meter_e_total_exp3'', sensor ''Meter Total Energy (export) L3'' ''kWh'' (energy8Reader 100)),
    (''meter_e_total_exp_8'', sensor ''Meter Total Energy (export)'' ''kWh'' (energy8Reader 104)),
    (''meter_e_total_imp1'', sensor ''Meter Total Energy (import) L1'' ''kWh'' (energy8Reader 108)),
    (''meter_e_total_imp2'', sensor ''Meter Total Energy (import) L2'' ''kWh'' (energy8Reader 112)),
    (''meter_e_total_imp3'', sensor ''Meter Total Energy (import) L3'' ''kWh'' (energy8Reader 116)),
    (''meter_e_total_imp_8'', sensor ''Meter Total Energy (import)'' ''kWh'' (energy8Reader 120))]"

definition mpptRegistry :: "(string \<times> sensorDefinition) list" where
  "mpptRegistry = [
    (''ppv_total'', sensor ''PV Power Total'' ''W'' (uint32Reader 0)),
    (''pv_channel'', sensor ''PV Channel'' '''' (uint16Reader 2 (f_lit 1))),
    (''vpv5'', sensor ''PV5 Voltage'' ''V'' (uint16Reader 3 (f_lit (1/10)))),
    (''ipv5'', sensor ''PV5 Current'' ''A'' (uint16Reader 4 (f_lit (1/10)))),
    (''vpv6'', sensor ''PV6 Voltage'' ''V'' (uint16Reader 5 (f_lit (1/10)))),
    (''ipv6'', sensor ''PV6 Current'' ''A'' (uint16Reader 6 (f_lit (1/10)))),
    (''vpv7'', sensor ''PV7 Voltage'' ''V'' (uint16Reader 7 (f_lit (1/10)))),
    (''ipv7'', sensor ''PV7 Current'' ''A'' (uint16Reader 8 (f_lit (1/10)))),
    (''vpv8'', sensor ''PV8 Voltage'' ''V'' (uint16Reader 9 (f_lit (1/10)))),
    (''ipv8'', sensor ''PV8 Current'' ''A'' (uint16Reader 10 (f_lit (1/10)))),
    (''vpv9'', sensor ''PV9 Voltage'' ''V'' (uint16Reader 11 (f_lit (1/10)))),
    (''ipv9'', sensor ''PV9 Current'' ''A'' (uint16Reader 12 (f_lit (1/10)))),
    (''vpv10'', sensor ''PV10 Voltage'' ''V'' (uint16Reader 13 (f_lit (1/10)))),
    (''ipv10'', sensor ''PV10 Current'' ''A'' (uint16Reader 14 (f_lit (1/10)))),
    (''vpv11'', sensor ''PV11 Voltage'' ''V'' (uint16Reader 15 (f_lit (1/10)))),
    (''ipv11'', sensor ''PV11 Current'' ''A'' (uint16Reader 16 (f_lit (1/10)))),
    (''vpv12'', sensor ''PV12 Voltage'' ''V'' (uint16Reader 17 (f_lit (1/10)))),
    (''ipv12'', sensor ''PV12 Current'' ''A'' (uint16Reader 18 (f_lit (1/10)))),
    (''vpv13'', sensor ''PV13 Voltage'' ''V'' (uint16Reader 19 (f_lit (1/10)))),
    (''ipv13'', sensor ''PV13 Current'' ''A'' (uint16Reader 20 (f_lit (1/10)))),
    (''vpv14'', sensor ''PV14 Voltage'' ''V'' (uint16Reader 21 (f_lit (1/10)))),
    (''ipv14'', sensor ''PV14 Current'' ''A'' (uint16Reader 22 (f_lit (1/10)))),
    (''vpv15'', sensor ''PV15 Voltage'' ''V'' (uint16Reader 23 (f_lit (1/10)))),
    (''ipv15'', sensor ''PV15 Current'' ''A'' (uint16Reader 24 (f_lit (1/10)))),
    (''vpv16'', sensor ''PV16 Voltage'' ''V'' (uint16Reader 25 (f_lit (1/10)))),
    (''ipv16'', sensor ''PV16 Current'' ''A'' (uint16Reader 26 (f_lit (1/10))))]"

section \<open>The lookup table\<close>

text \<open>One \<open>for name, def := range \<dots>\<close> loop of \<open>init\<close>. The keys of a registry are distinct, so the
  iteration order of the Go map does not matter.\<close>

definition add_block ::
    "blockType \<Rightarrow> u16 \<Rightarrow> u16 \<Rightarrow> (string \<times> sensorDefinition) list
     \<Rightarrow> (string \<rightharpoonup> sensorBlock) \<Rightarrow> (string \<rightharpoonup> sensorBlock)" where
  "add_block b start qty reg m =
     foldl (\<lambda>m (name, def). m(name \<mapsto>
              \<lparr>sb_block = b, sb_startReg = start, sb_readQty = qty, sb_def = def\<rparr>)) m reg"

definition sensorLookup :: "string \<rightharpoonup> sensorBlock" where
  "sensorLookup =
     add_block BlockMPPT mpptRegistersOffset mpptRegistersCount mpptRegistry
    (add_block BlockMeter meterRegistersOffset meterRegistersCount meterRegistry
    (add_block BlockBattery batteryRegistersOffset batteryRegistersCount batteryRegistry
    (add_block BlockMain baseRegistersOffset baseRegistersCount registry Map.empty)))"

fun blockType_String :: "blockType \<Rightarrow> string" where
  "blockType_String BlockMain = ''Main Telemetry''"
| "blockType_String BlockBattery = ''Battery''"
| "blockType_String BlockMeter = ''Meter''"
| "blockType_String BlockMPPT = ''MPPT''"

section \<open>Name listings\<close>

text \<open>
  \<open>GetSensorNames\<close>: the iteration order of each registry is Go's choice, so it is a parameter; the
  \<open>seen\<close> map drops repeated names; \<open>sort.Strings\<close> sorts by bytes.
\<close>

fun collect_names :: "string list \<Rightarrow> (string \<Rightarrow> bool) \<times> string list \<Rightarrow> (string \<Rightarrow> bool) \<times> string list" where
  "collect_names [] (seen, names) = (seen, names)"
| "collect_names (n # ns) (seen, names) =
     (if \<not> seen n then collect_names ns (seen(n := True), names @ [n])
      else collect_names ns (seen, names))"

definition GetSensorNames :: "string list list \<Rightarrow> string list" where
  "GetSensorNames orders =
     sort (snd (foldl (\<lambda>st reg. collect_names reg st) (\<lambda>_. False, []) orders))"

text \<open>\<open>GetSensorNamesByBlock\<close>: one pass over \<open>sensorLookup\<close> in some order, then a sort per group.\<close>

fun group_names :: "string list \<Rightarrow> (string \<rightharpoonup> string list) \<Rightarrow> (string \<rightharpoonup> string list)" where
  "group_names [] groups = groups"
| "group_names (n # ns) groups =
     (case sensorLookup n of
        None \<Rightarrow> group_names ns groups
      | Some sb \<Rightarrow>
          let label = blockType_String (sb_block sb);
              old = (case groups label of None \<Rightarrow> [] | Some l \<Rightarrow> l)
          in group_names ns (groups(label \<mapsto> old @ [n])))"

definition GetSensorNamesByBlock :: "string list \<Rightarrow> (string \<rightharpoonup> string list)" where
  "GetSensorNamesByBlock order = (\<lambda>label. map_option sort (group_names order Map.empty label))"

section \<open>Consistency of the tables\<close>

lemmas section_defs = registry_pv_grid_def registry_backup_def registry_battery_energy_def
  registry_calculated_def batteryRegistry_def meterRegistry_def mpptRegistry_def

lemmas registry_defs = registry_def section_defs

text \<open>A comparison of strings that stops at the first difference, for the evaluation below.\<close>

fun str_differ :: "string \<Rightarrow> string \<Rightarrow> bool" where
  "str_differ (c # cs) (d # ds) = (if c = d then str_differ cs ds else True)"
| "str_differ [] [] = False"
| "str_differ _ _ = True"

lemma str_differ: "str_differ s t \<longleftrightarrow> s \<noteq> t"
  by (induction s t rule: str_differ.induct) auto

fun no_common :: "string list \<Rightarrow> string list \<Rightarrow> bool" where
  "no_common [] ys = True"
| "no_common (x # xs) ys = (if list_all (str_differ x) ys then no_common xs ys else False)"

lemma no_common: "no_common xs ys \<longleftrightarrow> set xs \<inter> set ys = {}"
  by (induction xs) (auto simp: list_all_iff str_differ)

lemma keys_distinct_registry_pv_grid: "distinct (map fst registry_pv_grid)"
  unfolding registry_pv_grid_def list.map fst_conv by code_simp

lemma keys_distinct_registry_backup: "distinct (map fst registry_backup)"
  unfolding registry_backup_def list.map fst_conv by code_simp

lemma keys_distinct_registry_battery_energy: "distinct (map fst registry_battery_energy)"
  unfolding registry_battery_energy_def list.map fst_conv by code_simp

lemma keys_distinct_registry_calculated: "distinct (map fst registry_calculated)"
  unfolding registry_calculated_def list.map fst_conv by code_simp

lemma keys_distinct_batteryRegistry: "distinct (map fst batteryRegistry)"
  unfolding batteryRegistry_def list.map fst_conv by code_simp

lemma keys_distinct_meterRegistry: "distinct (map fst meterRegistry)"
  unfolding meterRegistry_def list.map fst_conv by code_simp

lemma keys_distinct_mpptRegistry: "distinct (map fst mpptRegistry)"
  unfolding mpptRegistry_def list.map fst_conv by code_simp

lemma keys_apart_registry_pv_grid:
  "no_common (map fst registry_pv_grid) (map fst registry_backup)"
  "no_common (map fst registry_pv_grid) (map fst registry_battery_energy)"
  "no_common (map fst registry_pv_grid) (map fst registry_calculated)"
  "no_common (map fst registry_pv_grid) (map fst batteryRegistry)"
  "no_common (map fst registry_pv_grid) (map fst meterRegistry)"
  "no_common (map fst registry_pv_grid) (map fst mpptRegistry)"
  unfolding section_defs list.map fst_conv by code_simp+

lemma keys_apart_registry_backup:
  "no_common (map fst registry_backup) (map fst registry_battery_energy)"
  "no_common (map fst registry_backup) (map fst registry_calculated)"
  "no_common (map fst registry_backup) (map fst batteryRegistry)"
  "no_common (map fst registry_backup) (map fst meterRegistry)"
  "no_common (map fst registry_backup) (map fst mpptRegistry)"
  unfolding section_defs list.map fst_conv by code_simp+

lemma keys_apart_registry_battery_energy:
  "no_common (map fst registry_battery_energy) (map fst registry_calculated)"
  "no_common (map fst registry_battery_energy) (map fst batteryRegistry)"
  "no_common (map fst registry_battery_energy) (map fst meterRegistry)"
  "no_common (map fst registry_battery_energy) (map fst mpptRegistry)"
  unfolding section_defs list.map fst_conv by code_simp+

lemma keys_apart_registry_calculated:
  "no_common (map fst registry_calculated) (map fst batteryRegistry)"
  "no_common (map fst registry_calculated) (map fst meterRegistry)"
  "no_common (map fst registry_calculated) (map fst mpptRegistry)"
  unfolding section_defs list.map fst_conv by code_simp+

lemma keys_apart_batteryRegistry:
  "no_common (map fst batteryRegistry) (map fst meterRegistry)"
  "no_common (map fst batteryRegistry) (map fst mpptRegistry)"
  unfolding section_defs list.map fst_conv by code_simp+

lemma keys_apart_meterRegistry:
  "no_common (map fst meterRegistry) (map fst mpptRegistry)"
  unfolding section_defs list.map fst_conv by code_simp+

lemma registry_keys_distinct: "distinct (map fst registry)"
  using keys_distinct_registry_pv_grid keys_distinct_registry_backup
    keys_distinct_registry_battery_energy keys_distinct_registry_calculated
    keys_apart_registry_pv_grid(1,2,3) keys_apart_registry_backup(1,2)
    keys_apart_registry_battery_energy(1)
  unfolding no_common registry_def map_append set_append distinct_append Int_Un_distrib
  by simp

lemma blocks_apart:
  "set (map fst registry) \<inter> set (map fst batteryRegistry) = {}"
  "set (map fst registry) \<inter> set (map fst meterRegistry) = {}"
  "set (map fst registry) \<inter> set (map fst mpptRegistry) = {}"
  "set (map fst batteryRegistry) \<inter> set (map fst meterRegistry) = {}"
  "set (map fst batteryRegistry) \<inter> set (map fst mpptRegistry) = {}"
  "set (map fst meterRegistry) \<inter> set (map fst mpptRegistry) = {}"
  using keys_apart_registry_pv_grid keys_apart_registry_backup
    keys_apart_registry_battery_energy keys_apart_registry_calculated
    keys_apart_batteryRegistry keys_apart_meterRegistry
  unfolding no_common registry_def map_append set_append Int_Un_distrib2
  by simp_all

end
