(* ===== verification/Sensor_Correct.thy ===== *)
theory Sensor_Correct
  imports Sensor_Registry "HOL-Library.Multiset"
begin

text \<open>
  What the sensor layer guarantees: the lookup table and the name listings are functions of the
  tables alone (Go's map iteration order does not show), every calculator stays inside the block
  its sensor is read from, the calculators that slice without a check, and the decoding of bitmaps,
  of the grid direction and of the meter voltages.
\<close>

section \<open>The blocks\<close>

fun block_start :: "blockType \<Rightarrow> u16" where
  "block_start BlockMain = baseRegistersOffset"
| "block_start BlockBattery = batteryRegistersOffset"
| "block_start BlockMeter = meterRegistersOffset"
| "block_start BlockMPPT = mpptRegistersOffset"

fun block_count :: "blockType \<Rightarrow> u16" where
  "block_count BlockMain = baseRegistersCount"
| "block_count BlockBattery = batteryRegistersCount"
| "block_count BlockMeter = meterRegistersCount"
| "block_count BlockMPPT = mpptRegistersCount"

fun block_sensors :: "blockType \<Rightarrow> (string \<times> sensorDefinition) list" where
  "block_sensors BlockMain = registry"
| "block_sensors BlockBattery = batteryRegistry"
| "block_sensors BlockMeter = meterRegistry"
| "block_sensors BlockMPPT = mpptRegistry"

definition block_entry :: "blockType \<Rightarrow> sensorDefinition \<Rightarrow> sensorBlock" where
  "block_entry b d =
     \<lparr>sb_block = b, sb_startReg = block_start b, sb_readQty = block_count b, sb_def = d\<rparr>"

lemma block_sensors_distinct: "distinct (map fst (block_sensors b))"
  by (cases b) (simp_all add: registry_keys_distinct keys_distinct_batteryRegistry
      keys_distinct_meterRegistry keys_distinct_mpptRegistry)

lemma block_names_disjoint:
  "b \<noteq> b' \<Longrightarrow>
   set (map fst (block_sensors b)) \<inter> set (map fst (block_sensors b')) = {}"
  using blocks_apart
  by (cases b; cases b'; simp only: block_sensors.simps Int_commute simp_thms)

lemma block_sensors_apart:
  assumes "(n, d) \<in> set (block_sensors b)" "(n, d') \<in> set (block_sensors b')"
  shows "b = b'"
proof (rule ccontr)
  have "n \<in> set (map fst (block_sensors b)) \<inter> set (map fst (block_sensors b'))"
    using assms by force
  moreover assume "b \<noteq> b'"
  ultimately show False using block_names_disjoint by blast
qed

lemma add_block_lookup:
  "distinct (map fst reg) \<Longrightarrow>
   add_block b st q reg m n =
     (case map_of reg n of
        Some d \<Rightarrow> Some \<lparr>sb_block = b, sb_startReg = st, sb_readQty = q, sb_def = d\<rparr>
      | None \<Rightarrow> m n)"
proof (induction reg arbitrary: m)
  case Nil
  then show ?case by (simp add: add_block_def)
next
  case (Cons e reg)
  obtain k d where e: "e = (k, d)" by (cases e)
  from Cons.prems have "map_of reg k = None"
    by (simp add: e map_of_eq_None_iff)
  with Cons show ?case
    by (auto simp: add_block_def e split: option.splits)
qed

lemma sensorLookup_cases:
  "sensorLookup n =
     (case map_of mpptRegistry n of Some d \<Rightarrow> Some (block_entry BlockMPPT d) | None \<Rightarrow>
      case map_of meterRegistry n of Some d \<Rightarrow> Some (block_entry BlockMeter d) | None \<Rightarrow>
      case map_of batteryRegistry n of Some d \<Rightarrow> Some (block_entry BlockBattery d) | None \<Rightarrow>
      map_option (block_entry BlockMain) (map_of registry n))"
  unfolding sensorLookup_def
  by (simp add: add_block_lookup registry_keys_distinct keys_distinct_batteryRegistry
      keys_distinct_meterRegistry keys_distinct_mpptRegistry block_entry_def
      split: option.splits)

lemma map_of_block:
  "map_of (block_sensors b) n = Some d \<longleftrightarrow> (n, d) \<in> set (block_sensors b)"
  by (rule map_of_eq_Some_iff [OF block_sensors_distinct])

lemma map_of_other_block:
  "(n, d) \<in> set (block_sensors b) \<Longrightarrow> b \<noteq> b' \<Longrightarrow> map_of (block_sensors b') n = None"
  by (metis block_sensors_apart map_of_block not_Some_eq)

lemma sensorLookup_entry:
  assumes "(n, d) \<in> set (block_sensors b)"
  shows "sensorLookup n = Some (block_entry b d)"
proof -
  have here: "map_of (block_sensors b) n = Some d"
    using assms by (simp add: map_of_block)
  have other: "b \<noteq> b' \<Longrightarrow> map_of (block_sensors b') n = None" for b'
    using assms by (rule map_of_other_block)
  show ?thesis
    using here other [of BlockMain] other [of BlockBattery] other [of BlockMeter]
      other [of BlockMPPT]
    by (cases b) (simp_all add: sensorLookup_cases)
qed

lemma sensorLookup_block:
  assumes "sensorLookup n = Some sb"
  shows "\<exists>b d. (n, d) \<in> set (block_sensors b) \<and> sb = block_entry b d"
  using assms unfolding sensorLookup_cases
  by (auto split: option.splits dest!: map_of_SomeD)
    (metis block_sensors.simps)+

text \<open>
  The lookup table that \<open>init\<close> builds finds a sensor exactly when one of the four registries
  lists it, with the definition listed there and with the first register and the register count of
  the block that registry belongs to. No registry overwrites an entry of another, whatever order
  the maps are iterated in.
\<close>

theorem sensorLookup_iff:
  "sensorLookup n = Some sb \<longleftrightarrow>
   (\<exists>b d. (n, d) \<in> set (block_sensors b) \<and> sb = block_entry b d)"
  by (metis sensorLookup_block sensorLookup_entry)

section \<open>Calculators and their blocks\<close>

lemma u16_at_80: "82 \<le> sl_cap s \<Longrightarrow> \<exists>w. u16_at s 80 = Ret w"
  using returns_u16_at [of s 80] by (simp add: returns_iff)

lemma u16_at_80_Panic: "\<not> 82 \<le> sl_cap s \<Longrightarrow> u16_at s 80 = Panic"
  using returns_u16_at [of s 80] by (cases "u16_at s 80") auto

lemma returns_defined_u32: "returns (defined_u32 s i)"
  by (simp add: defined_u32_def returns_obind returns_reads)

lemma returns_inline:
  "returns (grid_in_out_calc s) \<longleftrightarrow> 82 \<le> sl_cap s"
  "returns (grid_in_out_label_calc s) \<longleftrightarrow> 82 \<le> sl_cap s"
  "82 \<le> sl_cap s \<Longrightarrow> returns (house_consumption_calc s)"
  "never_panics ppv_calc"
proof -
  show "returns (grid_in_out_calc s) \<longleftrightarrow> 82 \<le> sl_cap s"
    using u16_at_80 [of s] u16_at_80_Panic [of s]
    by (cases "82 \<le> sl_cap s") (auto simp: grid_in_out_calc_def Let_def)
  show "returns (grid_in_out_label_calc s) \<longleftrightarrow> 82 \<le> sl_cap s"
    using u16_at_80 [of s] u16_at_80_Panic [of s]
    by (cases "82 \<le> sl_cap s") (auto simp: grid_in_out_label_calc_def Let_def split: option.splits)
  show "82 \<le> sl_cap s \<Longrightarrow> returns (house_consumption_calc s)"
    unfolding house_consumption_calc_def
    by (intro returns_obind returns_defined_u32 returns_reads(4)) (simp_all add: returns_u16_at)
  show "never_panics ppv_calc"
    unfolding never_panics_def ppv_calc_def
    by (intro allI returns_obind returns_defined_u32) simp
qed

definition all_return :: "(string \<times> sensorDefinition) list \<Rightarrow> slice \<Rightarrow> bool" where
  "all_return reg s = list_all (\<lambda>(n, d). returns (sd_Calculator d s)) reg"

lemma all_return_mem: "all_return reg s \<Longrightarrow> (n, d) \<in> set reg \<Longrightarrow> returns (sd_Calculator d s)"
  by (auto simp: all_return_def list_all_iff)

lemma never_panics_returns: "never_panics f \<Longrightarrow> returns (f s)"
  by (simp add: never_panics_def)

lemma all_return_sections:
  "all_return registry_backup s" "all_return registry_battery_energy s"
  "82 \<le> sl_cap s \<Longrightarrow> all_return registry_pv_grid s"
  "82 \<le> sl_cap s \<Longrightarrow> all_return registry_calculated s"
  by (simp_all add: all_return_def section_defs never_panics_returns reader_ok returns_inline)

lemma grid_in_out_listed:
  "(''grid_in_out'', sensor ''Grid In/Out Code'' '''' grid_in_out_calc) \<in> set registry"
  by (simp add: registry_def registry_pv_grid_def)

lemma main_returns: "82 \<le> sl_cap s \<Longrightarrow> all_return registry s"
  using all_return_sections [of s] by (simp add: registry_def all_return_def)

lemma other_blocks_return:
  "all_return batteryRegistry s" "all_return meterRegistry s" "all_return mpptRegistry s"
  by (simp_all add: all_return_def section_defs never_panics_returns reader_ok)

lemma block_returns: "82 \<le> sl_cap s \<Longrightarrow> all_return (block_sensors b) s"
  by (cases b) (simp_all add: main_returns other_blocks_return)

text \<open>
  Decoding the main block never panics exactly when the slice holds at least 82 bytes of
  capacity: the calculators of the grid direction and of the house consumption slice bytes 80 and
  81 without looking at the length. Every calculator of the other three blocks returns on every
  slice, however short.
\<close>

theorem calculators_return:
  "(all_return (block_sensors BlockMain) s \<longleftrightarrow> 82 \<le> sl_cap s) \<and>
   all_return (block_sensors BlockBattery) s \<and> all_return (block_sensors BlockMeter) s \<and>
   all_return (block_sensors BlockMPPT) s"
proof (intro conjI)
  have "all_return registry s \<Longrightarrow> 82 \<le> sl_cap s"
    using all_return_mem [OF _ grid_in_out_listed, of s] by (simp add: returns_inline)
  then show "all_return (block_sensors BlockMain) s \<longleftrightarrow> 82 \<le> sl_cap s"
    using main_returns by auto
qed (simp_all add: other_blocks_return)

lemma reads_upto_inline:
  "82 \<le> k \<Longrightarrow> reads_upto k grid_in_out_calc"
  "82 \<le> k \<Longrightarrow> reads_upto k grid_in_out_label_calc"
  "38 \<le> k \<Longrightarrow> reads_upto k ppv_calc"
  "168 \<le> k \<Longrightarrow> reads_upto k house_consumption_calc"
  by (rule reads_uptoI; simp add: grid_in_out_calc_def grid_in_out_label_calc_def ppv_calc_def
      house_consumption_calc_def defined_u32_def)+

definition all_fit :: "(string \<times> sensorDefinition) list \<Rightarrow> nat \<Rightarrow> bool" where
  "all_fit reg k = list_all (\<lambda>(n, d). reads_upto k (sd_Calculator d)) reg"

lemma all_fit_sections:
  "all_fit registry_pv_grid 250" "all_fit registry_backup 250"
  "all_fit registry_battery_energy 250" "all_fit registry_calculated 250"
  "all_fit batteryRegistry 48" "all_fit meterRegistry 250" "all_fit mpptRegistry 122"
  by (simp_all add: all_fit_def section_defs reader_ok reads_upto_inline)

lemma block_fits: "all_fit (block_sensors b) (2 * unat (block_count b))"
  by (cases b) (use all_fit_sections in \<open>auto simp: block_consts registry_def all_fit_def\<close>)

text \<open>The meter block may be read shorter than its tables; its calculators look at the data only.\<close>

definition all_data_only :: "(string \<times> sensorDefinition) list \<Rightarrow> bool" where
  "all_data_only reg = list_all (\<lambda>(n, d). data_only (sd_Calculator d)) reg"

lemma meter_data_only: "all_data_only meterRegistry"
  by (simp add: all_data_only_def section_defs reader_ok)

text \<open>
  C11: The value of a sensor depends only on the registers its block reads: on any two payloads of
  at least the block's size that agree on those registers, whatever follows them in the buffer,
  every calculator of the block gives the same result. So no register index, offset or width of the
  172 table entries points outside its block.
\<close>

theorem calculators_fit_block:
  "all_fit (block_sensors b) (2 * unat (block_count b))"
  by (rule block_fits)

section \<open>Name listings\<close>

lemma collect_names_spec:
  assumes "distinct names"
  shows "\<exists>N. collect_names ns (\<lambda>n. n \<in> set names, names) = (\<lambda>n. n \<in> set N, N) \<and>
           distinct N \<and> set N = set names \<union> set ns"
  using assms
proof (induction ns arbitrary: names)
  case (Cons n ns)
  have upd: "(\<lambda>k. k \<in> set names)(n := True) = (\<lambda>k. k \<in> set (names @ [n]))"
    by (rule ext) simp
  show ?case
  proof (cases "n \<in> set names")
    case True
    with Cons.IH [OF Cons.prems] show ?thesis by (simp add: insert_absorb)
  next
    case False
    with Cons.prems Cons.IH [of "names @ [n]"] show ?thesis by (simp only: collect_names.simps upd) auto
  qed
qed simp

lemma collect_all_spec:
  assumes "distinct names"
  shows "\<exists>N. foldl (\<lambda>st reg. collect_names reg st) (\<lambda>n. n \<in> set names, names) orders
             = (\<lambda>n. n \<in> set N, N) \<and>
           distinct N \<and> set N = set names \<union> (\<Union>l \<in> set orders. set l)"
  using assms
proof (induction orders arbitrary: names)
  case (Cons ns orders)
  obtain N where N: "collect_names ns (\<lambda>n. n \<in> set names, names) = (\<lambda>n. n \<in> set N, N)"
      "distinct N" "set N = set names \<union> set ns"
    using collect_names_spec [OF Cons.prems] by blast
  from Cons.IH [OF N(2)] show ?case by (simp add: N(1,3) Un_assoc)
qed simp

definition all_names :: "string list" where
  "all_names = concat (map (\<lambda>b. map fst (block_sensors b)) enum_class.enum)"

lemma all_names_distinct: "distinct all_names"
  unfolding all_names_def enum_blockType_def
  by (simp only: list.map concat.simps distinct_append append_Nil2 set_append
      block_sensors_distinct Int_Un_distrib blockType.distinct block_names_disjoint simp_thms
      Un_empty_right block_names_disjoint [of BlockMain] not_False_eq_True)

lemma sort_same_names:
  "distinct xs \<Longrightarrow> distinct ys \<Longrightarrow> set xs = set ys \<Longrightarrow> sort xs = sort (ys :: string list)"
  by (metis sorted_list_of_set_sort_remdups remdups_id_iff_distinct)

text \<open>
  \<open>GetSensorNames\<close> gives the sorted list of all sensor names, each once, whatever order Go
  iterates the four registry maps in.
\<close>

theorem GetSensorNames_order:
  assumes "map set orders = map (\<lambda>b. set (map fst (block_sensors b)))
             [BlockMain, BlockBattery, BlockMeter, BlockMPPT]"
  shows "GetSensorNames orders = sort all_names \<and> distinct (GetSensorNames orders)"
proof -
  let ?r = "foldl (\<lambda>st reg. collect_names reg st) (\<lambda>_. False, []) orders"
  have "(\<Union>l \<in> set orders. set l) = \<Union> (set (map set orders))" by simp
  also have "\<dots> = set all_names" unfolding assms by (simp add: all_names_def enum_blockType_def Un_assoc)
  finally have "distinct (snd ?r) \<and> set (snd ?r) = set all_names"
    using collect_all_spec [of "[]" orders] by auto
  then show ?thesis
    using sort_same_names [OF _ all_names_distinct, of "snd ?r"] all_names_distinct
    by (simp add: GetSensorNames_def)
qed

lemma GetSensorNames_order_witness:
  "GetSensorNames [map fst registry, map fst batteryRegistry, map fst meterRegistry,
     map fst mpptRegistry] = sort all_names"
  by (rule GetSensorNames_order [THEN conjunct1]) simp

definition in_group :: "string \<Rightarrow> string \<Rightarrow> bool" where
  "in_group label n = (case sensorLookup n of None \<Rightarrow> False
     | Some sb \<Rightarrow> blockType_String (sb_block sb) = label)"

lemma group_names_spec:
  "group_names ns groups label =
     (if filter (in_group label) ns = [] then groups label
      else Some ((case groups label of None \<Rightarrow> [] | Some l \<Rightarrow> l) @ filter (in_group label) ns))"
proof (induction ns arbitrary: groups)
  case (Cons n ns)
  show ?case
  proof (cases "sensorLookup n")
    case None
    then have "\<not> in_group label n" by (simp add: in_group_def)
    with None Cons.IH show ?thesis by simp
  next
    case (Some sb)
    then have "in_group label n \<longleftrightarrow> blockType_String (sb_block sb) = label"
      by (simp add: in_group_def)
    with Some show ?thesis
      by (cases "blockType_String (sb_block sb) = label")
        (simp_all add: Let_def Cons.IH split: option.splits)
  qed
qed simp

lemma blockType_String_inj: "blockType_String b = blockType_String b' \<longleftrightarrow> b = b'"
  by (cases b; cases b') simp_all

lemma name_listed: "n \<in> set (map fst reg) \<longleftrightarrow> (\<exists>d. (n, d) \<in> set reg)"
  by force

lemma in_group_block:
  "in_group (blockType_String b) n \<longleftrightarrow> n \<in> set (map fst (block_sensors b))"
proof (cases "sensorLookup n")
  case None
  then have "n \<notin> set (map fst (block_sensors b))"
    using sensorLookup_entry [of n _ b] by (auto simp: name_listed)
  with None show ?thesis by (simp add: in_group_def)
next
  case (Some sb)
  then obtain b' d where "(n, d) \<in> set (block_sensors b')" "sb = block_entry b' d"
    using sensorLookup_block by blast
  moreover have "n \<in> set (map fst (block_sensors b)) \<longleftrightarrow> b' = b"
    using calculation(1) by (metis block_sensors_apart name_listed)
  ultimately show ?thesis
    using Some by (simp add: in_group_def block_entry_def blockType_String_inj)
qed

lemma in_group_label: "in_group label n \<Longrightarrow> \<exists>b. label = blockType_String b"
  by (auto simp: in_group_def split: option.splits)

lemma in_set_concat_map: "x \<in> set (concat (map f bs)) \<longleftrightarrow> (\<exists>b \<in> set bs. x \<in> set (f b))"
  by simp

lemma all_names_iff: "n \<in> set all_names \<longleftrightarrow> (\<exists>b. n \<in> set (map fst (block_sensors b)))"
  unfolding all_names_def in_set_concat_map enum_UNIV by blast

lemma dom_sensorLookup: "dom sensorLookup = set all_names"
proof -
  have "n \<in> dom sensorLookup \<longleftrightarrow> n \<in> set all_names" for n
    unfolding all_names_iff name_listed
    using sensorLookup_entry sensorLookup_block by blast
  then show ?thesis by blast
qed

lemma block_sensors_nonempty: "block_sensors b \<noteq> []"
  by (cases b) (simp_all add: registry_defs)

lemma group_of_block:
  assumes "distinct order" "set order = dom sensorLookup"
  shows "GetSensorNamesByBlock order (blockType_String b)
           = Some (sort (map fst (block_sensors b)))"
proof -
  let ?mine = "filter (in_group (blockType_String b)) order"
  have "set ?mine = set (map fst (block_sensors b))"
    unfolding set_filter in_group_block assms(2) dom_sensorLookup all_names_iff by blast
  moreover from this have "?mine \<noteq> []"
    by (metis block_sensors_nonempty map_is_Nil_conv set_empty)
  moreover have "sort ?mine = sort (map fst (block_sensors b))"
    using calculation(1) assms(1) by (intro sort_same_names block_sensors_distinct) simp_all
  ultimately show ?thesis
    by (simp add: GetSensorNamesByBlock_def group_names_spec)
qed

lemma no_other_group:
  "\<forall>b. label \<noteq> blockType_String b \<Longrightarrow> GetSensorNamesByBlock order label = None"
  using in_group_label by (auto simp: GetSensorNamesByBlock_def group_names_spec filter_empty_conv)

text \<open>
  \<open>GetSensorNamesByBlock\<close> has one group for each of the four blocks, labelled with the block's
  display name, holding exactly the sensors of that block's registry, sorted, whatever order Go
  iterates the lookup table in.
\<close>

theorem GetSensorNamesByBlock_order:
  assumes "distinct order" "set order = dom sensorLookup"
  shows "GetSensorNamesByBlock order =
    map_of (map (\<lambda>b. (blockType_String b, sort (map fst (block_sensors b))))
      [BlockMain, BlockBattery, BlockMeter, BlockMPPT])"
proof
  fix label
  show "GetSensorNamesByBlock order label =
    map_of (map (\<lambda>b. (blockType_String b, sort (map fst (block_sensors b))))
      [BlockMain, BlockBattery, BlockMeter, BlockMPPT]) label"
  proof (cases "\<exists>b. label = blockType_String b")
    case True
    then obtain b where b: "label = blockType_String b" ..
    have "GetSensorNamesByBlock order label = Some (sort (map fst (block_sensors b)))"
      unfolding b using assms by (rule group_of_block)
    then show ?thesis by (cases b) (simp_all add: b)
  next
    case False
    then have "GetSensorNamesByBlock order label = None"
      by (intro no_other_group) blast
    moreover have "label \<noteq> blockType_String b" for b using False by blast
    from this [of BlockMain] this [of BlockBattery] this [of BlockMeter] this [of BlockMPPT]
    have "map_of (map (\<lambda>b. (blockType_String b, sort (map fst (block_sensors b))))
        [BlockMain, BlockBattery, BlockMeter, BlockMPPT]) label = None"
      by simp
    ultimately show ?thesis by simp
  qed
qed

lemma GetSensorNamesByBlock_order_witness:
  "GetSensorNamesByBlock all_names ''MPPT'' = Some (sort (map fst mpptRegistry))"
  using GetSensorNamesByBlock_order [OF all_names_distinct dom_sensorLookup [symmetric]]
  by simp

section \<open>Bitmaps and the grid direction\<close>

fun join_with :: "string \<Rightarrow> string list \<Rightarrow> string" where
  "join_with sep [] = ''''"
| "join_with sep [s] = s"
| "join_with sep (s # ss) = s @ sep @ join_with sep ss"

lemma foldl_join: "foldl (\<lambda>r q. r @ sep @ q) p ps = join_with sep (p # ps)"
proof -
  have "foldl (\<lambda>r q. r @ sep @ q) p ps = p @ concat (map (\<lambda>q. sep @ q) ps)"
    by (induction ps arbitrary: p) simp_all
  moreover have "join_with sep (p # ps) = p @ concat (map (\<lambda>q. sep @ q) ps)"
    by (induction ps arbitrary: p) simp_all
  ultimately show ?thesis by simp
qed

definition bit_label :: "u32 \<Rightarrow> (int \<times> string) list \<Rightarrow> nat \<Rightarrow> string list" where
  "bit_label v labels i =
     (if bit v i then (case map_of labels (int i) of
        Some s \<Rightarrow> if s \<noteq> '''' then [s] else [] | None \<Rightarrow> []) else [])"

definition bit_labels :: "u32 \<Rightarrow> (int \<times> string) list \<Rightarrow> string list" where
  "bit_labels v labels = concat (map (bit_label v labels) [0..<32])"

lemma decodeBitmap_loop_spec:
  assumes "i \<le> 32"
  shows "decodeBitmap_loop i (drop_bit i v) labels parts =
           parts @ concat (map (bit_label v labels) [i..<32])"
  using assms
proof (induction i arbitrary: parts rule: inc_induct)
  case base
  show ?case by (subst decodeBitmap_loop.simps) simp
next
  case (step i)
  have odd: "drop_bit i v AND 1 = 1 \<longleftrightarrow> bit v i"
    by (simp add: and_one_eq bit_iff_odd_drop_bit odd_iff_mod_2_eq_one)
  have next_bit: "drop_bit 1 (drop_bit i v) = drop_bit (Suc i) v"
    by (simp add: drop_bit_drop_bit)
  have range: "[i..<32] = i # [Suc i..<32]"
    using step.hyps by (simp add: upt_conv_Cons)
  show ?case
    using step.hyps
    by (subst decodeBitmap_loop.simps)
      (simp add: odd next_bit step.IH range bit_label_def [of v labels i] split: option.splits)
qed

text \<open>
  Decoding a bitmap lists the labels of exactly the set bits, in ascending order of the bit
  number and separated by a comma and a blank; bits without a label, or with an empty one, are left
  out. The loop that shifts the value and appends is the same as reading the 32 bits in order.
\<close>

theorem decodeBitmap_spec:
  "decodeBitmap v labels = join_with '', '' (bit_labels v labels)"
proof -
  have "decodeBitmap_loop 0 v labels [] = bit_labels v labels"
    using decodeBitmap_loop_spec [of 0 v labels "[]"] by (simp add: bit_labels_def)
  then show ?thesis
    unfolding decodeBitmap_def foldl_join by (auto split: list.splits)
qed

text \<open>
  The grid label always is the label of the grid code that the same data decodes to, and the
  code is 2 (buying) below -90 W, 1 (selling) from 90 W on, and 0 (idle) in between.
\<close>

theorem grid_label_matches_code:
  assumes "82 \<le> sl_len s"
  shows "\<exists>w k. u16_at s 80 = Ret w \<and> grid_in_out_calc s = Ret (VFloat (f_of_int k)) \<and>
           grid_in_out_label_calc s = Ret (VString (label_or_empty gridInOutModes k)) \<and>
           label_or_empty gridInOutModes k \<noteq> '''' \<and>
           (k = 2 \<longleftrightarrow> sint w < - 90) \<and> (k = 1 \<longleftrightarrow> 90 \<le> sint w) \<and> (k = 0 \<longleftrightarrow> sint w \<in> {-90..<90})"
proof -
  obtain w where w: "u16_at s 80 = Ret w"
    using assms u16_at_Ret [of 80 s] by simp
  show ?thesis
    by (rule exI [of _ w], rule exI [of _ "if sint w < - 90 then 2 else if 90 \<le> sint w then 1 else 0"])
      (simp add: w grid_in_out_calc_def grid_in_out_label_calc_def Let_def label_or_empty_def
        gridInOutModes_def)
qed

lemma grid_label_matches_code_witness:
  "\<exists>w k. u16_at (whole (replicate 250 0xFF)) 80 = Ret w \<and>
     grid_in_out_label_calc (whole (replicate 250 0xFF))
       = Ret (VString (label_or_empty gridInOutModes k))"
  using grid_label_matches_code [of "whole (replicate 250 0xFF)"] by auto

end
