(* ===== verification/Inverter.thy ===== *)
theory Inverter
  imports Transport_Correct Sensor_Correct
begin

text \<open>
  The ET inverter, \<open>et/et.go\<close>, and the types of \<open>goodwe.go\<close>: connecting, the device information, the
  bulk read of all sensors with the fallbacks for absent blocks, and the read of one sensor. The
  inverter holds a transport behind the interface of \<open>Transport\<close>, together with the state that
  transport works on; without one (\<open>New\<close>), the methods that use it panic.
\<close>

section \<open>Types\<close>

record sensorValue =
  sv_Value :: sval
  sv_Unit :: string
  sv_Name :: string

record info =
  in_SerialNumber :: string
  in_Model :: string
  in_Firmware :: string
  in_RatedPower :: int
  in_DSPVersion :: string
  in_ARMVersion :: string

definition ErrUnsupported :: goerror where
  "ErrUnsupported = Errorf ''unsupported inverter''"

record 's inverter =
  iv_ip :: string
  iv_serial :: string
  iv_transport :: "('s transport \<times> 's) option"

definition New :: "string \<Rightarrow> 's inverter" where
  "New ip = \<lparr>iv_ip = ip, iv_serial = '''', iv_transport = None\<rparr>"

definition NewWithTransport :: "string \<Rightarrow> 's transport \<times> 's \<Rightarrow> 's inverter" where
  "NewWithTransport serial tr =
     \<lparr>iv_ip = '''', iv_serial = serial, iv_transport = Some tr\<rparr>"

section \<open>Calls on the transport\<close>

definition set_state :: "'s inverter \<Rightarrow> 's \<Rightarrow> 's inverter" where
  "set_state e s = e\<lparr>iv_transport := map_option (\<lambda>(T, _). (T, s)) (iv_transport e)\<rparr>"

text \<open>\<open>e.transport.ReadRegisters\<close>: a method call on a nil interface panics.\<close>

definition read_transport ::
    "'s inverter \<Rightarrow> u16 \<Rightarrow> u16 \<Rightarrow> ((goerror + slice) \<times> 's inverter) outcome" where
  "read_transport e startReg quantity =
     (case iv_transport e of
        None \<Rightarrow> Panic
      | Some (T, s) \<Rightarrow> obind (tr_ReadRegisters T startReg quantity s)
                        (\<lambda>(r, s'). Ret (r, set_state e s')))"

definition Connect :: "'s inverter \<Rightarrow> (goerror option \<times> 's inverter) outcome" where
  "Connect e =
     (case iv_transport e of
        None \<Rightarrow> Ret (Some (Errorf
          ''no transport configured: use discovery.Discover() instead of New()''), e)
      | Some (T, s) \<Rightarrow>
          obind (tr_Close T s) (\<lambda>(_, s1).
          obind (tr_Connect T s1) (\<lambda>(err, s2).
            Ret (map_option (wrap ''connection failed'') err, set_state e s2))))"

definition Close :: "'s inverter \<Rightarrow> (goerror option \<times> 's inverter) outcome" where
  "Close e =
     (case iv_transport e of
        None \<Rightarrow> Ret (None, e)
      | Some (T, s) \<Rightarrow> obind (tr_Close T s) (\<lambda>(err, s'). Ret (err, set_state e s')))"

section \<open>Device information\<close>

definition bytes_string :: "byte list \<Rightarrow> string" where
  "bytes_string bs = map (\<lambda>b. char_of (unat b)) bs"

text \<open>\<open>string(runes)\<close>: UTF-8, with surrogates replaced by U+FFFD.\<close>

definition utf8_rune :: "u16 \<Rightarrow> byte list" where
  "utf8_rune r =
     (if r < 0x80 then [ucast r]
      else if r < 0x800 then [0xC0 OR ucast (drop_bit 6 r), 0x80 OR (ucast r AND 0x3F)]
      else if 0xD800 \<le> r \<and> r \<le> 0xDFFF then [0xEF, 0xBF, 0xBD]
      else [0xE0 OR ucast (drop_bit 12 r), 0x80 OR (ucast (drop_bit 6 r) AND 0x3F),
            0x80 OR (ucast r AND 0x3F)])"

text \<open>The loop over \<open>data[i:]\<close> in steps of two, which skips zero runes.\<close>

fun utf16_runes :: "byte list \<Rightarrow> u16 list" where
  "utf16_runes (b0 # b1 # bs) =
     (let r = be16 b0 b1 in if r = 0 then utf16_runes bs else r # utf16_runes bs)"
| "utf16_runes _ = []"

definition trim_cutset :: string where
  "trim_cutset = [CHR '' '', CHR 0x09, CHR 0x0A, CHR 0x0D, CHR 0x00]"

definition decodeGoodweString :: "byte list \<Rightarrow> string" where
  "decodeGoodweString data =
     (if list_ex (\<lambda>b. b < 32) data
      then TrimRight (bytes_string (concat (map utf8_rune (utf16_runes data)))) trim_cutset
      else if list_ex (\<lambda>b. b < 32 \<or> b > 126) data then hex_EncodeToString data
      else TrimRight (bytes_string data) trim_cutset)"

definition decode_at :: "slice \<Rightarrow> nat \<Rightarrow> nat \<Rightarrow> string outcome" where
  "decode_at data a b = obind (reslice data a b) (\<lambda>s. Ret (decodeGoodweString (sl_data s)))"

text \<open>The version that \<open>GetInfo\<close> falls back to: the second part of a firmware string.\<close>

definition version_part :: "string \<Rightarrow> string" where
  "version_part fw = (case SplitN fw ''-'' 3 of _ # p # _ \<Rightarrow> p | _ \<Rightarrow> '''')"

definition info_of :: "slice \<Rightarrow> info outcome" where
  "info_of data =
     obind (decode_at data 6 22) (\<lambda>serial.
     obind (decode_at data 22 32) (\<lambda>model0.
     obind (u16_at data 2) (\<lambda>rated.
     let kw = uint rated div 1000;
         model = (if model0 = '''' \<and> uint rated > 0 \<and> kw > 0
                  then ''GW'' @ show_int kw @ ''K-ET'' else model0) in
     obind (decode_at data 42 54) (\<lambda>firmware.
     obind (decode_at data 54 66) (\<lambda>armFirmware.
     let fw = (if firmware \<noteq> '''' \<and> armFirmware \<noteq> '''' then firmware @ armFirmware
               else if firmware \<noteq> '''' then firmware else armFirmware) in
     obind (u16_at data 32) (\<lambda>dsp1.
     obind (u16_at data 34) (\<lambda>dsp2.
     let dsp = (if dsp1 > 0 \<or> dsp2 > 0
                then show_nat (unat dsp1) @ ''.'' @ show_nat (unat dsp2)
                else version_part firmware) in
     obind (u16_at data 38) (\<lambda>arm.
     let armv = (if arm > 0 then show_nat (unat arm) else version_part armFirmware) in
     Ret \<lparr>in_SerialNumber = serial, in_Model = model, in_Firmware = fw,
          in_RatedPower = uint rated, in_DSPVersion = dsp, in_ARMVersion = armv\<rparr>))))))))"

definition GetInfo :: "'s inverter \<Rightarrow> (info \<times> 's inverter) outcome" where
  "GetInfo e =
     (let info0 = \<lparr>in_SerialNumber = iv_serial e, in_Model = '''', in_Firmware = '''',
                   in_RatedPower = 0, in_DSPVersion = '''', in_ARMVersion = ''''\<rparr>
      in obind (read_transport e 35000 33) (\<lambda>(r, e'). case r of
           Inl err \<Rightarrow> Ret (info0, e')
         | Inr data \<Rightarrow>
             if sl_len data < 66 then Ret (info0, e')
             else obind (info_of data) (\<lambda>info. Ret (info, e'))))"

section \<open>Reading sensors\<close>

definition readOnceWithFallback ::
    "'s inverter \<Rightarrow> u16 \<Rightarrow> u16 \<Rightarrow> ((goerror + slice) \<times> 's inverter) outcome" where
  "readOnceWithFallback e startReg quantity = read_transport e startReg quantity"

definition sensor_value :: "sensorDefinition \<Rightarrow> sval \<Rightarrow> sensorValue" where
  "sensor_value def v = \<lparr>sv_Value = v, sv_Unit = sd_Unit def, sv_Name = sd_Name def\<rparr>"

type_synonym sensor_map = "string \<rightharpoonup> sensorValue"

text \<open>
  One loop \<open>for name, def := range <registry>\<close>, with the names in the order Go iterates the map; the
  flag tells that the context was done and the function returns.
\<close>

fun decode_block ::
    "(string \<times> sensorDefinition) list \<Rightarrow> slice \<Rightarrow> string list \<Rightarrow> goctx \<Rightarrow> sensor_map
     \<Rightarrow> (bool \<times> goctx \<times> sensor_map) outcome" where
  "decode_block reg data [] ctx results = Ret (False, ctx, results)"
| "decode_block reg data (name # names) ctx results =
     (case ctx_done ctx of
        (True, ctx') \<Rightarrow> Ret (True, ctx', results)
      | (False, ctx') \<Rightarrow>
          (case map_of reg name of
             None \<Rightarrow> decode_block reg data names ctx' results
           | Some def \<Rightarrow> obind (sd_Calculator def data) (\<lambda>v.
               decode_block reg data names ctx' (results(name \<mapsto> sensor_value def v)))))"

text \<open>A block that is skipped when its read failed.\<close>

definition optional_block ::
    "(string \<times> sensorDefinition) list \<Rightarrow> string list \<Rightarrow> goerror + slice \<Rightarrow> goctx \<Rightarrow> sensor_map
     \<Rightarrow> (bool \<times> goctx \<times> sensor_map) outcome" where
  "optional_block reg names r ctx results =
     (case r of Inl err \<Rightarrow> Ret (False, ctx, results)
      | Inr data \<Rightarrow> decode_block reg data names ctx results)"

text \<open>The meter: 125 registers, then 58, then 45, as long as the block is reported absent.\<close>

definition read_meter :: "'s inverter \<Rightarrow> ((goerror + slice) \<times> 's inverter) outcome" where
  "read_meter e =
     obind (read_transport e meterRegistersOffset meterRegistersCount) (\<lambda>(r1, e1).
     obind (case r1 of
              Inl err \<Rightarrow> if isIllegalDataAddress err
                then read_transport e1 meterRegistersOffset meterRegistersCountFallb1
                else Ret (r1, e1)
            | Inr _ \<Rightarrow> Ret (r1, e1)) (\<lambda>(r2, e2).
       case r2 of
         Inl err \<Rightarrow> if isIllegalDataAddress err
           then read_transport e2 meterRegistersOffset meterRegistersCountFallb2
           else Ret (r2, e2)
       | Inr _ \<Rightarrow> Ret (r2, e2)))"

text \<open>\<open>GetSensors\<close> gives the map (\<open>None\<close> for a nil map) and the error.\<close>

definition GetSensors ::
    "(blockType \<Rightarrow> string list) \<Rightarrow> goctx \<Rightarrow> 's inverter
     \<Rightarrow> ((sensor_map option \<times> goerror option) \<times> 's inverter) outcome" where
  "GetSensors order ctx e =
     obind (readOnceWithFallback e baseRegistersOffset baseRegistersCount) (\<lambda>(r, e1). case r of
       Inl err \<Rightarrow> Ret ((None, Some (wrap ''failed to read bulk telemetry'' err)), e1)
     | Inr data \<Rightarrow>
       obind (decode_block registry data (order BlockMain) ctx Map.empty) (\<lambda>(stop, ctx1, m1).
       if stop then Ret ((Some m1, Some (ctx_err ctx1)), e1) else
       obind (read_transport e1 batteryRegistersOffset batteryRegistersCount) (\<lambda>(rb, e2).
       obind (optional_block batteryRegistry (order BlockBattery) rb ctx1 m1) (\<lambda>(stop, ctx2, m2).
       if stop then Ret ((Some m2, Some (ctx_err ctx2)), e2) else
       obind (read_meter e2) (\<lambda>(rm, e3).
       obind (optional_block meterRegistry (order BlockMeter) rm ctx2 m2) (\<lambda>(stop, ctx3, m3).
       if stop then Ret ((Some m3, Some (ctx_err ctx3)), e3) else
       obind (read_transport e3 mpptRegistersOffset mpptRegistersCount) (\<lambda>(rp, e4).
       obind (optional_block mpptRegistry (order BlockMPPT) rp ctx3 m3) (\<lambda>(stop, ctx4, m4).
       if stop then Ret ((Some m4, Some (ctx_err ctx4)), e4)
       else Ret ((Some m4, None), e4)))))))))"

text \<open>The retries of \<open>ReadSensor\<close> for a meter block that is reported absent.\<close>

definition fallbackQty :: "u16 \<Rightarrow> u16" where
  "fallbackQty readQty =
     (if readQty \<ge> meterRegistersCount then meterRegistersCountFallb1
      else if readQty \<ge> meterRegistersCountFallb1 then meterRegistersCountFallb2
      else 0)"

definition read_sensor_block ::
    "'s inverter \<Rightarrow> sensorBlock \<Rightarrow> ((goerror + slice) \<times> 's inverter) outcome" where
  "read_sensor_block e sb =
     obind (readOnceWithFallback e (sb_startReg sb) (sb_readQty sb)) (\<lambda>(r, e1). case r of
       Inr data \<Rightarrow> Ret (Inr data, e1)
     | Inl err \<Rightarrow>
         if sb_block sb = BlockMeter \<and> isIllegalDataAddress err then
           (let qty = fallbackQty (sb_readQty sb) in
            if qty > 0 then
              obind (read_transport e1 (sb_startReg sb) qty) (\<lambda>(r2, e2). case r2 of
                Inr data \<Rightarrow> Ret (Inr data, e2)
              | Inl err2 \<Rightarrow>
                  if isIllegalDataAddress err2 \<and> qty = meterRegistersCountFallb1
                  then read_transport e2 (sb_startReg sb) meterRegistersCountFallb2
                  else Ret (Inl err2, e2))
            else Ret (Inl err, e1))
         else Ret (Inl err, e1))"

definition ReadSensor ::
    "string \<Rightarrow> 's inverter \<Rightarrow> ((goerror + sensorValue) \<times> 's inverter) outcome" where
  "ReadSensor name e =
     (case sensorLookup name of
        None \<Rightarrow> Ret (Inl (Errorf (''unknown sensor: '' @ name)), e)
      | Some sb \<Rightarrow>
          obind (read_sensor_block e sb) (\<lambda>(r, e'). case r of
            Inl err \<Rightarrow> Ret (Inl (wrap (''failed to read sensor '' @ name) err), e')
          | Inr data \<Rightarrow> obind (sd_Calculator (sb_def sb) data) (\<lambda>v.
              Ret (Inr (sensor_value (sb_def sb) v), e'))))"

end
