(* ===== verification/Inverter_Correct.thy ===== *)
theory Inverter_Correct
  imports Inverter
begin

text \<open>
  The inverter over any transport that keeps the laws of the interface never panics, and over a
  transport with a Modbus device behind it its two ways of reading sensors give exactly the values
  that the sensor tables assign to the device's registers.
\<close>

section \<open>Decoding a block\<close>

definition decoded :: "(string \<times> sensorDefinition) list \<Rightarrow> slice \<Rightarrow> sensor_map" where
  "decoded reg data n =
     (case map_of reg n of None \<Rightarrow> None
      | Some def \<Rightarrow> (case sd_Calculator def data of Panic \<Rightarrow> None
                     | Ret v \<Rightarrow> Some (sensor_value def v)))"

lemma ctx_done_cases:
  obtains (live) ctx' where "ctx_done ctx = (False, ctx')" "ctx_err ctx' = ctx_err ctx"
      "ctx_left ctx = None \<longleftrightarrow> ctx_left ctx' = None"
    | (dead) "ctx_done ctx = (True, ctx)" "ctx_left ctx \<noteq> None"
  by (cases "ctx_left ctx"; cases "the (ctx_left ctx)") (auto simp: ctx_done_def)

text \<open>What a run over the names \<open>names\<close> leaves: the values of the first of them.\<close>

lemma decode_block_spec:
  assumes "all_return reg data"
  shows "\<exists>stop ctx' k. decode_block reg data names ctx m =
             Ret (stop, ctx', m ++ (decoded reg data |` set (take k names))) \<and>
           ctx_err ctx' = ctx_err ctx \<and> (\<not> stop \<longrightarrow> length names \<le> k) \<and>
           (ctx_left ctx = None \<longrightarrow> \<not> stop \<and> ctx_left ctx' = None)"
proof (induction names arbitrary: ctx m)
  case Nil
  show ?case by (rule exI [of _ False]) simp
next
  case (Cons n names)
  show ?case
  proof (cases ctx rule: ctx_done_cases)
    case (live ctx1)
    let ?m1 = "m ++ (decoded reg data |` {n})"
    have step: "decode_block reg data (n # names) ctx m = decode_block reg data names ctx1 ?m1"
    proof (cases "map_of reg n")
      case None
      then have "decoded reg data n = None" by (simp add: decoded_def)
      then have "decoded reg data |` {n} = Map.empty"
        by (auto simp: restrict_map_def)
      with None live show ?thesis by simp
    next
      case (Some def)
      obtain v where v: "sd_Calculator def data = Ret v"
        using all_return_mem [OF assms map_of_SomeD [OF Some]] by (auto simp: returns_iff)
      then have "decoded reg data |` {n} = [n \<mapsto> sensor_value def v]"
        by (auto simp: restrict_map_def decoded_def Some)
      with Some live v show ?thesis by (simp add: map_add_upd)
    qed
    obtain stop ctx' k where ih: "decode_block reg data names ctx1 ?m1 =
          Ret (stop, ctx', ?m1 ++ (decoded reg data |` set (take k names)))"
        "ctx_err ctx' = ctx_err ctx1" "\<not> stop \<longrightarrow> length names \<le> k"
        "ctx_left ctx1 = None \<longrightarrow> \<not> stop \<and> ctx_left ctx' = None"
      using Cons.IH [of ctx1 ?m1] by (elim exE conjE)
    have "?m1 ++ (decoded reg data |` set (take k names)) =
        m ++ (decoded reg data |` set (take (Suc k) (n # names)))"
      by (auto simp: map_add_def restrict_map_def fun_eq_iff split: option.splits)
    with ih step live show ?thesis
      by (intro exI [of _ stop] exI [of _ ctx'] exI [of _ "Suc k"]) simp
  next
    case dead
    then show ?thesis
      by (intro exI [of _ True] exI [of _ ctx] exI [of _ 0]) simp
  qed
qed

section \<open>No panics\<close>

text \<open>The inverter talks over the transport \<open>T\<close>.\<close>

definition over :: "'s transport \<Rightarrow> 's inverter \<Rightarrow> bool" where
  "over T e \<longleftrightarrow> (\<exists>s. iv_transport e = Some (T, s))"

lemma over_set_state [simp]: "over T (set_state e s) \<longleftrightarrow> over T e"
  by (auto simp: over_def set_state_def)

lemma info_of_ok: "66 \<le> sl_len d \<Longrightarrow> returns (info_of d)"
  using sl_len_le_cap [of d]
  by (auto simp: info_of_def Let_def decode_at_def reslice_Ret returns_u16_at
      intro!: returns_obind)

context transport
begin

lemma read_ok:
  assumes "over T e"
  shows "\<exists>r e'. read_transport e a q = Ret (r, e') \<and> over T e' \<and>
           (\<forall>d. r = Inr d \<longrightarrow> 82 \<le> sl_cap d)"
proof -
  obtain s where s: "iv_transport e = Some (T, s)" using assms by (auto simp: over_def)
  obtain r s' where r: "tr_ReadRegisters T a q s = Ret (r, s')"
    using read_returns [of a q s] by (auto simp: returns_iff)
  have "82 \<le> sl_cap d" if "r = Inr d" for d
    using read_capacity [of a q s d s'] r that by (simp add: respBufSize_def)
  with assms s r show ?thesis by (simp add: read_transport_def)
qed

lemma read_meter_ok:
  assumes "over T e"
  shows "\<exists>r e'. read_meter e = Ret (r, e') \<and> over T e' \<and> (\<forall>d. r = Inr d \<longrightarrow> 82 \<le> sl_cap d)"
proof -
  obtain r1 e1 where 1: "read_transport e meterRegistersOffset meterRegistersCount = Ret (r1, e1)"
      "over T e1" "\<forall>d. r1 = Inr d \<longrightarrow> 82 \<le> sl_cap d"
    using read_ok [OF assms] by blast
  obtain r2 e2 where 2: "read_transport e1 meterRegistersOffset meterRegistersCountFallb1 = Ret (r2, e2)"
      "over T e2" "\<forall>d. r2 = Inr d \<longrightarrow> 82 \<le> sl_cap d"
    using read_ok [OF 1(2)] by blast
  show ?thesis
    using 1 2 read_ok [OF 1(2), of meterRegistersOffset meterRegistersCountFallb2]
      read_ok [OF 2(2), of meterRegistersOffset meterRegistersCountFallb2]
    by (auto simp: read_meter_def split: sum.splits)
qed

lemma optional_ok:
  assumes "\<forall>d. r = Inr d \<longrightarrow> 82 \<le> sl_cap d"
  shows "\<exists>stop ctx' m'. optional_block (block_sensors b) names r ctx m = Ret (stop, ctx', m')"
  using decode_block_spec [OF block_returns, of _ b names ctx m] assms
  by (cases r) (fastforce simp: optional_block_def)+

lemma GetSensors_ok:
  assumes "over T e"
  shows "\<exists>r e'. GetSensors order ctx e = Ret (r, e') \<and> over T e'"
proof -
  obtain r1 e1 where 1: "read_transport e baseRegistersOffset baseRegistersCount = Ret (r1, e1)"
      "over T e1" "\<forall>d. r1 = Inr d \<longrightarrow> 82 \<le> sl_cap d"
    using read_ok [OF assms] by blast
  obtain r2 e2 where 2: "read_transport e1 batteryRegistersOffset batteryRegistersCount = Ret (r2, e2)"
      "over T e2" "\<forall>d. r2 = Inr d \<longrightarrow> 82 \<le> sl_cap d"
    using read_ok [OF 1(2)] by blast
  obtain r3 e3 where 3: "read_meter e2 = Ret (r3, e3)" "over T e3"
      "\<forall>d. r3 = Inr d \<longrightarrow> 82 \<le> sl_cap d"
    using read_meter_ok [OF 2(2)] by blast
  obtain r4 e4 where 4: "read_transport e3 mpptRegistersOffset mpptRegistersCount = Ret (r4, e4)"
      "over T e4" "\<forall>d. r4 = Inr d \<longrightarrow> 82 \<le> sl_cap d"
    using read_ok [OF 3(2)] by blast
  show ?thesis
  proof (cases r1)
    case (Inr d)
    have m1: "\<exists>stop ctx' m'. decode_block registry d (order BlockMain) ctx Map.empty = Ret (stop, ctx', m')"
      using optional_ok [OF 1(3), of BlockMain "order BlockMain" ctx Map.empty]
      by (simp add: Inr optional_block_def)
    have m2: "\<exists>stop ctx' m'. optional_block batteryRegistry (order BlockBattery) r2 c m = Ret (stop, ctx', m')"
      for c m using optional_ok [OF 2(3), of BlockBattery] by simp
    have m3: "\<exists>stop ctx' m'. optional_block meterRegistry (order BlockMeter) r3 c m = Ret (stop, ctx', m')"
      for c m using optional_ok [OF 3(3), of BlockMeter] by simp
    have m4: "\<exists>stop ctx' m'. optional_block mpptRegistry (order BlockMPPT) r4 c m = Ret (stop, ctx', m')"
      for c m using optional_ok [OF 4(3), of BlockMPPT] by simp
    obtain s1 c1 k1 where k1: "decode_block registry d (order BlockMain) ctx Map.empty = Ret (s1, c1, k1)"
      using m1 by blast
    obtain s2 c2 k2 where k2: "optional_block batteryRegistry (order BlockBattery) r2 c1 k1 = Ret (s2, c2, k2)"
      using m2 by blast
    obtain s3 c3 k3 where k3: "optional_block meterRegistry (order BlockMeter) r3 c2 k2 = Ret (s3, c3, k3)"
      using m3 by blast
    obtain s4 c4 k4 where k4: "optional_block mpptRegistry (order BlockMPPT) r4 c3 k3 = Ret (s4, c4, k4)"
      using m4 by blast
    show ?thesis
      using 1 2 3 4
      by (simp add: GetSensors_def readOnceWithFallback_def Inr k1 k2 k3 k4)
  qed (use 1 in \<open>simp add: GetSensors_def readOnceWithFallback_def\<close>)
qed

lemma read_sensor_block_ok:
  assumes "over T e"
  shows "\<exists>r e'. read_sensor_block e sb = Ret (r, e') \<and> over T e' \<and>
           (\<forall>d. r = Inr d \<longrightarrow> 82 \<le> sl_cap d)"
proof -
  obtain r1 e1 where 1: "read_transport e (sb_startReg sb) (sb_readQty sb) = Ret (r1, e1)"
      "over T e1" "\<forall>d. r1 = Inr d \<longrightarrow> 82 \<le> sl_cap d"
    using read_ok [OF assms] by blast
  obtain r2 e2 where 2: "read_transport e1 (sb_startReg sb) (fallbackQty (sb_readQty sb)) = Ret (r2, e2)"
      "over T e2" "\<forall>d. r2 = Inr d \<longrightarrow> 82 \<le> sl_cap d"
    using read_ok [OF 1(2)] by blast
  show ?thesis
    using 1 2 read_ok [OF 2(2), of "sb_startReg sb" meterRegistersCountFallb2]
    by (auto simp: read_sensor_block_def readOnceWithFallback_def Let_def split: sum.splits)
qed

lemma ReadSensor_ok:
  assumes "over T e"
  shows "\<exists>r e'. ReadSensor name e = Ret (r, e') \<and> over T e'"
proof (cases "sensorLookup name")
  case (Some sb)
  obtain b d where bd: "(name, d) \<in> set (block_sensors b)" "sb = block_entry b d"
    using sensorLookup_block [OF Some] by blast
  obtain r e' where r: "read_sensor_block e sb = Ret (r, e')" "over T e'"
      "\<forall>d. r = Inr d \<longrightarrow> 82 \<le> sl_cap d"
    using read_sensor_block_ok [OF assms] by blast
  show ?thesis
  proof (cases r)
    case (Inr data)
    have "returns (sd_Calculator (sb_def sb) data)"
      using all_return_mem [OF block_returns bd(1)] r(3) Inr by (simp add: bd(2) block_entry_def)
    then show ?thesis using r by (auto simp: ReadSensor_def Some Inr returns_iff)
  qed (use r in \<open>simp add: ReadSensor_def Some\<close>)
qed (use assms in \<open>simp add: ReadSensor_def\<close>)

lemma GetInfo_ok:
  assumes "over T e"
  shows "\<exists>i e'. GetInfo e = Ret (i, e') \<and> over T e'"
proof -
  obtain r e' where r: "read_transport e 35000 33 = Ret (r, e')" "over T e'"
    using read_ok [OF assms] by blast
  show ?thesis
  proof (cases r)
    case (Inr d)
    show ?thesis
    proof (cases "sl_len d < 66")
      case False
      then obtain i where "info_of d = Ret i"
        using info_of_ok [of d] by (auto simp: returns_iff)
      with False r Inr show ?thesis by (simp add: GetInfo_def)
    qed (use r Inr in \<open>simp add: GetInfo_def\<close>)
  qed (use r in \<open>simp add: GetInfo_def\<close>)
qed

lemma Connect_ok:
  assumes "over T e"
  shows "\<exists>r e'. Connect e = Ret (r, e') \<and> over T e'"
proof -
  obtain s where s: "iv_transport e = Some (T, s)" using assms by (auto simp: over_def)
  obtain c1 s1 where "tr_Close T s = Ret (c1, s1)"
    using close_returns [of s] by (auto simp: returns_iff)
  moreover obtain c2 s2 where "tr_Connect T s1 = Ret (c2, s2)"
    using connect_returns [of s1] by (auto simp: returns_iff)
  ultimately show ?thesis using assms s by (simp add: Connect_def)
qed

lemma Close_ok:
  assumes "over T e"
  shows "\<exists>r e'. Close e = Ret (r, e') \<and> over T e'"
proof -
  obtain s where s: "iv_transport e = Some (T, s)" using assms by (auto simp: over_def)
  obtain c1 s1 where "tr_Close T s = Ret (c1, s1)"
    using close_returns [of s] by (auto simp: returns_iff)
  with assms s show ?thesis by (simp add: Close_def)
qed

end

section \<open>A device behind the transport\<close>

text \<open>The bytes of a block, read as the inverter reads it: the meter falls back to shorter reads.\<close>

definition device_block :: "device \<Rightarrow> blockType \<Rightarrow> byte list option" where
  "device_block dv b =
     (if dv_has dv (block_start b) (block_count b)
      then Some (registers dv (block_start b) (block_count b))
      else if b \<noteq> BlockMeter then None
      else if dv_has dv meterRegistersOffset meterRegistersCountFallb1
      then Some (registers dv meterRegistersOffset meterRegistersCountFallb1)
      else if dv_has dv meterRegistersOffset meterRegistersCountFallb2
      then Some (registers dv meterRegistersOffset meterRegistersCountFallb2)
      else None)"

definition block_map :: "device \<Rightarrow> blockType \<Rightarrow> sensor_map" where
  "block_map dv b =
     (case device_block dv b of None \<Rightarrow> Map.empty | Some bs \<Rightarrow> decoded (block_sensors b) (whole bs))"

text \<open>The value of a sensor, from the tables and the device's registers.\<close>

definition device_sensors :: "device \<Rightarrow> sensor_map" where
  "device_sensors dv n =
     (case sensorLookup n of None \<Rightarrow> None | Some sb \<Rightarrow> block_map dv (sb_block sb) n)"

lemma block_map_listed:
  assumes "block_map dv b n = Some v"
  shows "\<exists>d. (n, d) \<in> set (block_sensors b)"
proof (cases "map_of (block_sensors b) n")
  case None
  then show ?thesis using assms by (simp add: block_map_def decoded_def split: option.splits)
next
  case (Some d)
  then show ?thesis by (auto dest: map_of_SomeD)
qed

lemma device_sensors_iff:
  "device_sensors dv n = Some v \<longleftrightarrow> (\<exists>b. block_map dv b n = Some v)"
proof
  assume "device_sensors dv n = Some v"
  then show "\<exists>b. block_map dv b n = Some v"
    by (auto simp: device_sensors_def split: option.splits)
next
  assume "\<exists>b. block_map dv b n = Some v"
  then obtain b where b: "block_map dv b n = Some v" ..
  then obtain d where "(n, d) \<in> set (block_sensors b)" using block_map_listed by blast
  from sensorLookup_entry [OF this] b show "device_sensors dv n = Some v"
    by (simp add: device_sensors_def block_entry_def)
qed

lemma block_map_le: "block_map dv b \<subseteq>\<^sub>m device_sensors dv"
  by (auto simp: map_le_def dom_def) (metis device_sensors_iff)

definition block_result :: "device \<Rightarrow> blockType \<Rightarrow> goerror + slice \<Rightarrow> bool" where
  "block_result dv b r \<longleftrightarrow>
     (case device_block dv b of
        Some bs \<Rightarrow> \<exists>d. r = Inr d \<and> sl_data d = bs \<and> 82 \<le> sl_cap d
      | None \<Rightarrow> \<exists>err. r = Inl err)"

text \<open>Spare capacity makes no difference to the values of a block.\<close>

lemma calculator_whole:
  assumes "device_block dv b = Some bs" "sl_data d = bs" "(n, def) \<in> set (block_sensors b)"
  shows "sd_Calculator def d = sd_Calculator def (whole bs)"
proof (cases "b = BlockMeter")
  case True
  then have "data_only (sd_Calculator def)"
    using assms(3) meter_data_only by (auto simp: all_data_only_def list_all_iff)
  then show ?thesis using assms(2) by (simp add: data_only_def)
next
  case False
  then have "length bs = 2 * unat (block_count b)"
    using assms(1) by (auto simp: device_block_def split: if_splits)
  then have "agree (2 * unat (block_count b)) d (whole bs)"
    using assms(2) by (simp add: agree_def sl_len_def)
  moreover have "reads_upto (2 * unat (block_count b)) (sd_Calculator def)"
    using assms(3) block_fits [of b] by (auto simp: all_fit_def list_all_iff)
  ultimately show ?thesis by (simp add: reads_upto_def)
qed

lemma decoded_block:
  assumes "device_block dv b = Some bs" "sl_data d = bs"
  shows "decoded (block_sensors b) d = block_map dv b"
proof
  fix n
  show "decoded (block_sensors b) d n = block_map dv b n"
    using calculator_whole [OF assms]
    by (cases "map_of (block_sensors b) n")
      (auto simp: decoded_def block_map_def assms dest: map_of_SomeD)
qed

lemma optional_block_spec:
  assumes "block_result dv b r" "m \<subseteq>\<^sub>m device_sensors dv"
  shows "\<exists>stop ctx' m'. optional_block (block_sensors b) names r ctx m = Ret (stop, ctx', m') \<and>
           m' \<subseteq>\<^sub>m device_sensors dv \<and> m \<subseteq>\<^sub>m m' \<and> ctx_err ctx' = ctx_err ctx \<and>
           (ctx_left ctx = None \<longrightarrow> \<not> stop \<and> ctx_left ctx' = None) \<and>
           (\<not> stop \<and> set names = set (map fst (block_sensors b)) \<longrightarrow> block_map dv b \<subseteq>\<^sub>m m')"
proof (cases "device_block dv b")
  case None
  then obtain err where "r = Inl err" using assms(1) by (auto simp: block_result_def)
  with None assms(2) show ?thesis
    by (intro exI [of _ False] exI [of _ ctx] exI [of _ m]) (simp add: optional_block_def block_map_def)
next
  case (Some bs)
  then obtain d where d: "r = Inr d" "sl_data d = bs" "82 \<le> sl_cap d"
    using assms(1) by (auto simp: block_result_def)
  let ?part = "\<lambda>k. block_map dv b |` set (take k names)"
  obtain stop ctx' k where run: "decode_block (block_sensors b) d names ctx m =
        Ret (stop, ctx', m ++ ?part k)"
      "ctx_err ctx' = ctx_err ctx" "\<not> stop \<longrightarrow> length names \<le> k"
      "ctx_left ctx = None \<longrightarrow> \<not> stop \<and> ctx_left ctx' = None"
    using decode_block_spec [OF block_returns [OF d(3)], of b names ctx m]
    unfolding decoded_block [OF Some d(2)] by (elim exE conjE)
  have part: "?part k \<subseteq>\<^sub>m device_sensors dv"
    using block_map_le [of dv b] by (auto simp: map_le_def restrict_map_def dom_def)
  have le: "m ++ ?part k \<subseteq>\<^sub>m device_sensors dv"
    using part assms(2) by (auto simp: map_le_def dom_def map_add_def split: option.splits)
  have ext: "m \<subseteq>\<^sub>m m ++ ?part k"
    using part assms(2) by (fastforce simp: map_le_def dom_def map_add_def split: option.splits)
  have full: "block_map dv b \<subseteq>\<^sub>m m ++ ?part k"
    if "\<not> stop" "set names = set (map fst (block_sensors b))"
  proof -
    have "set (take k names) = set (map fst (block_sensors b))"
      using that run(3) by simp
    then have "?part k = block_map dv b"
      using block_map_listed [of dv b] name_listed [of _ "block_sensors b"]
      by (auto simp: restrict_map_def fun_eq_iff) (metis not_Some_eq)
    then show ?thesis by simp
  qed
  show ?thesis
    using run le ext full d(1)
    by (intro exI [of _ stop] exI [of _ ctx'] exI [of _ "m ++ ?part k"]) (simp add: optional_block_def)
qed

locale device_transport = transport T for T :: "'s transport" +
  fixes dv :: device
  assumes device_reads: "q \<le> 127 \<Longrightarrow>
    \<exists>r s'. tr_ReadRegisters T a q s = Ret (r, s') \<and> device_result dv a q r"
begin

lemma device_read_ok:
  assumes "over T e" "q \<le> 127"
  shows "\<exists>r e'. read_transport e a q = Ret (r, e') \<and> over T e' \<and> device_result dv a q r \<and>
           (\<forall>d. r = Inr d \<longrightarrow> 82 \<le> sl_cap d)"
proof -
  obtain s where s: "iv_transport e = Some (T, s)" using assms by (auto simp: over_def)
  obtain r s' where "tr_ReadRegisters T a q s = Ret (r, s')" "device_result dv a q r"
    using device_reads [OF assms(2)] by blast
  then show ?thesis
    using read_ok [OF assms(1), of a q] by (simp add: read_transport_def s)
qed

lemma plain_block_read:
  assumes "over T e" "b \<noteq> BlockMeter"
  shows "\<exists>r e'. read_transport e (block_start b) (block_count b) = Ret (r, e') \<and> over T e' \<and>
           block_result dv b r"
proof -
  have "block_count b \<le> 127" by (cases b) (simp_all add: block_consts)
  then show ?thesis
    using device_read_ok [OF assms(1), of "block_count b" "block_start b"] assms(2)
    by (fastforce simp: device_result_def block_result_def device_block_def split: if_splits)
qed

lemma meter_reads:
  assumes "over T e"
  obtains r1 e1 r2 e2 r3 e3 where
    "read_transport e meterRegistersOffset meterRegistersCount = Ret (r1, e1)"
    "read_transport e1 meterRegistersOffset meterRegistersCountFallb1 = Ret (r2, e2)"
    "read_transport e2 meterRegistersOffset meterRegistersCountFallb2 = Ret (r3, e3)"
    "over T e1" "over T e2" "over T e3"
    "device_result dv meterRegistersOffset meterRegistersCount r1"
    "device_result dv meterRegistersOffset meterRegistersCountFallb1 r2"
    "device_result dv meterRegistersOffset meterRegistersCountFallb2 r3"
    "\<forall>d. r1 = Inr d \<or> r2 = Inr d \<or> r3 = Inr d \<longrightarrow> 82 \<le> sl_cap d"
proof -
  have q: "meterRegistersCount \<le> 127" "meterRegistersCountFallb1 \<le> 127"
    "meterRegistersCountFallb2 \<le> 127" by (simp_all add: block_consts)
  obtain r1 e1 where 1: "read_transport e meterRegistersOffset meterRegistersCount = Ret (r1, e1)"
      "over T e1" "device_result dv meterRegistersOffset meterRegistersCount r1"
      "\<forall>d. r1 = Inr d \<longrightarrow> 82 \<le> sl_cap d"
    using device_read_ok [OF assms q(1)] by blast
  obtain r2 e2 where 2: "read_transport e1 meterRegistersOffset meterRegistersCountFallb1 = Ret (r2, e2)"
      "over T e2" "device_result dv meterRegistersOffset meterRegistersCountFallb1 r2"
      "\<forall>d. r2 = Inr d \<longrightarrow> 82 \<le> sl_cap d"
    using device_read_ok [OF 1(2) q(2)] by blast
  obtain r3 e3 where 3: "read_transport e2 meterRegistersOffset meterRegistersCountFallb2 = Ret (r3, e3)"
      "over T e3" "device_result dv meterRegistersOffset meterRegistersCountFallb2 r3"
      "\<forall>d. r3 = Inr d \<longrightarrow> 82 \<le> sl_cap d"
    using device_read_ok [OF 2(2) q(3)] by blast
  show thesis by (rule that [OF 1(1) 2(1) 3(1) 1(2) 2(2) 3(2) 1(3) 2(3) 3(3)]) (use 1 2 3 in blast)
qed

lemma device_absent: "isIllegalDataAddress (exception_error 0x83 2)"
  by (simp add: exception_error_class)

lemma read_meter_block:
  assumes "over T e"
  shows "\<exists>r e'. read_meter e = Ret (r, e') \<and> over T e' \<and> block_result dv BlockMeter r"
  using assms
proof (rule meter_reads, goal_cases)
  case (1 r1 e1 r2 e2 r3 e3)
  then show ?case
    by (auto simp: read_meter_def device_result_def block_result_def device_block_def device_absent
        split: if_splits)
qed

lemma read_sensor_meter:
  assumes "over T e"
  shows "\<exists>r e'. read_sensor_block e (block_entry BlockMeter def) = Ret (r, e') \<and> over T e' \<and>
           block_result dv BlockMeter r"
proof -
  have qty: "fallbackQty meterRegistersCount = meterRegistersCountFallb1" "0 < meterRegistersCountFallb1"
    by (simp_all add: fallbackQty_def block_consts)
  show ?thesis
    using assms
  proof (rule meter_reads, goal_cases)
    case (1 r1 e1 r2 e2 r3 e3)
    then show ?case
      by (auto simp: read_sensor_block_def block_entry_def readOnceWithFallback_def Let_def qty
          device_result_def block_result_def device_block_def device_absent split: if_splits)
  qed
qed

lemma read_sensor_block_device:
  assumes "over T e"
  shows "\<exists>r e'. read_sensor_block e (block_entry b def) = Ret (r, e') \<and> over T e' \<and>
           block_result dv b r"
proof (cases "b = BlockMeter")
  case False
  obtain r e' where "read_transport e (block_start b) (block_count b) = Ret (r, e')" "over T e'"
      "block_result dv b r"
    using plain_block_read [OF assms False] by blast
  with False show ?thesis
    by (cases r) (simp_all add: read_sensor_block_def block_entry_def readOnceWithFallback_def)
qed (use read_sensor_meter [OF assms] in simp)

lemma GetSensors_device:
  assumes "over T e" "device_block dv BlockMain \<noteq> None"
  shows "\<exists>m err e'. GetSensors order ctx e = Ret ((Some m, err), e') \<and> over T e' \<and>
           m \<subseteq>\<^sub>m device_sensors dv \<and> (err = None \<or> err = Some (ctx_err ctx)) \<and>
           (ctx_left ctx = None \<longrightarrow> err = None) \<and>
           (err = None \<and> (\<forall>b. set (order b) = set (map fst (block_sensors b)))
              \<longrightarrow> device_sensors dv \<subseteq>\<^sub>m m)"
proof -
  let ?D = "device_sensors dv"
  obtain r1 e1 where 1: "read_transport e baseRegistersOffset baseRegistersCount = Ret (r1, e1)"
      "over T e1" "block_result dv BlockMain r1"
    using plain_block_read [OF assms(1), of BlockMain] by auto
  obtain r2 e2 where 2: "read_transport e1 batteryRegistersOffset batteryRegistersCount = Ret (r2, e2)"
      "over T e2" "block_result dv BlockBattery r2"
    using plain_block_read [OF 1(2), of BlockBattery] by auto
  obtain r3 e3 where 3: "read_meter e2 = Ret (r3, e3)" "over T e3" "block_result dv BlockMeter r3"
    using read_meter_block [OF 2(2)] by blast
  obtain r4 e4 where 4: "read_transport e3 mpptRegistersOffset mpptRegistersCount = Ret (r4, e4)"
      "over T e4" "block_result dv BlockMPPT r4"
    using plain_block_read [OF 3(2), of BlockMPPT] by auto
  obtain d where d: "r1 = Inr d" using 1(3) assms(2) by (auto simp: block_result_def)
  obtain s1 c1 m1 where k1: "optional_block (block_sensors BlockMain) (order BlockMain) r1 ctx Map.empty
        = Ret (s1, c1, m1)"
      "m1 \<subseteq>\<^sub>m ?D" "ctx_err c1 = ctx_err ctx"
      "ctx_left ctx = None \<longrightarrow> \<not> s1 \<and> ctx_left c1 = None"
      "\<not> s1 \<and> set (order BlockMain) = set (map fst (block_sensors BlockMain))
         \<longrightarrow> block_map dv BlockMain \<subseteq>\<^sub>m m1"
    using optional_block_spec [OF 1(3) map_le_empty, of "order BlockMain" ctx] by (elim exE conjE) (rule that)
  obtain s2 c2 m2 where k2: "optional_block (block_sensors BlockBattery) (order BlockBattery) r2 c1 m1
        = Ret (s2, c2, m2)"
      "m2 \<subseteq>\<^sub>m ?D" "m1 \<subseteq>\<^sub>m m2" "ctx_err c2 = ctx_err c1"
      "ctx_left c1 = None \<longrightarrow> \<not> s2 \<and> ctx_left c2 = None"
      "\<not> s2 \<and> set (order BlockBattery) = set (map fst (block_sensors BlockBattery))
         \<longrightarrow> block_map dv BlockBattery \<subseteq>\<^sub>m m2"
    using optional_block_spec [OF 2(3) k1(2), of "order BlockBattery" c1] by (elim exE conjE) (rule that)
  obtain s3 c3 m3 where k3: "optional_block (block_sensors BlockMeter) (order BlockMeter) r3 c2 m2
        = Ret (s3, c3, m3)"
      "m3 \<subseteq>\<^sub>m ?D" "m2 \<subseteq>\<^sub>m m3" "ctx_err c3 = ctx_err c2"
      "ctx_left c2 = None \<longrightarrow> \<not> s3 \<and> ctx_left c3 = None"
      "\<not> s3 \<and> set (order BlockMeter) = set (map fst (block_sensors BlockMeter))
         \<longrightarrow> block_map dv BlockMeter \<subseteq>\<^sub>m m3"
    using optional_block_spec [OF 3(3) k2(2), of "order BlockMeter" c2] by (elim exE conjE) (rule that)
  obtain s4 c4 m4 where k4: "optional_block (block_sensors BlockMPPT) (order BlockMPPT) r4 c3 m3
        = Ret (s4, c4, m4)"
      "m4 \<subseteq>\<^sub>m ?D" "m3 \<subseteq>\<^sub>m m4" "ctx_err c4 = ctx_err c3"
      "ctx_left c3 = None \<longrightarrow> \<not> s4 \<and> ctx_left c4 = None"
      "\<not> s4 \<and> set (order BlockMPPT) = set (map fst (block_sensors BlockMPPT))
         \<longrightarrow> block_map dv BlockMPPT \<subseteq>\<^sub>m m4"
    using optional_block_spec [OF 4(3) k3(2), of "order BlockMPPT" c3] by (elim exE conjE) (rule that)
  have main: "decode_block registry d (order BlockMain) ctx Map.empty = Ret (s1, c1, m1)"
    using k1(1) by (simp add: optional_block_def d)
  have run: "GetSensors order ctx e = Ret
      (if s1 then ((Some m1, Some (ctx_err c1)), e1)
       else if s2 then ((Some m2, Some (ctx_err c2)), e2)
       else if s3 then ((Some m3, Some (ctx_err c3)), e3)
       else if s4 then ((Some m4, Some (ctx_err c4)), e4)
       else ((Some m4, None), e4))"
    using 1(1) 2(1) 3(1) 4(1) main k2(1) k3(1) k4(1)
    by (simp add: GetSensors_def readOnceWithFallback_def d)
  have all: "?D \<subseteq>\<^sub>m m4" if "\<not> s1" "\<not> s2" "\<not> s3" "\<not> s4"
      "\<forall>b. set (order b) = set (map fst (block_sensors b))"
  proof -
    have 12: "m1 \<subseteq>\<^sub>m m2" and 23: "m2 \<subseteq>\<^sub>m m3" and 34: "m3 \<subseteq>\<^sub>m m4"
      by (fact k2(3), fact k3(3), fact k4(3))
    have "block_map dv BlockMain \<subseteq>\<^sub>m m1" "block_map dv BlockBattery \<subseteq>\<^sub>m m2"
      "block_map dv BlockMeter \<subseteq>\<^sub>m m3" "block_map dv BlockMPPT \<subseteq>\<^sub>m m4"
      using k1(5) k2(6) k3(6) k4(6) that by simp_all
    then have "block_map dv b \<subseteq>\<^sub>m m4" for b
      by (cases b) (simp_all add: map_le_trans [OF _ 34] map_le_trans [OF map_le_trans [OF _ 23] 34]
          map_le_trans [OF map_le_trans [OF map_le_trans [OF _ 12] 23] 34])
    then show ?thesis
      unfolding map_le_def using device_sensors_iff by (metis domIff not_Some_eq)
  qed
  have err: "ctx_err c2 = ctx_err ctx" "ctx_err c3 = ctx_err ctx" "ctx_err c4 = ctx_err ctx"
    using k1(3) k2(4) k3(4) k4(4) by simp_all
  have live: "\<not> s1 \<and> \<not> s2 \<and> \<not> s3 \<and> \<not> s4" if "ctx_left ctx = None"
    using that k1(4) k2(5) k3(5) k4(5) by blast
  have stopped: ?thesis
    if "GetSensors order ctx e = Ret ((Some m, Some (ctx_err ctx)), e')" "over T e'"
      "m \<subseteq>\<^sub>m ?D" "ctx_left ctx \<noteq> None" for m e'
    using that by (intro exI [of _ m] exI [of _ "Some (ctx_err ctx)"] exI [of _ e']) simp
  consider "s1" | "\<not> s1" "s2" | "\<not> s1" "\<not> s2" "s3" | "\<not> s1" "\<not> s2" "\<not> s3" "s4"
    | "\<not> s1" "\<not> s2" "\<not> s3" "\<not> s4" by blast
  then show ?thesis
  proof cases
    case 1
    then show ?thesis by (intro stopped [of m1 e1]) (use run live k1(2,3) \<open>over T e1\<close> in auto)
  next
    case 2
    then show ?thesis by (intro stopped [of m2 e2]) (use run live k2(2) err \<open>over T e2\<close> in auto)
  next
    case 3
    then show ?thesis by (intro stopped [of m3 e3]) (use run live k3(2) err \<open>over T e3\<close> in auto)
  next
    case 4
    then show ?thesis by (intro stopped [of m4 e4]) (use run live k4(2) err \<open>over T e4\<close> in auto)
  next
    case 5
    with run all k4(2) \<open>over T e4\<close> show ?thesis
      by (intro exI [of _ m4] exI [of _ None] exI [of _ e4]) simp
  qed
qed

lemma ReadSensor_device:
  assumes "over T e"
  shows "\<exists>r e'. ReadSensor name e = Ret (r, e') \<and> over T e' \<and>
           (\<forall>v. r = Inr v \<longleftrightarrow> device_sensors dv name = Some v)"
proof (cases "sensorLookup name")
  case (Some sb)
  obtain b d where bd: "(name, d) \<in> set (block_sensors b)" "sb = block_entry b d"
    using sensorLookup_block [OF Some] by blast
  obtain r e' where r: "read_sensor_block e (block_entry b d) = Ret (r, e')" "over T e'"
      "block_result dv b r"
    using read_sensor_block_device [OF assms] by blast
  have listed: "map_of (block_sensors b) name = Some d"
    using bd(1) by (simp add: map_of_block)
  show ?thesis
  proof (cases "device_block dv b")
    case None
    then obtain err where "r = Inl err" using r(3) by (auto simp: block_result_def)
    with r None show ?thesis
      by (simp add: ReadSensor_def Some bd(2) device_sensors_def block_map_def)
        (simp add: block_entry_def None)
  next
    case (Some bs)
    then obtain s where s: "r = Inr s" "sl_data s = bs" "82 \<le> sl_cap s"
      using r(3) by (auto simp: block_result_def)
    obtain v where v: "sd_Calculator d s = Ret v"
      using all_return_mem [OF block_returns [OF s(3)] bd(1)] by (auto simp: returns_iff)
    have "block_map dv b name = Some (sensor_value d v)"
      using v by (simp flip: decoded_block [OF Some s(2)] add: decoded_def listed)
    then show ?thesis
      using r s v \<open>sensorLookup name = Some sb\<close>
      by (auto simp: ReadSensor_def bd(2) device_sensors_def) (simp_all add: block_entry_def)
  qed
qed (use assms in \<open>simp add: ReadSensor_def device_sensors_def\<close>)

end

interpretation tcp_device: device_transport "tcp_transport (device_network (tcp_answer dv))" dv
  for dv :: device
  by unfold_locales (use tcp_device_read in \<open>simp add: tcp_transport_def\<close>)

interpretation dtls_device: device_transport "dtls_transport (device_network (rtu_answer dv))" dv
  for dv :: device
  by unfold_locales (use dtls_device_read in \<open>simp add: dtls_transport_def\<close>)

section \<open>Device strings\<close>

definition printable :: "char \<Rightarrow> bool" where
  "printable c \<longleftrightarrow> 32 \<le> (of_char c :: nat) \<and> (of_char c :: nat) \<le> 126"

definition ascii_bytes :: "string \<Rightarrow> byte list" where
  "ascii_bytes s = map (\<lambda>c. of_nat (of_char c)) s"

definition utf16_bytes :: "string \<Rightarrow> byte list" where
  "utf16_bytes s = concat (map (\<lambda>c. [0, of_nat (of_char c)]) s)"

lemma unat_of_char: "printable c \<Longrightarrow> unat (of_nat (of_char c) :: byte) = of_char c"
  by (simp add: printable_def unat_of_nat_byte)

lemma printable_byte:
  assumes "printable c"
  shows "32 \<le> (of_nat (of_char c) :: byte)" "(of_nat (of_char c) :: byte) \<le> 126"
  using assms unat_of_char [OF assms] by (simp_all add: word_le_nat_alt printable_def)

lemma bytes_string_ascii: "list_all printable s \<Longrightarrow> bytes_string (ascii_bytes s) = s"
  by (induction s) (simp_all add: bytes_string_def ascii_bytes_def unat_of_char)

lemma be16_zero: "be16 0 b = ucast b"
  by (simp add: be16_def)

lemma utf8_ascii:
  assumes "b \<le> 126"
  shows "utf8_rune (ucast (b :: byte)) = [b]"
proof -
  have "(ucast b :: u16) < 128"
    using assms unat_byte_less [of b]
    by (simp add: word_less_nat_alt word_le_nat_alt unsigned_ucast_eq take_bit_nat_eq_self)
  moreover have "(ucast (ucast b :: u16) :: byte) = b"
    by (rule bit_word_eqI) (simp add: bit_simps)
  ultimately show ?thesis by (simp add: utf8_rune_def)
qed

lemma utf16_runes_ascii:
  assumes "list_all printable s"
  shows "utf16_runes (utf16_bytes s @ replicate (2 * k) 0) = map ucast (ascii_bytes s)"
  using assms
proof (induction s)
  case Nil
  have "utf16_runes (replicate (2 * k) 0) = []"
    by (induction k) (simp_all add: be16_def)
  then show ?case by (simp add: utf16_bytes_def ascii_bytes_def)
next
  case (Cons c s)
  have "(of_nat (of_char c) :: byte) \<noteq> 0"
    using printable_byte(1) [of c] Cons.prems by (auto simp: word_le_nat_alt)
  then have "(ucast (of_nat (of_char c) :: byte) :: u16) \<noteq> 0"
    using ucast_byte_inj [of "of_nat (of_char c)" 0] by simp
  with Cons show ?case
    by (simp add: utf16_bytes_def ascii_bytes_def be16_zero)
qed

lemma trimmed: "s = [] \<or> last s \<noteq> CHR '' '' \<Longrightarrow> list_all printable s \<Longrightarrow> TrimRight s trim_cutset = s"
  by (rule TrimRight_id)
    (auto simp: trim_cutset_def list_all_iff printable_def dest: bspec [OF _ last_in_set])

lemma decode_ascii:
  assumes "list_all printable s" "s = [] \<or> last s \<noteq> CHR '' ''"
  shows "decodeGoodweString (ascii_bytes s @ replicate k 32) = s"
proof -
  have bytes: "\<forall>b \<in> set (ascii_bytes s @ replicate k 32). 32 \<le> b \<and> b \<le> 126"
    using assms(1) printable_byte by (auto simp: ascii_bytes_def list_all_iff)
  then have "\<not> list_ex (\<lambda>b. b < 32 \<or> b > 126) (ascii_bytes s @ replicate k 32)"
    "\<not> list_ex (\<lambda>b. b < 32) (ascii_bytes s @ replicate k 32)"
    unfolding list_ex_iff by (metis not_le)+
  moreover have "bytes_string (ascii_bytes s @ replicate k 32) = s @ replicate k (CHR '' '')"
    using bytes_string_ascii [OF assms(1)] by (simp add: bytes_string_def char_of_def bit_simps)
  moreover have "TrimRight (s @ replicate k (CHR '' '')) trim_cutset = s"
    using trimmed [OF assms(2,1)] by (subst TrimRight_append) (auto simp: trim_cutset_def)
  ultimately show ?thesis by (simp only: decodeGoodweString_def if_False)
qed

lemma decode_utf16:
  assumes "list_all printable s" "s = [] \<or> last s \<noteq> CHR '' ''"
  shows "decodeGoodweString (utf16_bytes s @ replicate (2 * k) 0) = s"
proof -
  have low: "list_ex (\<lambda>b. b < 32) (utf16_bytes s @ replicate (2 * k) 0) \<or> s = [] \<and> k = 0"
    by (cases s; cases k) (simp_all add: utf16_bytes_def)
  have "concat (map utf8_rune (map ucast (ascii_bytes s))) = ascii_bytes s"
    using assms(1) printable_byte(2)
    by (induction s) (simp_all add: ascii_bytes_def utf8_ascii)
  then have "bytes_string (concat (map utf8_rune (utf16_runes (utf16_bytes s @ replicate (2 * k) 0)))) = s"
    unfolding utf16_runes_ascii [OF assms(1)] by (simp only: bytes_string_ascii [OF assms(1)])
  then show ?thesis
    using low trimmed [OF assms(2,1)]
    by (auto simp: decodeGoodweString_def utf16_bytes_def bytes_string_def TrimRight_def)
qed

lemma info_of_serial:
  assumes "66 \<le> sl_len d"
  shows "\<exists>i. info_of d = Ret i \<and>
    in_SerialNumber i = decodeGoodweString (take 16 (drop 6 (sl_data d))) \<and>
    in_RatedPower i = uint (be16 (sl_data d ! 2) (sl_data d ! 3))"
proof -
  obtain i where i: "info_of d = Ret i"
    using info_of_ok [OF assms] by (auto simp: returns_iff)
  then show ?thesis
    using assms by (auto simp: info_of_def decode_at_def window u16_at_Ret Let_def obind_Ret_iff)
qed

section \<open>Properties\<close>

abbreviation tcp_device_inverter :: "string \<Rightarrow> device \<Rightarrow> tcpTransport \<times> byte list \<Rightarrow> (tcpTransport \<times> byte list) inverter" where
  "tcp_device_inverter serial dv s \<equiv>
     NewWithTransport serial (tcp_transport (device_network (tcp_answer dv)), s)"

abbreviation dtls_device_inverter :: "string \<Rightarrow> device \<Rightarrow> dtlsTransport \<times> byte list \<Rightarrow> (dtlsTransport \<times> byte list) inverter" where
  "dtls_device_inverter serial dv s \<equiv>
     NewWithTransport serial (dtls_transport (device_network (rtu_answer dv)), s)"

lemma over_new [simp]: "over T (NewWithTransport serial (T, s))"
  by (simp add: over_def NewWithTransport_def)

text \<open>
  C26: No operation of an inverter panics, over either transport, whatever the network does, whatever
  it delivers, whenever the context is cancelled and in whatever order Go iterates the tables. The
  unchecked slices of two calculators are safe only because the response buffer is far larger than
  any payload.
\<close>

theorem inverter_never_panics:
  assumes "over (tcp_transport net) e \<and> over (dtls_transport net') e'"
  shows "returns (Connect e) \<and> returns (Close e) \<and> returns (GetInfo e) \<and>
         returns (GetSensors order ctx e) \<and> returns (ReadSensor name e) \<and>
         returns (Connect e') \<and> returns (Close e') \<and> returns (GetInfo e') \<and>
         returns (GetSensors order ctx e') \<and> returns (ReadSensor name e')"
  using assms
    tcp.Connect_ok [of net e] tcp.Close_ok [of net e] tcp.GetInfo_ok [of net e]
    tcp.GetSensors_ok [of net e order ctx] tcp.ReadSensor_ok [of net e name]
    dtls.Connect_ok [of net' e'] dtls.Close_ok [of net' e'] dtls.GetInfo_ok [of net' e']
    dtls.GetSensors_ok [of net' e' order ctx] dtls.ReadSensor_ok [of net' e' name]
  by auto

lemma inverter_never_panics_witness:
  "returns (GetSensors (\<lambda>_. []) \<lparr>ctx_left = Some 3, ctx_err = Errorf ''context canceled''\<rparr>
     (NewWithTransport ''sn'' (tcp_transport (device_network id), (NewTCPTransport ''inv'' 502, []))))"
  using inverter_never_panics [of "device_network id"
      "NewWithTransport ''sn'' (tcp_transport (device_network id), (NewTCPTransport ''inv'' 502, []))"
      "device_network id"
      "NewWithTransport ''sn'' (dtls_transport (device_network id), (NewDTLSTransport ''inv'' 8899, []))"]
  by simp

lemma tcp_device_values:
  assumes "device_block dv BlockMain \<noteq> None" "ctx_left ctx = None"
    and "\<forall>b. set (order b) = set (map fst (block_sensors b))"
  shows "\<exists>e'. GetSensors order ctx (tcp_device_inverter serial dv s)
           = Ret ((Some (device_sensors dv), None), e')"
proof -
  obtain m e' where "GetSensors order ctx (tcp_device_inverter serial dv s) = Ret ((Some m, None), e')"
      "m \<subseteq>\<^sub>m device_sensors dv" "device_sensors dv \<subseteq>\<^sub>m m"
    using tcp_device.GetSensors_device [OF over_new assms(1), of order ctx serial s] assms(2,3)
    by auto
  then show ?thesis by (metis map_le_antisym)
qed

lemma dtls_device_values:
  assumes "device_block dv BlockMain \<noteq> None" "ctx_left ctx = None"
    and "\<forall>b. set (order b) = set (map fst (block_sensors b))"
  shows "\<exists>e'. GetSensors order ctx (dtls_device_inverter serial dv s)
           = Ret ((Some (device_sensors dv), None), e')"
proof -
  obtain m e' where "GetSensors order ctx (dtls_device_inverter serial dv s) = Ret ((Some m, None), e')"
      "m \<subseteq>\<^sub>m device_sensors dv" "device_sensors dv \<subseteq>\<^sub>m m"
    using dtls_device.GetSensors_device [OF over_new assms(1), of order ctx serial s] assms(2,3)
    by auto
  then show ?thesis by (metis map_le_antisym)
qed

text \<open>
  C6: Over a device that has the main block, \<open>GetSensors\<close> gives exactly the values that the tables
  assign to the device's registers, of every block the device has and of the meter in the longest
  of the three lengths the device answers, whatever order Go iterates the tables in.
\<close>

theorem GetSensors_device_values:
  assumes "device_block dv BlockMain \<noteq> None" "ctx_left ctx = None"
    and "\<forall>b. set (order b) = set (map fst (block_sensors b))"
  shows "(\<exists>e'. GetSensors order ctx (tcp_device_inverter serial dv s)
             = Ret ((Some (device_sensors dv), None), e')) \<and>
         (\<exists>e'. GetSensors order ctx (dtls_device_inverter serial dv u)
             = Ret ((Some (device_sensors dv), None), e'))"
  using tcp_device_values [OF assms] dtls_device_values [OF assms] by simp

definition full_order :: "blockType \<Rightarrow> string list" where
  "full_order b = map fst (block_sensors b)"

definition demo_device :: device where
  "demo_device = \<lparr>dv_regs = (\<lambda>_. 0), dv_has = (\<lambda>a q. a \<noteq> 36000 \<or> q \<le> 58)\<rparr>"

lemma GetSensors_device_values_witness:
  "\<exists>e'. GetSensors full_order \<lparr>ctx_left = None, ctx_err = ErrUnsupported\<rparr>
     (tcp_device_inverter ''sn'' demo_device (NewTCPTransport ''inv'' 502, []))
       = Ret ((Some (device_sensors demo_device), None), e') \<and>
     device_block demo_device BlockMeter = Some (registers demo_device 36000 58)"
  using GetSensors_device_values [of demo_device "\<lparr>ctx_left = None, ctx_err = ErrUnsupported\<rparr>" full_order
      "''sn''" "(NewTCPTransport ''inv'' 502, [])"]
  by (simp add: full_order_def device_block_def demo_device_def block_consts)

text \<open>
  When the context is cancelled during \<open>GetSensors\<close>, the call returns the context's error, and
  every value in the map it returns beside it is the right one for the device.
\<close>

theorem GetSensors_cancelled:
  assumes "device_block dv BlockMain \<noteq> None"
    and "GetSensors order ctx (tcp_device_inverter serial dv s) = Ret ((m, err), e')"
  shows "(err = None \<or> err = Some (ctx_err ctx) \<and> ctx_left ctx \<noteq> None) \<and>
         (\<exists>m'. m = Some m' \<and> m' \<subseteq>\<^sub>m device_sensors dv)"
  using tcp_device.GetSensors_device [OF over_new assms(1), of order ctx serial s] assms(2) by auto

lemma GetSensors_cancelled_witness:
  "\<exists>e'. GetSensors full_order \<lparr>ctx_left = Some 0, ctx_err = Errorf ''context canceled''\<rparr>
     (tcp_device_inverter ''sn'' demo_device (NewTCPTransport ''inv'' 502, []))
       = Ret ((Some Map.empty, Some (Errorf ''context canceled'')), e') \<and>
     Map.empty \<subseteq>\<^sub>m device_sensors demo_device"
proof -
  let ?ctx = "\<lparr>ctx_left = Some 0, ctx_err = Errorf ''context canceled''\<rparr>"
  let ?e = "tcp_device_inverter ''sn'' demo_device (NewTCPTransport ''inv'' 502, [])"
  have main: "device_block demo_device BlockMain \<noteq> None"
    by (simp add: device_block_def demo_device_def block_consts)
  obtain n ns where order: "full_order BlockMain = n # ns"
    using block_sensors_nonempty [of BlockMain]
    by (cases "full_order BlockMain") (simp_all add: full_order_def)
  obtain m err e' where run: "GetSensors full_order ?ctx ?e = Ret ((m, err), e')"
    using tcp_device.GetSensors_device [OF over_new main, of full_order ?ctx "''sn''"
        "(NewTCPTransport ''inv'' 502, [])"] by auto
  obtain r e1 where rd: "readOnceWithFallback ?e baseRegistersOffset baseRegistersCount = Ret (r, e1)"
      "block_result demo_device BlockMain r"
    using tcp_device.plain_block_read [OF over_new [of "tcp_transport (device_network (tcp_answer demo_device))"],
        of BlockMain "''sn''" "(NewTCPTransport ''inv'' 502, [])"]
    by (auto simp: readOnceWithFallback_def)
  obtain d where d: "r = Inr d" using rd(2) main by (auto simp: block_result_def)
  have "GetSensors full_order ?ctx ?e = Ret ((Some Map.empty, Some (Errorf ''context canceled'')), e1)"
    by (simp add: GetSensors_def rd(1) d order ctx_done_def)
  with run GetSensors_cancelled [OF main run] show ?thesis by auto
qed

text \<open>
  Reading one sensor agrees with reading all of them: over any device, \<open>ReadSensor\<close> succeeds for
  a name exactly when the device has the sensor's block, with the value that \<open>GetSensors\<close> reports
  for it, and otherwise returns an error; so does it for a name that no table lists.
\<close>

theorem ReadSensor_device_value:
  "(\<exists>r e'. ReadSensor name (tcp_device_inverter serial dv s) = Ret (r, e') \<and>
      (\<forall>v. r = Inr v \<longleftrightarrow> device_sensors dv name = Some v)) \<and>
   (\<exists>r e'. ReadSensor name (dtls_device_inverter serial dv u) = Ret (r, e') \<and>
      (\<forall>v. r = Inr v \<longleftrightarrow> device_sensors dv name = Some v))"
  using tcp_device.ReadSensor_device [OF over_new, of name serial dv s]
    dtls_device.ReadSensor_device [OF over_new, of name serial dv u] by blast

text \<open>
  C27: A string field of the device information decodes to the string stored in it, in both
  encodings the devices use: ASCII padded with blanks and big-endian UTF-16 padded with zeros.
\<close>

theorem decodeGoodweString_round_trip:
  assumes "list_all printable s" "s = [] \<or> last s \<noteq> CHR '' ''"
  shows "decodeGoodweString (ascii_bytes s @ replicate k 32) = s \<and>
         decodeGoodweString (utf16_bytes s @ replicate (2 * k) 0) = s"
  using decode_ascii [OF assms] decode_utf16 [OF assms] by simp

lemma decodeGoodweString_round_trip_witness:
  "decodeGoodweString [71, 87, 49, 48, 75, 32] = ''GW10K'' \<and>
   decodeGoodweString [0, 71, 0, 87, 0, 0] = ''GW''"
  using decodeGoodweString_round_trip [of "''GW10K''" 1] decodeGoodweString_round_trip [of "''GW''" 1]
  by (simp add: printable_def ascii_bytes_def utf16_bytes_def numeral_2_eq_2)

text \<open>
  \<open>GetInfo\<close> over a device gives the serial number and the rated power stored in the device's
  identity registers, and when the device does not have these registers it still succeeds, with the
  serial number found by the discovery and nothing else.
\<close>

theorem GetInfo_device:
  assumes "take 16 (drop 6 (registers dv 35000 33)) = ascii_bytes sn @ replicate k 32"
    and "list_all printable sn" "sn = [] \<or> last sn \<noteq> CHR '' ''"
  shows "\<exists>i e'. GetInfo (tcp_device_inverter serial dv s) = Ret (i, e') \<and>
    (if dv_has dv 35000 33
     then in_SerialNumber i = sn \<and> in_RatedPower i = uint (dv_regs dv 35001)
     else i = \<lparr>in_SerialNumber = serial, in_Model = '''', in_Firmware = '''', in_RatedPower = 0,
               in_DSPVersion = '''', in_ARMVersion = ''''\<rparr>)"
proof -
  obtain r e' where r: "read_transport (tcp_device_inverter serial dv s) 35000 33 = Ret (r, e')"
      "device_result dv 35000 33 r"
    using tcp_device.device_read_ok [OF over_new, of 33 serial dv s 35000] by auto
  show ?thesis
  proof (cases "dv_has dv 35000 33")
    case True
    then obtain d where d: "r = Inr d" "sl_data d = registers dv 35000 33"
      using r(2) by (auto simp: device_result_def)
    then have len: "sl_len d = 66" by (simp add: sl_len_def)
    then obtain i where i: "info_of d = Ret i"
        "in_SerialNumber i = decodeGoodweString (take 16 (drop 6 (sl_data d)))"
        "in_RatedPower i = uint (be16 (sl_data d ! 2) (sl_data d ! 3))"
      using info_of_serial [of d] by auto
    have "in_SerialNumber i = sn"
      unfolding i(2) d(2) assms(1) by (rule decode_ascii [OF assms(2,3)])
    moreover have "be16 (sl_data d ! 2) (sl_data d ! 3) = dv_regs dv 35001"
      by (simp add: d(2) registers_def put_be16_def upt_rec)
    ultimately show ?thesis
      using r(1) i len True by (simp add: GetInfo_def d(1))
  next
    case False
    with r show ?thesis
      by (simp add: GetInfo_def device_result_def) (simp add: NewWithTransport_def)
  qed
qed

lemma GetInfo_device_witness:
  "\<exists>i e'. GetInfo (tcp_device_inverter ''x'' \<lparr>dv_regs = (\<lambda>r. if r = 35001 then 8000 else 0x4747),
       dv_has = (\<lambda>_ _. True)\<rparr> (NewTCPTransport ''inv'' 502, [])) = Ret (i, e') \<and>
     in_SerialNumber i = ''GGGGGGGGGGGGGGGG'' \<and> in_RatedPower i = 8000"
proof -
  let ?dv = "\<lparr>dv_regs = (\<lambda>r. if r = 35001 then 8000 else 0x4747), dv_has = (\<lambda>_ _. True)\<rparr> :: device"
  have "take 16 (drop 6 (registers ?dv 35000 33)) = ascii_bytes ''GGGGGGGGGGGGGGGG'' @ replicate 0 32"
    by (simp add: registers_def put_be16_def upt_rec ascii_bytes_def)
  from GetInfo_device [OF this, of "''x''" "(NewTCPTransport ''inv'' 502, [])"] show ?thesis
    by (simp add: printable_def)
qed

end
