(* ===== verification/Store.thy ===== *)
theory Store
  imports Go_Float Go_Strings
begin

text \<open>
  The database layer, \<open>pkg/db/store.go\<close>. The database is its tables, as lists of rows in the order of
  their row ids, and an SQL statement of the code is an operation on these lists. Every statement
  may fail instead, with any error and without an effect: the n-th statement fails when \<open>db_faults n\<close>
  says so. Points in time are nanoseconds since 1970-01-01 UTC; the code stores UTC times only, whose
  text form orders as the times do. What SQL's \<open>AVG\<close> computes is a parameter of the database.
\<close>

section \<open>Rows\<close>

type_synonym gotime_ns = int

definition Hour :: int where "Hour = 3600 * 10 ^ 9"
definition Day :: int where "Day = 24 * Hour"

text \<open>\<open>t.Truncate(d)\<close>, for a divisor of the time from year 1 to 1970.\<close>

definition Truncate :: "int \<Rightarrow> gotime_ns \<Rightarrow> gotime_ns" where
  "Truncate d t = t - t mod d"

text \<open>\<open>t.Format(time.RFC3339)\<close> of a UTC time: the civil date of the day, then the time of day.\<close>

definition civil_date :: "int \<Rightarrow> int \<times> int \<times> int" where
  "civil_date days =
     (let z = days + 719468; era = z div 146097; doe = z mod 146097;
          yoe = (doe - doe div 1460 + doe div 36524 - doe div 146096) div 365;
          doy = doe - (365 * yoe + yoe div 4 - yoe div 100);
          mp = (5 * doy + 2) div 153;
          d = doy - (153 * mp + 2) div 5 + 1;
          m = (if mp < 10 then mp + 3 else mp - 9);
          y = yoe + era * 400 + (if m \<le> 2 then 1 else 0)
      in (y, m, d))"

definition pad :: "nat \<Rightarrow> int \<Rightarrow> string" where
  "pad n i = (let s = show_int i in replicate (n - length s) (CHR ''0'') @ s)"

definition RFC3339 :: "gotime_ns \<Rightarrow> string" where
  "RFC3339 t =
     (case civil_date (t div Day) of (y, m, d) \<Rightarrow>
      let s = (t mod Day) div 10 ^ 9 in
      pad 4 y @ ''-'' @ pad 2 m @ ''-'' @ pad 2 d @ ''T'' @ pad 2 (s div 3600) @ '':''
      @ pad 2 (s div 60 mod 60) @ '':'' @ pad 2 (s mod 60) @ ''Z'')"

record inverterIdentity =
  id_Serial :: string
  id_Model :: string
  id_Firmware :: string
  id_DSPVersion :: string
  id_ARMVersion :: string
  id_RatedPower :: int
  id_FirstSeen :: gotime_ns
  id_LastSeen :: gotime_ns

record sample =
  sm_Value :: "f64 option"
  sm_ValueText :: "string option"
  sm_Unit :: string
  sm_SampledAt :: gotime_ns

record sampleRow =
  sr_ID :: int
  sr_Name :: string
  sr_Sample :: sample

record aggregatedSample =
  ag_SensorName :: string
  ag_BucketStart :: gotime_ns
  ag_ValueMin :: "f64 option"
  ag_ValueMax :: "f64 option"
  ag_ValueAvg :: "f64 option"
  ag_SampleCount :: int

record voltageCursor =
  vc_LastProcessedSampleID :: int
  vc_OngoingL1 :: "int option"
  vc_OngoingL2 :: "int option"
  vc_OngoingL3 :: "int option"
  vc_LastRunAt :: gotime_ns

record voltageEvent =
  ve_ID :: int
  ve_Phase :: string
  ve_StartSampleID :: int
  ve_StartTime :: gotime_ns
  ve_EndSampleID :: "int option"
  ve_EndTime :: "gotime_ns option"
  ve_MinVoltage :: f64
  ve_MaxVoltage :: f64
  ve_AvgVoltage :: f64
  ve_DurationSeconds :: "int option"

record db =
  db_identity :: "inverterIdentity list"
  db_samples :: "sampleRow list"
  db_sample_seq :: int
  db_hourly :: "aggregatedSample list"
  db_daily :: "aggregatedSample list"
  db_events :: "voltageEvent list"
  db_event_seq :: int
  db_cursor :: "voltageCursor option"
  db_avg :: "f64 list \<Rightarrow> f64"
  db_faults :: "nat \<Rightarrow> goerror option"
  db_stmts :: nat

section \<open>Statements\<close>

definition stmt :: "(db \<Rightarrow> 'a \<times> db) \<Rightarrow> db \<Rightarrow> (goerror + 'a) \<times> db" where
  "stmt f d =
     (let d1 = d\<lparr>db_stmts := Suc (db_stmts d)\<rparr> in
      case db_faults d (db_stmts d) of
        Some err \<Rightarrow> (Inl err, d1)
      | None \<Rightarrow> (case f d1 of (x, d2) \<Rightarrow> (Inr x, d2)))"

definition query :: "(db \<Rightarrow> 'a) \<Rightarrow> db \<Rightarrow> (goerror + 'a) \<times> db" where
  "query f = stmt (\<lambda>d. (f d, d))"

text \<open>An error of a statement, with the prefix the function puts before it.\<close>

definition failing :: "string \<Rightarrow> (goerror + 'a) \<times> db \<Rightarrow> (goerror + 'a) \<times> db" where
  "failing pre r = (case r of (Inl err, d) \<Rightarrow> (Inl (wrap pre err), d) | (Inr x, d) \<Rightarrow> (Inr x, d))"

text \<open>\<open>LIMIT n\<close>: a negative limit is none.\<close>

definition limit_to :: "int \<Rightarrow> 'a list \<Rightarrow> 'a list" where
  "limit_to n xs = (if n < 0 then xs else take (nat n) xs)"

text \<open>SQLite stores a NaN as NULL.\<close>

definition sql_real :: "f64 option \<Rightarrow> f64 option" where
  "sql_real v = (if v = Some NaN then None else v)"

section \<open>Identity\<close>

definition GetInverterIdentity :: "db \<Rightarrow> (goerror + inverterIdentity option) \<times> db" where
  "GetInverterIdentity =
     failing ''failed to read inverter identity'' \<circ>
     query (\<lambda>d. case db_identity d of [] \<Rightarrow> None | i # _ \<Rightarrow> Some i)"

fun upsert_identity :: "inverterIdentity \<Rightarrow> inverterIdentity list \<Rightarrow> inverterIdentity list" where
  "upsert_identity new [] = [new]"
| "upsert_identity new (i # is) =
     (if id_Serial i = id_Serial new then new\<lparr>id_FirstSeen := id_FirstSeen i\<rparr> # is
      else i # upsert_identity new is)"

definition SetInverterIdentity ::
    "gotime_ns \<Rightarrow> string \<Rightarrow> string \<Rightarrow> string \<Rightarrow> string \<Rightarrow> string \<Rightarrow> int \<Rightarrow> db \<Rightarrow> (goerror + unit) \<times> db" where
  "SetInverterIdentity now serial model firmware dspVersion armVersion ratedPower =
     failing ''failed to set inverter identity'' \<circ>
     stmt (\<lambda>d. ((), d\<lparr>db_identity := upsert_identity
       \<lparr>id_Serial = serial, id_Model = model, id_Firmware = firmware, id_DSPVersion = dspVersion,
        id_ARMVersion = armVersion, id_RatedPower = ratedPower, id_FirstSeen = now, id_LastSeen = now\<rparr>
       (db_identity d)\<rparr>))"

section \<open>Samples\<close>

definition InsertSample ::
    "string \<Rightarrow> string \<Rightarrow> gotime_ns \<Rightarrow> f64 option \<Rightarrow> string option \<Rightarrow> db \<Rightarrow> (goerror + unit) \<times> db" where
  "InsertSample name unit sampledAt value valueText =
     failing ''insert sample'' \<circ>
     stmt (\<lambda>d. let rowid = db_sample_seq d + 1 in
       ((), d\<lparr>db_sample_seq := rowid,
              db_samples := db_samples d @
                [\<lparr>sr_ID = rowid, sr_Name = name,
                  sr_Sample = \<lparr>sm_Value = sql_real value, sm_ValueText = valueText,
                               sm_Unit = unit, sm_SampledAt = sampledAt\<rparr>\<rparr>]\<rparr>))"

definition at_row :: "sampleRow \<Rightarrow> gotime_ns" where
  "at_row r = sm_SampledAt (sr_Sample r)"

text \<open>Rows by time, most recent first; rows of the same time by row id, latest first.\<close>

definition newest_first :: "sampleRow list \<Rightarrow> sampleRow list" where
  "newest_first rows = rev (sort_key at_row rows)"

text \<open>The query caps the newest rows; the loop at the end reverses them.\<close>

definition QueryRawSamples ::
    "string \<Rightarrow> gotime_ns \<Rightarrow> gotime_ns \<Rightarrow> int \<Rightarrow> db \<Rightarrow> (goerror + sample list) \<times> db" where
  "QueryRawSamples name since until limit =
     failing ''query samples'' \<circ>
     query (\<lambda>d. rev (map sr_Sample (limit_to limit (newest_first
       (filter (\<lambda>r. sr_Name r = name \<and> since \<le> at_row r \<and> at_row r \<le> until) (db_samples d))))))"

definition LastSampleTime :: "db \<Rightarrow> (goerror + gotime_ns option) \<times> db" where
  "LastSampleTime =
     failing ''query last sample time'' \<circ>
     query (\<lambda>d. case db_samples d of [] \<Rightarrow> None | rs \<Rightarrow> Some (Max (set (map at_row rs))))"

definition LatestSample :: "string \<Rightarrow> db \<Rightarrow> (goerror + sample option) \<times> db" where
  "LatestSample name =
     failing ''latest sample'' \<circ>
     query (\<lambda>d. case newest_first (filter (\<lambda>r. sr_Name r = name) (db_samples d)) of
       [] \<Rightarrow> None | r # _ \<Rightarrow> Some (sr_Sample r))"

definition SampleAt :: "string \<Rightarrow> gotime_ns \<Rightarrow> db \<Rightarrow> (goerror + sample option) \<times> db" where
  "SampleAt name at_t =
     failing ''sample at'' \<circ>
     query (\<lambda>d. case newest_first
         (filter (\<lambda>r. sr_Name r = name \<and> at_row r \<le> at_t) (db_samples d)) of
       [] \<Rightarrow> None | r # _ \<Rightarrow> Some (sr_Sample r))"

section \<open>Aggregation\<close>

text \<open>\<open>MIN\<close> and \<open>MAX\<close> of a non-empty list of values without NULL.\<close>

definition sql_min :: "f64 list \<Rightarrow> f64 option" where
  "sql_min vs = (case vs of [] \<Rightarrow> None | x # xs \<Rightarrow> Some (foldl (\<lambda>a v. if f_less v a then v else a) x xs))"

definition sql_max :: "f64 list \<Rightarrow> f64 option" where
  "sql_max vs = (case vs of [] \<Rightarrow> None | x # xs \<Rightarrow> Some (foldl (\<lambda>a v. if f_less a v then v else a) x xs))"

definition sql_avg :: "db \<Rightarrow> f64 list \<Rightarrow> f64 option" where
  "sql_avg d vs = (if vs = [] then None else Some (db_avg d vs))"

text \<open>\<open>INSERT OR REPLACE\<close> into a table with the key (sensor, bucket).\<close>

definition ag_key :: "aggregatedSample \<Rightarrow> string \<times> gotime_ns" where
  "ag_key a = (ag_SensorName a, ag_BucketStart a)"

definition replace_row :: "aggregatedSample list \<Rightarrow> aggregatedSample \<Rightarrow> aggregatedSample list" where
  "replace_row tbl a = filter (\<lambda>b. ag_key b \<noteq> ag_key a) tbl @ [a]"

definition replace_rows :: "aggregatedSample list \<Rightarrow> aggregatedSample list \<Rightarrow> aggregatedSample list" where
  "replace_rows tbl new = foldl replace_row tbl new"

text \<open>The row of the hourly statement for one sensor, and all its rows (\<open>GROUP BY sensor_name\<close>).\<close>

definition bucket_values :: "db \<Rightarrow> string \<Rightarrow> gotime_ns \<Rightarrow> gotime_ns \<Rightarrow> f64 list" where
  "bucket_values d name lo hi =
     List.map_filter (\<lambda>r. if sr_Name r = name \<and> lo \<le> at_row r \<and> at_row r < hi
       then sm_Value (sr_Sample r) else None) (db_samples d)"

definition hourly_row :: "db \<Rightarrow> gotime_ns \<Rightarrow> string \<Rightarrow> aggregatedSample" where
  "hourly_row d t name =
     (let vs = bucket_values d name t (t + Hour) in
      \<lparr>ag_SensorName = name, ag_BucketStart = t, ag_ValueMin = sql_min vs, ag_ValueMax = sql_max vs,
       ag_ValueAvg = sql_avg d vs, ag_SampleCount = int (length vs)\<rparr>)"

definition hourly_names :: "db \<Rightarrow> gotime_ns \<Rightarrow> string list" where
  "hourly_names d t = remdups (map sr_Name (filter
     (\<lambda>r. t \<le> at_row r \<and> at_row r < t + Hour \<and> sm_Value (sr_Sample r) \<noteq> None) (db_samples d)))"

definition hourly_stmt :: "gotime_ns \<Rightarrow> db \<Rightarrow> int \<times> db" where
  "hourly_stmt t d =
     (let rows = map (hourly_row d t) (hourly_names d t) in
      (int (length rows), d\<lparr>db_hourly := replace_rows (db_hourly d) rows\<rparr>))"

definition in_day :: "gotime_ns \<Rightarrow> string \<Rightarrow> aggregatedSample \<Rightarrow> bool" where
  "in_day t name a \<longleftrightarrow> ag_SensorName a = name \<and> t \<le> ag_BucketStart a \<and> ag_BucketStart a < t + Day"

definition daily_row :: "db \<Rightarrow> gotime_ns \<Rightarrow> string \<Rightarrow> aggregatedSample" where
  "daily_row d t name =
     (let as = filter (in_day t name) (db_hourly d);
          avgs = List.map_filter ag_ValueAvg as in
      \<lparr>ag_SensorName = name, ag_BucketStart = t,
       ag_ValueMin = sql_min (List.map_filter ag_ValueMin as),
       ag_ValueMax = sql_max (List.map_filter ag_ValueMax as),
       ag_ValueAvg = sql_avg d avgs,
       ag_SampleCount = sum_list (map ag_SampleCount as)\<rparr>)"

definition daily_names :: "db \<Rightarrow> gotime_ns \<Rightarrow> string list" where
  "daily_names d t = remdups (map ag_SensorName (filter
     (\<lambda>a. t \<le> ag_BucketStart a \<and> ag_BucketStart a < t + Day) (db_hourly d)))"

definition daily_stmt :: "gotime_ns \<Rightarrow> db \<Rightarrow> int \<times> db" where
  "daily_stmt t d =
     (let rows = map (daily_row d t) (daily_names d t) in
      (int (length rows), d\<lparr>db_daily := replace_rows (db_daily d) rows\<rparr>))"

text \<open>
  The loop \<open>for t := start; t.Before(end); t = t.Add(step)\<close>: one statement per bucket, then a look at
  the context. The result is the number of rows and the error.
\<close>

function aggregate_loop ::
    "int \<Rightarrow> (gotime_ns \<Rightarrow> db \<Rightarrow> int \<times> db) \<Rightarrow> string \<Rightarrow> gotime_ns \<Rightarrow> gotime_ns \<Rightarrow> int \<Rightarrow> goctx \<Rightarrow> db
     \<Rightarrow> (int \<times> goerror option) \<times> db" where
  "aggregate_loop step run what t end_t tot ctx d =
     (if 0 < step \<and> t < end_t then
        (case stmt (run t) d of
           (Inl err, d1) \<Rightarrow> ((tot, Some (wrap (what @ RFC3339 t) err)), d1)
         | (Inr n, d1) \<Rightarrow>
             (case ctx_done ctx of
                (True, ctx1) \<Rightarrow> ((tot + n, Some (ctx_err ctx1)), d1)
              | (False, ctx1) \<Rightarrow>
                  aggregate_loop step run what (t + step) end_t (tot + n) ctx1 d1))
      else ((tot, None), d))"
  by pat_completeness auto
termination
  by (relation "measure (\<lambda>(step, run, what, t, end_t, tot, ctx, d). nat (end_t - t))") auto

declare aggregate_loop.simps [simp del]

definition max_bucket :: "aggregatedSample list \<Rightarrow> gotime_ns" where
  "max_bucket tbl = (if tbl = [] then 0 else Max (set (map ag_BucketStart tbl)))"

text \<open>The first bucket of a run, before and after clamping it to the earliest data.\<close>

definition first_bucket :: "int \<Rightarrow> gotime_ns \<Rightarrow> gotime_ns \<Rightarrow> gotime_ns" where
  "first_bucket step cursor since =
     (let start = cursor + step in Truncate step (if start < since then since else start))"

definition clamp :: "int \<Rightarrow> gotime_ns \<Rightarrow> gotime_ns \<Rightarrow> gotime_ns" where
  "clamp step start first =
     (let floor = Truncate step first in if start < floor then floor else start)"

definition AggregateHourly ::
    "gotime_ns \<Rightarrow> gotime_ns \<Rightarrow> goctx \<Rightarrow> db \<Rightarrow> (int \<times> goerror option) \<times> db" where
  "AggregateHourly since until ctx d =
     (case query (\<lambda>d. max_bucket (db_hourly d)) d of
        (Inl err, d1) \<Rightarrow> ((0, Some (wrap ''aggregate hourly: get cursor'' err)), d1)
      | (Inr cursor, d1) \<Rightarrow>
     (let start = first_bucket Hour cursor since; end_t = Truncate Hour until in
      case query (\<lambda>d. map at_row (db_samples d)) d1 of
        (Inl err, d2) \<Rightarrow>
          aggregate_loop Hour hourly_stmt ''aggregate hourly: hour '' start end_t 0 ctx d2
      | (Inr [], d2) \<Rightarrow> ((0, None), d2)
      | (Inr (x # xs), d2) \<Rightarrow>
          aggregate_loop Hour hourly_stmt ''aggregate hourly: hour ''
            (clamp Hour start (Min (set (x # xs)))) end_t 0 ctx d2))"

definition AggregateDaily ::
    "gotime_ns \<Rightarrow> gotime_ns \<Rightarrow> goctx \<Rightarrow> db \<Rightarrow> (int \<times> goerror option) \<times> db" where
  "AggregateDaily since until ctx d =
     (case query (\<lambda>d. max_bucket (db_daily d)) d of
        (Inl err, d1) \<Rightarrow> ((0, Some (wrap ''aggregate daily: get cursor'' err)), d1)
      | (Inr cursor, d1) \<Rightarrow>
     (let start = first_bucket Day cursor since; end_t = Truncate Day until in
      case query (\<lambda>d. map ag_BucketStart (db_hourly d)) d1 of
        (Inl err, d2) \<Rightarrow>
          aggregate_loop Day daily_stmt ''aggregate daily: day '' start end_t 0 ctx d2
      | (Inr [], d2) \<Rightarrow> ((0, None), d2)
      | (Inr (x # xs), d2) \<Rightarrow>
          aggregate_loop Day daily_stmt ''aggregate daily: day ''
            (clamp Day start (Min (set (x # xs)))) end_t 0 ctx d2))"

definition QueryAggregatedSamples ::
    "string \<Rightarrow> gotime_ns \<Rightarrow> gotime_ns \<Rightarrow> string \<Rightarrow> db \<Rightarrow> (goerror + aggregatedSample list) \<times> db" where
  "QueryAggregatedSamples name since until bucket d =
     (let run = (\<lambda>table. failing ''query aggregated'' (query (\<lambda>d. sort_key ag_BucketStart
            (filter (\<lambda>a. ag_SensorName a = name \<and> since \<le> ag_BucketStart a \<and> ag_BucketStart a \<le> until)
              (table d))) d))
      in if bucket = ''hour'' then run db_hourly
         else if bucket = ''day'' then run db_daily
         else (Inl (Errorf (''query aggregated: unknown bucket '' @ [CHR 0x22] @ bucket @ [CHR 0x22])), d))"

section \<open>Deleting\<close>

text \<open>A \<open>DELETE\<close> of the first rows that satisfy a condition, at most \<open>n\<close> of them.\<close>

fun delete_first :: "('a \<Rightarrow> bool) \<Rightarrow> nat \<Rightarrow> 'a list \<Rightarrow> 'a list" where
  "delete_first P n [] = []"
| "delete_first P 0 xs = xs"
| "delete_first P (Suc n) (x # xs) =
     (if P x then delete_first P n xs else x # delete_first P (Suc n) xs)"

definition delete_limit :: "('a \<Rightarrow> bool) \<Rightarrow> int \<Rightarrow> 'a list \<Rightarrow> 'a list" where
  "delete_limit P n xs = (if n < 0 then filter (\<lambda>x. \<not> P x) xs else delete_first P (nat n) xs)"

definition prune_stmt :: "string \<Rightarrow> gotime_ns \<Rightarrow> int \<Rightarrow> db \<Rightarrow> int \<times> db" where
  "prune_stmt name before batchSize d =
     (let rest = delete_limit (\<lambda>r. sr_Name r = name \<and> at_row r < before) batchSize (db_samples d) in
      (int (length (db_samples d)) - int (length rest), d\<lparr>db_samples := rest\<rparr>))"

lemma length_delete_first: "length (delete_first P n xs) \<le> length xs"
  by (induction P n xs rule: delete_first.induct) auto

lemma length_delete_limit: "length (delete_limit P n xs) \<le> length xs"
  by (simp add: delete_limit_def length_delete_first)

lemma stmt_prune:
  assumes "stmt (prune_stmt name before batchSize) d = (Inr n, d1)"
  shows "n = int (length (db_samples d)) - int (length (db_samples d1)) \<and> 0 \<le> n"
  using assms length_delete_limit
  by (auto simp: stmt_def prune_stmt_def Let_def split: option.splits)

text \<open>The inner loop: batches for one sensor until a batch deletes nothing.\<close>

function prune_sensor ::
    "string \<Rightarrow> gotime_ns \<Rightarrow> int \<Rightarrow> int \<Rightarrow> db \<Rightarrow> (int \<times> goerror option) \<times> db" where
  "prune_sensor name before batchSize tot d =
     (case stmt (prune_stmt name before batchSize) d of
        (Inl err, d1) \<Rightarrow> ((tot, Some (wrap ''prune samples'' err)), d1)
      | (Inr n, d1) \<Rightarrow>
          if n = 0 then ((tot, None), d1)
          else prune_sensor name before batchSize (tot + n) d1)"
  by pat_completeness auto
termination
  by (relation "measure (\<lambda>(name, before, batchSize, tot, d). length (db_samples d))")
    (auto dest!: stmt_prune [OF sym])

declare prune_sensor.simps [simp del]

fun prune_sensors ::
    "string list \<Rightarrow> gotime_ns \<Rightarrow> int \<Rightarrow> int \<Rightarrow> goctx \<Rightarrow> db \<Rightarrow> (int \<times> goerror option) \<times> db" where
  "prune_sensors [] before batchSize tot ctx d = ((tot, None), d)"
| "prune_sensors (name # names) before batchSize tot ctx d =
     (case prune_sensor name before batchSize tot d of
        ((tot1, Some err), d1) \<Rightarrow> ((tot1, Some err), d1)
      | ((tot1, None), d1) \<Rightarrow>
          (case ctx_done ctx of
             (True, ctx1) \<Rightarrow> ((tot1, Some (ctx_err ctx1)), d1)
           | (False, ctx1) \<Rightarrow> prune_sensors names before batchSize tot1 ctx1 d1))"

definition PruneSamples ::
    "gotime_ns \<Rightarrow> int \<Rightarrow> goctx \<Rightarrow> db \<Rightarrow> (int \<times> goerror option) \<times> db" where
  "PruneSamples before batchSize ctx d =
     (case query (\<lambda>d. remdups (map sr_Name (db_samples d))) d of
        (Inl err, d1) \<Rightarrow> ((0, Some (wrap ''prune samples: list sensors'' err)), d1)
      | (Inr names, d1) \<Rightarrow>
          (case query (\<lambda>d. length (filter (\<lambda>r. at_row r < before) (db_samples d))) d1 of
             (_, d2) \<Rightarrow> prune_sensors names before batchSize 0 ctx d2))"

text \<open>\<open>PruneHourly\<close> deletes the oldest buckets first.\<close>

definition oldest_keys :: "gotime_ns \<Rightarrow> int \<Rightarrow> aggregatedSample list \<Rightarrow> (string \<times> gotime_ns) list" where
  "oldest_keys before batchSize tbl =
     limit_to batchSize (map ag_key (sort_key ag_BucketStart (filter (\<lambda>a. ag_BucketStart a < before) tbl)))"

definition prune_hourly_stmt :: "gotime_ns \<Rightarrow> int \<Rightarrow> db \<Rightarrow> int \<times> db" where
  "prune_hourly_stmt before batchSize d =
     (let keys = oldest_keys before batchSize (db_hourly d);
          rest = filter (\<lambda>a. ag_key a \<notin> set keys) (db_hourly d) in
      (int (length (db_hourly d)) - int (length rest), d\<lparr>db_hourly := rest\<rparr>))"

lemma stmt_prune_hourly:
  assumes "stmt (prune_hourly_stmt before batchSize) d = (Inr n, d1)"
  shows "n = int (length (db_hourly d)) - int (length (db_hourly d1)) \<and> 0 \<le> n"
  using assms
  by (auto simp: stmt_def prune_hourly_stmt_def Let_def split: option.splits)

function prune_hourly_loop ::
    "gotime_ns \<Rightarrow> int \<Rightarrow> int \<Rightarrow> goctx \<Rightarrow> db \<Rightarrow> (int \<times> goerror option) \<times> db" where
  "prune_hourly_loop before batchSize tot ctx d =
     (case stmt (prune_hourly_stmt before batchSize) d of
        (Inl err, d1) \<Rightarrow> ((tot, Some (wrap ''prune hourly'' err)), d1)
      | (Inr n, d1) \<Rightarrow>
          if n = 0 then ((tot, None), d1)
          else (case ctx_done ctx of
                  (True, ctx1) \<Rightarrow> ((tot + n, Some (ctx_err ctx1)), d1)
                | (False, ctx1) \<Rightarrow> prune_hourly_loop before batchSize (tot + n) ctx1 d1))"
  by pat_completeness auto
termination
  by (relation "measure (\<lambda>(before, batchSize, tot, ctx, d). length (db_hourly d))")
    (auto dest!: stmt_prune_hourly [OF sym])

declare prune_hourly_loop.simps [simp del]

definition PruneHourly ::
    "gotime_ns \<Rightarrow> int \<Rightarrow> goctx \<Rightarrow> db \<Rightarrow> (int \<times> goerror option) \<times> db" where
  "PruneHourly before batchSize ctx d =
     (case query (\<lambda>d. length (filter (\<lambda>a. ag_BucketStart a < before) (db_hourly d))) d of
        (_, d1) \<Rightarrow> prune_hourly_loop before batchSize 0 ctx d1)"

text \<open>The condition of \<open>PurgeBadSamples\<close>; a comparison with NULL is never true.\<close>

definition above :: "f64 option \<Rightarrow> int \<Rightarrow> bool" where
  "above v n = (case v of None \<Rightarrow> False | Some x \<Rightarrow> f_less (f_of_int n) x)"

definition below :: "f64 option \<Rightarrow> int \<Rightarrow> bool" where
  "below v n = (case v of None \<Rightarrow> False | Some x \<Rightarrow> f_less x (f_of_int n))"

definition bad_sample :: "int \<Rightarrow> sample \<Rightarrow> bool" where
  "bad_sample cap s =
     (let v = sm_Value s; unit = sm_Unit s in
      unit = ''W'' \<and> above v cap \<or>
      unit = ''%'' \<and> (above v 100 \<or> below v 0) \<or>
      unit = ''V'' \<and> above v 600 \<or>
      unit = ''A'' \<and> above v 50 \<or>
      unit = ''C'' \<and> (above v 200 \<or> below v (- 50)) \<or>
      unit = ''Hz'' \<and> (above v 60 \<or> below v 40) \<or>
      unit = ''kWh'' \<and> below v 0 \<or>
      unit = ''var'' \<and> (above v 50000 \<or> below v (- 50000)) \<or>
      unit = ''VA'' \<and> (above v 50000 \<or> below v 0))"

definition PurgeBadSamples :: "int \<Rightarrow> db \<Rightarrow> (goerror + unit) \<times> db" where
  "PurgeBadSamples ratedPower =
     (let rated = (if ratedPower \<le> 0 then 15000 else ratedPower) in
      failing ''purge bad samples'' \<circ>
      stmt (\<lambda>d. ((), d\<lparr>db_samples := filter (\<lambda>r. \<not> bad_sample (rated * 2) (sr_Sample r)) (db_samples d)\<rparr>)))"

section \<open>Voltage events\<close>

definition GetVoltageAnalysisCursor :: "db \<Rightarrow> (goerror + voltageCursor) \<times> db" where
  "GetVoltageAnalysisCursor d =
     (case query db_cursor d of
        (Inl err, d1) \<Rightarrow> (Inl (wrap ''get voltage cursor'' err), d1)
      | (Inr None, d1) \<Rightarrow> (Inl (wrap ''get voltage cursor'' (Errorf ''sql: no rows in result set'')), d1)
      | (Inr (Some c), d1) \<Rightarrow> (Inr c, d1))"

definition SaveVoltageAnalysisCursor :: "voltageCursor \<Rightarrow> db \<Rightarrow> (goerror + unit) \<times> db" where
  "SaveVoltageAnalysisCursor c =
     failing ''save voltage cursor'' \<circ>
     stmt (\<lambda>d. ((), d\<lparr>db_cursor := map_option (\<lambda>_. c) (db_cursor d)\<rparr>))"

definition InsertVoltageEvent ::
    "string \<Rightarrow> int \<Rightarrow> gotime_ns \<Rightarrow> f64 \<Rightarrow> f64 \<Rightarrow> f64 \<Rightarrow> db \<Rightarrow> (goerror + int) \<times> db" where
  "InsertVoltageEvent phase startSampleID startTime minV maxV avgV =
     failing ''insert voltage event'' \<circ>
     stmt (\<lambda>d. let rowid = db_event_seq d + 1 in
       (rowid, d\<lparr>db_event_seq := rowid,
                 db_events := db_events d @
                   [\<lparr>ve_ID = rowid, ve_Phase = phase, ve_StartSampleID = startSampleID,
                     ve_StartTime = startTime, ve_EndSampleID = None, ve_EndTime = None,
                     ve_MinVoltage = minV, ve_MaxVoltage = maxV, ve_AvgVoltage = avgV,
                     ve_DurationSeconds = None\<rparr>]\<rparr>))"

definition update_event :: "int \<Rightarrow> (voltageEvent \<Rightarrow> voltageEvent) \<Rightarrow> db \<Rightarrow> db" where
  "update_event eventID f d =
     d\<lparr>db_events := map (\<lambda>e. if ve_ID e = eventID then f e else e) (db_events d)\<rparr>"

definition CloseVoltageEvent ::
    "int \<Rightarrow> int \<Rightarrow> gotime_ns \<Rightarrow> int \<Rightarrow> db \<Rightarrow> (goerror + unit) \<times> db" where
  "CloseVoltageEvent eventID endSampleID endTime durationSec =
     failing ''close voltage event'' \<circ>
     stmt (\<lambda>d. ((), update_event eventID (\<lambda>e. e\<lparr>ve_EndSampleID := Some endSampleID,
       ve_EndTime := Some endTime, ve_DurationSeconds := Some durationSec\<rparr>) d))"

definition UpdateVoltageEvent :: "int \<Rightarrow> f64 \<Rightarrow> f64 \<Rightarrow> f64 \<Rightarrow> db \<Rightarrow> (goerror + unit) \<times> db" where
  "UpdateVoltageEvent eventID minV maxV avgV =
     failing ''update voltage event'' \<circ>
     stmt (\<lambda>d. ((), update_event eventID (\<lambda>e. e\<lparr>ve_MinVoltage := minV, ve_MaxVoltage := maxV,
       ve_AvgVoltage := avgV\<rparr>) d))"

text \<open>The id, phase and start time of an event.\<close>

definition GetVoltageEvent :: "int \<Rightarrow> db \<Rightarrow> (goerror + (int \<times> string \<times> gotime_ns) option) \<times> db" where
  "GetVoltageEvent eventID =
     failing ''get voltage event'' \<circ>
     query (\<lambda>d. map_option (\<lambda>e. (ve_ID e, ve_Phase e, ve_StartTime e))
       (List.find (\<lambda>e. ve_ID e = eventID) (db_events d)))"

definition QueryVoltageEvents ::
    "int \<Rightarrow> int \<Rightarrow> db \<Rightarrow> (goerror + voltageEvent list \<times> int) \<times> db" where
  "QueryVoltageEvents before limit d =
     (case query (\<lambda>d. int (length (db_events d))) d of
        (Inl err, d1) \<Rightarrow> (Inl (wrap ''count voltage events'' err), d1)
      | (Inr tot, d1) \<Rightarrow>
          (case query (\<lambda>d. limit_to limit (rev (sort_key ve_ID
                  (if before > 0 then filter (\<lambda>e. ve_ID e < before) (db_events d) else db_events d)))) d1 of
             (Inl err, d2) \<Rightarrow> (Inl (wrap ''query voltage events'' err), d2)
           | (Inr events, d2) \<Rightarrow> (Inr (events, tot), d2)))"

definition GetNewVoltageSampleRows :: "string \<Rightarrow> int \<Rightarrow> db \<Rightarrow> (goerror + sampleRow list) \<times> db" where
  "GetNewVoltageSampleRows sensorName sinceID =
     failing ''query voltage samples'' \<circ>
     query (\<lambda>d. sort_key sr_ID
       (filter (\<lambda>r. sr_Name r = sensorName \<and> sinceID < sr_ID r) (db_samples d)))"

end
