(* ===== verification/Voltage.thy ===== *)
theory Voltage
  imports Store
begin

text \<open>
  The voltage analysis, \<open>pkg/analysis/voltage.go\<close>: the scan of the meter voltages stored since the last
  run, which opens, extends and closes voltage events. The database is behind the interface
  \<open>VoltageStore\<close>, a record of operations here; \<open>db_store\<close> is the one of the database layer.
\<close>

definition VoltageMin :: f64 where "VoltageMin = Fin 207"
definition VoltageMax :: f64 where "VoltageMax = Fin 253"

record 's voltageStore =
  vs_GetVoltageAnalysisCursor :: "'s \<Rightarrow> (goerror + voltageCursor) \<times> 's"
  vs_SaveVoltageAnalysisCursor :: "voltageCursor \<Rightarrow> 's \<Rightarrow> (goerror + unit) \<times> 's"
  vs_InsertVoltageEvent ::
    "string \<Rightarrow> int \<Rightarrow> gotime_ns \<Rightarrow> f64 \<Rightarrow> f64 \<Rightarrow> f64 \<Rightarrow> 's \<Rightarrow> (goerror + int) \<times> 's"
  vs_CloseVoltageEvent :: "int \<Rightarrow> int \<Rightarrow> gotime_ns \<Rightarrow> int \<Rightarrow> 's \<Rightarrow> (goerror + unit) \<times> 's"
  vs_UpdateVoltageEvent :: "int \<Rightarrow> f64 \<Rightarrow> f64 \<Rightarrow> f64 \<Rightarrow> 's \<Rightarrow> (goerror + unit) \<times> 's"
  vs_GetVoltageEvent :: "int \<Rightarrow> 's \<Rightarrow> (goerror + (int \<times> string \<times> gotime_ns) option) \<times> 's"
  vs_GetNewVoltageSampleRows :: "string \<Rightarrow> int \<Rightarrow> 's \<Rightarrow> (goerror + sampleRow list) \<times> 's"

definition db_store :: "db voltageStore" where
  "db_store = \<lparr>vs_GetVoltageAnalysisCursor = GetVoltageAnalysisCursor,
     vs_SaveVoltageAnalysisCursor = SaveVoltageAnalysisCursor,
     vs_InsertVoltageEvent = InsertVoltageEvent, vs_CloseVoltageEvent = CloseVoltageEvent,
     vs_UpdateVoltageEvent = UpdateVoltageEvent, vs_GetVoltageEvent = GetVoltageEvent,
     vs_GetNewVoltageSampleRows = GetNewVoltageSampleRows\<rparr>"

section \<open>One phase\<close>

record phaseState =
  ps_eventID :: "int option"
  ps_startTime :: gotime_ns
  ps_minV :: f64
  ps_maxV :: f64
  ps_sumV :: f64
  ps_count :: int

text \<open>The zero \<open>time.Time\<close> is the start of the year 1.\<close>

definition zero_time :: gotime_ns where "zero_time = - 62135596800 * 10 ^ 9"

definition zero_phase :: phaseState where
  "zero_phase = \<lparr>ps_eventID = None, ps_startTime = zero_time, ps_minV = Fin 0, ps_maxV = Fin 0,
     ps_sumV = Fin 0, ps_count = 0\<rparr>"

text \<open>\<open>int(t.Sub(u).Seconds())\<close>: \<open>Sub\<close> saturates at 64 bits, \<open>Seconds\<close> adds whole and fractional part.\<close>

definition Sub :: "gotime_ns \<Rightarrow> gotime_ns \<Rightarrow> int" where
  "Sub t u = max (- (2 ^ 63)) (min (2 ^ 63 - 1) (t - u))"

definition Seconds :: "int \<Rightarrow> f64" where
  "Seconds d = (let neg = d < 0; s = \<bar>d\<bar> div 10 ^ 9; ns = \<bar>d\<bar> mod 10 ^ 9 in
     f_add (f_of_int (if neg then - s else s)) (f_div (f_of_int (if neg then - ns else ns)) (f_of_int (10 ^ 9))))"

definition durSec :: "gotime_ns \<Rightarrow> gotime_ns \<Rightarrow> int" where
  "durSec t u = (case f_trunc (Seconds (Sub t u)) of Some n \<Rightarrow> n | None \<Rightarrow> 0)"

definition isOut :: "f64 \<Rightarrow> bool" where
  "isOut v \<longleftrightarrow> f_less v VoltageMin \<or> f_less VoltageMax v"

definition accumulate :: "f64 \<Rightarrow> phaseState \<Rightarrow> phaseState" where
  "accumulate v st =
     (if ps_count st = 0 then st\<lparr>ps_minV := v, ps_maxV := v, ps_sumV := v, ps_count := 1\<rparr>
      else st\<lparr>ps_minV := (if f_less v (ps_minV st) then v else ps_minV st),
             ps_maxV := (if f_less (ps_maxV st) v then v else ps_maxV st),
             ps_sumV := f_add (ps_sumV st) v, ps_count := ps_count st + 1\<rparr>)"

definition out_step ::
    "'s voltageStore \<Rightarrow> string \<Rightarrow> gotime_ns \<Rightarrow> f64 \<Rightarrow> phaseState \<Rightarrow> 's \<Rightarrow> (goerror + phaseState) \<times> 's" where
  "out_step S sensor t v st s =
     (case ps_eventID st of
        None \<Rightarrow>
          (let st1 = st\<lparr>ps_startTime := t, ps_minV := v, ps_maxV := v, ps_sumV := v, ps_count := 1\<rparr> in
           case vs_InsertVoltageEvent S sensor 0 (ps_startTime st1) v v v s of
             (Inl err, s1) \<Rightarrow> (Inl (wrap ''insert event'' err), s1)
           | (Inr eid, s1) \<Rightarrow> (Inr (st1\<lparr>ps_eventID := Some eid\<rparr>), s1))
      | Some eid \<Rightarrow>
          (let st1 = accumulate v st; avg = f_div (ps_sumV st1) (f_of_int (ps_count st1)) in
           case vs_UpdateVoltageEvent S eid (ps_minV st1) (ps_maxV st1) avg s of
             (Inl err, s1) \<Rightarrow> (Inl (wrap ''update event'' err), s1)
           | (Inr _, s1) \<Rightarrow> (Inr st1, s1)))"

definition in_step ::
    "'s voltageStore \<Rightarrow> gotime_ns \<Rightarrow> phaseState \<Rightarrow> 's \<Rightarrow> (goerror + phaseState) \<times> 's" where
  "in_step S t st s =
     (case ps_eventID st of
        None \<Rightarrow> (Inr st, s)
      | Some eid \<Rightarrow>
          (case vs_CloseVoltageEvent S eid 0 t (durSec t (ps_startTime st)) s of
             (Inl err, s1) \<Rightarrow> (Inl (wrap ''close event'' err), s1)
           | (Inr _, s1) \<Rightarrow> (Inr (st\<lparr>ps_eventID := None\<rparr>), s1)))"

fun phase_loop ::
    "'s voltageStore \<Rightarrow> string \<Rightarrow> sampleRow list \<Rightarrow> phaseState \<Rightarrow> int \<Rightarrow> 's
     \<Rightarrow> (goerror + phaseState \<times> int) \<times> 's" where
  "phase_loop S sensor [] st maxSeen s = (Inr (st, maxSeen), s)"
| "phase_loop S sensor (r # rs) st maxSeen s =
     (let maxSeen1 = (if maxSeen < sr_ID r then sr_ID r else maxSeen) in
      case sm_Value (sr_Sample r) of
        None \<Rightarrow> phase_loop S sensor rs st maxSeen1 s
      | Some v \<Rightarrow>
          (case (if isOut v then out_step S sensor (at_row r) v st s else in_step S (at_row r) st s) of
             (Inl err, s1) \<Rightarrow> (Inl err, s1)
           | (Inr st1, s1) \<Rightarrow> phase_loop S sensor rs st1 maxSeen1 s1))"

definition resume_phase :: "'s voltageStore \<Rightarrow> int option \<Rightarrow> 's \<Rightarrow> (goerror + phaseState) \<times> 's" where
  "resume_phase S ongoing s =
     (case ongoing of
        None \<Rightarrow> (Inr zero_phase, s)
      | Some eid \<Rightarrow>
          (case vs_GetVoltageEvent S eid s of
             (Inl err, s1) \<Rightarrow> (Inl (wrap (''get event '' @ show_int eid) err), s1)
           | (Inr None, s1) \<Rightarrow> (Inr (zero_phase\<lparr>ps_eventID := Some eid\<rparr>), s1)
           | (Inr (Some (_, _, t)), s1) \<Rightarrow>
               (Inr (zero_phase\<lparr>ps_eventID := Some eid, ps_startTime := t\<rparr>), s1)))"

definition analyse_phase ::
    "'s voltageStore \<Rightarrow> int \<Rightarrow> string \<Rightarrow> int option \<Rightarrow> int \<Rightarrow> 's \<Rightarrow> (goerror + int option \<times> int) \<times> 's" where
  "analyse_phase S since sensor ongoing maxSeen s =
     (case vs_GetNewVoltageSampleRows S sensor since s of
        (Inl err, s1) \<Rightarrow> (Inl (wrap (''get samples for '' @ sensor) err), s1)
      | (Inr samples, s1) \<Rightarrow>
          (case resume_phase S ongoing s1 of
             (Inl err, s2) \<Rightarrow> (Inl err, s2)
           | (Inr st, s2) \<Rightarrow>
               (case phase_loop S sensor samples st maxSeen s2 of
                  (Inl err, s3) \<Rightarrow> (Inl err, s3)
                | (Inr (st1, maxSeen1), s3) \<Rightarrow> (Inr (ps_eventID st1, maxSeen1), s3))))"

section \<open>The run\<close>

text \<open>The loop over the phases: the new ongoing event of each, and the largest row id seen.\<close>

fun analyse_phases ::
    "'s voltageStore \<Rightarrow> int \<Rightarrow> (string \<times> int option) list \<Rightarrow> int \<Rightarrow> 's
     \<Rightarrow> (goerror + int option list \<times> int) \<times> 's" where
  "analyse_phases S since [] maxSeen s = (Inr ([], maxSeen), s)"
| "analyse_phases S since ((sensor, ongoing) # rest) maxSeen s =
     (case analyse_phase S since sensor ongoing maxSeen s of
        (Inl err, s1) \<Rightarrow> (Inl err, s1)
      | (Inr (ongoing1, maxSeen1), s1) \<Rightarrow>
          (case analyse_phases S since rest maxSeen1 s1 of
             (Inl err, s2) \<Rightarrow> (Inl err, s2)
           | (Inr (os, maxSeen2), s2) \<Rightarrow> (Inr (ongoing1 # os, maxSeen2), s2)))"

definition phases :: "voltageCursor \<Rightarrow> (string \<times> int option) list" where
  "phases c = [(''meter_voltage1'', vc_OngoingL1 c), (''meter_voltage2'', vc_OngoingL2 c),
     (''meter_voltage3'', vc_OngoingL3 c)]"

definition RunVoltageAnalysis :: "gotime_ns \<Rightarrow> 's voltageStore \<Rightarrow> 's \<Rightarrow> goerror option \<times> 's" where
  "RunVoltageAnalysis now S s =
     (case vs_GetVoltageAnalysisCursor S s of
        (Inl err, s1) \<Rightarrow> (Some (wrap ''get cursor'' err), s1)
      | (Inr c, s1) \<Rightarrow>
          (case analyse_phases S (vc_LastProcessedSampleID c) (phases c) (vc_LastProcessedSampleID c) s1 of
             (Inl err, s2) \<Rightarrow> (Some err, s2)
           | (Inr (os, maxSeen), s2) \<Rightarrow>
               (case vs_SaveVoltageAnalysisCursor S
                   \<lparr>vc_LastProcessedSampleID = maxSeen, vc_OngoingL1 = os ! 0, vc_OngoingL2 = os ! 1,
                    vc_OngoingL3 = os ! 2, vc_LastRunAt = now\<rparr> s2 of
                  (Inl err, s3) \<Rightarrow> (Some err, s3)
                | (Inr _, s3) \<Rightarrow> (None, s3))))"

end
