(* ===== verification/Store_Correct.thy ===== *)
theory Store_Correct
  imports Store "HOL-Library.Multiset"
begin

text \<open>
  What the database layer promises: queries return the newest samples in order, the identity table
  keeps one row per inverter and its first sighting, aggregation writes exactly the rows of the
  buckets it covers and can be repeated, and pruning removes exactly what is too old.
\<close>

section \<open>Statements\<close>

lemma stmt_ok:
  "stmt f d = (Inr x, d') \<longleftrightarrow>
   db_faults d (db_stmts d) = None \<and> f (d\<lparr>db_stmts := Suc (db_stmts d)\<rparr>) = (x, d')"
  by (auto simp: stmt_def Let_def split: option.splits prod.splits)

lemma stmt_err:
  "stmt f d = (Inl e, d') \<longleftrightarrow>
   db_faults d (db_stmts d) = Some e \<and> d' = d\<lparr>db_stmts := Suc (db_stmts d)\<rparr>"
  by (auto simp: stmt_def Let_def split: option.splits prod.splits)

lemma query_ok:
  "query f d = (Inr x, d') \<longleftrightarrow> db_faults d (db_stmts d) = None \<and>
   d' = d\<lparr>db_stmts := Suc (db_stmts d)\<rparr> \<and> x = f d'"
  by (auto simp: query_def stmt_ok)

lemma query_err:
  "query f d = (Inl e, d') \<longleftrightarrow>
   db_faults d (db_stmts d) = Some e \<and> d' = d\<lparr>db_stmts := Suc (db_stmts d)\<rparr>"
  by (simp add: query_def stmt_err)

lemma failing_ok: "failing pre r = (Inr x, d') \<longleftrightarrow> r = (Inr x, d')"
  by (auto simp: failing_def split: prod.splits sum.splits)

lemma failing_err: "failing pre r = (Inl e, d') \<longleftrightarrow> (\<exists>e0. r = (Inl e0, d') \<and> e = wrap pre e0)"
  by (auto simp: failing_def split: prod.splits sum.splits)

lemmas statement_simps = stmt_ok stmt_err query_ok query_err failing_ok failing_err

section \<open>Identity\<close>

definition identity_of :: "db \<Rightarrow> string \<Rightarrow> inverterIdentity option" where
  "identity_of d serial = List.find (\<lambda>i. id_Serial i = serial) (db_identity d)"

lemma find_upsert:
  "List.find (\<lambda>i. id_Serial i = s) (upsert_identity new is) =
     (if s = id_Serial new then Some (case List.find (\<lambda>i. id_Serial i = s) is of
          None \<Rightarrow> new | Some old \<Rightarrow> new\<lparr>id_FirstSeen := id_FirstSeen old\<rparr>)
      else List.find (\<lambda>i. id_Serial i = s) is)"
  by (induction new "is" rule: upsert_identity.induct) auto

lemma upsert_serials:
  "set (map id_Serial (upsert_identity new is)) = insert (id_Serial new) (set (map id_Serial is))"
  by (induction new "is" rule: upsert_identity.induct) auto

lemma upsert_distinct:
  "distinct (map id_Serial is) \<Longrightarrow> distinct (map id_Serial (upsert_identity new is))"
  by (induction new "is" rule: upsert_identity.induct) (use upsert_serials in auto)

text \<open>
  Storing the identity of an inverter updates its row, keeps the time it was first seen, leaves
  the rows of other inverters alone, and never makes a second row for a serial number.
\<close>

theorem SetInverterIdentity_upsert:
  assumes "SetInverterIdentity now serial model fw dsp arm rated d = (Inr (), d')"
    and "distinct (map id_Serial (db_identity d))"
  shows "distinct (map id_Serial (db_identity d')) \<and>
    (\<exists>i. identity_of d' serial = Some i \<and> id_LastSeen i = now \<and>
         id_RatedPower i = rated \<and> id_Model i = model \<and>
         id_FirstSeen i = (case identity_of d serial of None \<Rightarrow> now | Some old \<Rightarrow> id_FirstSeen old)) \<and>
    (\<forall>s. s \<noteq> serial \<longrightarrow> identity_of d' s = identity_of d s)"
  using assms
  by (auto simp: SetInverterIdentity_def statement_simps identity_of_def find_upsert upsert_distinct
      split: option.splits)

definition empty_db :: db where
  "empty_db = \<lparr>db_identity = [], db_samples = [], db_sample_seq = 0, db_hourly = [], db_daily = [],
     db_events = [], db_event_seq = 0,
     db_cursor = Some \<lparr>vc_LastProcessedSampleID = 0, vc_OngoingL1 = None, vc_OngoingL2 = None,
       vc_OngoingL3 = None, vc_LastRunAt = 0\<rparr>,
     db_avg = (\<lambda>vs. foldl f_add (f_of_int 0) vs), db_faults = (\<lambda>_. None), db_stmts = 0\<rparr>"

lemma SetInverterIdentity_upsert_witness:
  "\<exists>d' i. SetInverterIdentity 7 ''S1'' ''M'' '''' '''' '''' 8000 empty_db = (Inr (), d') \<and>
     identity_of d' ''S1'' = Some i \<and> id_FirstSeen i = 7"
proof -
  obtain d' where run: "SetInverterIdentity 7 ''S1'' ''M'' '''' '''' '''' 8000 empty_db = (Inr (), d')"
    by (simp add: SetInverterIdentity_def stmt_def failing_def empty_db_def)
  from SetInverterIdentity_upsert [OF run] run show ?thesis
    by (auto simp: empty_db_def identity_of_def)
qed

section \<open>Samples by time\<close>

lemma sorted_newest: "sorted (rev (map at_row (newest_first rows)))"
  by (simp add: newest_first_def rev_map [symmetric])

definition matching :: "string \<Rightarrow> gotime_ns \<Rightarrow> gotime_ns \<Rightarrow> db \<Rightarrow> sampleRow list" where
  "matching name since until d =
     sort_key at_row (filter (\<lambda>r. sr_Name r = name \<and> since \<le> at_row r \<and> at_row r \<le> until) (db_samples d))"

text \<open>
  A query of raw samples returns, in ascending order of time, the last \<open>limit\<close> of the matching
  samples, so the newest are the ones kept when there are more.
\<close>

theorem QueryRawSamples_newest:
  assumes "QueryRawSamples name since until limit d = (Inr res, d')" "0 \<le> limit"
  shows "res = map sr_Sample (drop (length (matching name since until d) - nat limit)
                                   (matching name since until d)) \<and>
         sorted (map sm_SampledAt res) \<and> length res \<le> nat limit"
proof -
  let ?m = "matching name since until d"
  have "res = rev (map sr_Sample (take (nat limit) (rev ?m)))"
    using assms by (auto simp: QueryRawSamples_def statement_simps limit_to_def newest_first_def matching_def)
  then have res: "res = map sr_Sample (drop (length ?m - nat limit) ?m)"
    by (simp add: take_rev rev_map)
  have "sorted (map at_row ?m)" by (simp add: matching_def)
  then have "sorted (drop (length ?m - nat limit) (map at_row ?m))"
    by (rule sorted_wrt_drop)
  then have "sorted (map sm_SampledAt res)"
    by (simp add: res drop_map at_row_def [abs_def] comp_def)
  moreover have "length res \<le> nat limit" by (simp add: res)
  ultimately show ?thesis using res by blast
qed

definition demo_sample :: "gotime_ns \<Rightarrow> sample" where
  "demo_sample t = \<lparr>sm_Value = Some (f_of_int 230), sm_ValueText = None, sm_Unit = ''V'', sm_SampledAt = t\<rparr>"

definition demo_db :: db where
  "demo_db = empty_db\<lparr>db_sample_seq := 3, db_samples :=
     [\<lparr>sr_ID = 1, sr_Name = ''v'', sr_Sample = demo_sample 10\<rparr>,
      \<lparr>sr_ID = 2, sr_Name = ''v'', sr_Sample = demo_sample 30\<rparr>,
      \<lparr>sr_ID = 3, sr_Name = ''v'', sr_Sample = demo_sample 20\<rparr>]\<rparr>"

lemma QueryRawSamples_newest_witness:
  "\<exists>d' res. QueryRawSamples ''v'' 0 100 2 demo_db = (Inr res, d') \<and>
     sorted (map sm_SampledAt res) \<and> length res \<le> 2"
proof -
  obtain res d' where run: "QueryRawSamples ''v'' 0 100 2 demo_db = (Inr res, d')"
    by (simp add: QueryRawSamples_def query_def stmt_def failing_def demo_db_def empty_db_def)
  from QueryRawSamples_newest [OF run] run show ?thesis by auto
qed

lemma newest_first_head:
  assumes "newest_first rows = r # rs"
  shows "r \<in> set rows \<and> (\<forall>r' \<in> set rows. at_row r' \<le> at_row r)"
proof -
  have "set (newest_first rows) = set rows" by (simp add: newest_first_def)
  moreover have "\<forall>r' \<in> set rs. at_row r' \<le> at_row r"
    using sorted_newest [of rows] unfolding assms by (auto simp: sorted_append)
  ultimately show ?thesis using assms by auto
qed

lemma newest_first_Nil: "newest_first rows = [] \<longleftrightarrow> rows = []"
  by (metis length_0_conv length_rev length_sort newest_first_def)

text \<open>
  \<open>SampleAt\<close> returns a sample of the sensor taken at or before the given time such that no other
  sample of the sensor lies between it and that time, and nothing exactly when the sensor has no
  sample up to then.
\<close>

theorem SampleAt_closest:
  assumes "SampleAt name t d = (Inr res, d')"
  shows "case res of
      None \<Rightarrow> filter (\<lambda>r. sr_Name r = name \<and> at_row r \<le> t) (db_samples d) = []
    | Some s \<Rightarrow> list_ex (\<lambda>r. sr_Name r = name \<and> sr_Sample r = s) (db_samples d) \<and> sm_SampledAt s \<le> t \<and>
        filter (\<lambda>r. sr_Name r = name \<and> sm_SampledAt s < at_row r \<and> at_row r \<le> t) (db_samples d) = []"
proof -
  let ?rows = "filter (\<lambda>r. sr_Name r = name \<and> at_row r \<le> t) (db_samples d)"
  have res: "res = (case newest_first ?rows of [] \<Rightarrow> None | r # _ \<Rightarrow> Some (sr_Sample r))"
    using assms by (auto simp: SampleAt_def statement_simps)
  show ?thesis
  proof (cases "newest_first ?rows")
    case Nil
    then have "res = None" by (simp add: res)
    moreover have "?rows = []" using Nil by (simp only: newest_first_Nil)
    ultimately show ?thesis by simp
  next
    case (Cons r rs)
    then have "res = Some (sr_Sample r)" by (simp add: res)
    with newest_first_head [OF Cons] show ?thesis
      by (auto simp: list_ex_iff filter_empty_conv at_row_def)
  qed
qed

lemma SampleAt_closest_witness:
  "\<exists>s d'. SampleAt ''v'' 25 demo_db = (Inr (Some s), d') \<and> sm_SampledAt s \<le> 25 \<and>
     filter (\<lambda>r. sr_Name r = ''v'' \<and> sm_SampledAt s < at_row r \<and> at_row r \<le> 25) (db_samples demo_db) = []"
proof -
  obtain res d' where run: "SampleAt ''v'' 25 demo_db = (Inr res, d')"
    by (simp add: SampleAt_def query_def stmt_def failing_def demo_db_def empty_db_def)
  have "filter (\<lambda>r. sr_Name r = ''v'' \<and> at_row r \<le> 25) (db_samples demo_db) \<noteq> []"
    by (simp add: demo_db_def demo_sample_def at_row_def)
  with SampleAt_closest [OF run] run show ?thesis by (cases res) auto
qed

section \<open>Aggregation\<close>

definition row_of :: "aggregatedSample list \<Rightarrow> string \<Rightarrow> gotime_ns \<Rightarrow> aggregatedSample option" where
  "row_of tbl name t = List.find (\<lambda>a. ag_key a = (name, t)) tbl"

lemma find_append: "List.find P (xs @ ys) = (case List.find P xs of None \<Rightarrow> List.find P ys | r \<Rightarrow> r)"
  by (induction xs) simp_all

lemma find_filter_other:
  "(\<And>x. P x \<Longrightarrow> Q x) \<Longrightarrow> List.find P (filter Q xs) = List.find P xs"
  by (induction xs) auto

lemma find_filter_none: "(\<And>x. P x \<Longrightarrow> \<not> Q x) \<Longrightarrow> List.find P (filter Q xs) = None"
  by (induction xs) auto

lemma row_of_replace:
  "row_of (replace_row tbl a) name t = (if ag_key a = (name, t) then Some a else row_of tbl name t)"
proof (cases "ag_key a = (name, t)")
  case True
  then show ?thesis
    by (simp add: row_of_def replace_row_def find_append find_filter_none)
next
  case False
  then have "List.find (\<lambda>b. ag_key b = (name, t)) (filter (\<lambda>b. ag_key b \<noteq> ag_key a) tbl) = row_of tbl name t"
    unfolding row_of_def by (intro find_filter_other) auto
  with False show ?thesis
    by (simp add: row_of_def replace_row_def find_append split: option.splits)
qed

lemma row_of_replace_rows:
  assumes "\<And>n. ag_key (f n) = (n, t)"
  shows "row_of (replace_rows tbl (map f names)) name t' =
    (if t' = t \<and> name \<in> set names then Some (f name) else row_of tbl name t')"
  by (induction names arbitrary: tbl) (auto simp: replace_rows_def row_of_replace assms)

lemma replace_row_distinct:
  "distinct (map ag_key tbl) \<Longrightarrow> distinct (map ag_key (replace_row tbl a))"
  by (auto simp: replace_row_def distinct_map inj_on_def)

lemma replace_rows_distinct:
  "distinct (map ag_key tbl) \<Longrightarrow> distinct (map ag_key (replace_rows tbl rows))"
  unfolding replace_rows_def by (induction rows arbitrary: tbl) (simp_all add: replace_row_distinct)

lemma hourly_names_iff: "name \<in> set (hourly_names d t) \<longleftrightarrow> bucket_values d name t (t + Hour) \<noteq> []"
proof -
  have "List.map_filter f xs \<noteq> [] \<longleftrightarrow> (\<exists>x \<in> set xs. f x \<noteq> None)" for f :: "sampleRow \<Rightarrow> f64 option" and xs
    by (induction xs) (auto simp: List.map_filter_simps split: option.splits)
  then show ?thesis
    by (auto simp: hourly_names_def bucket_values_def)
qed

text \<open>The buckets from \<open>lo\<close> up to \<open>hi\<close>.\<close>

definition in_buckets :: "int \<Rightarrow> gotime_ns \<Rightarrow> gotime_ns \<Rightarrow> gotime_ns \<Rightarrow> bool" where
  "in_buckets step lo hi t \<longleftrightarrow> lo \<le> t \<and> t < hi \<and> (t - lo) mod step = 0"

lemma in_buckets_step:
  assumes "0 < step" "lo < hi"
  shows "in_buckets step lo hi t \<longleftrightarrow> t = lo \<or> in_buckets step (lo + step) hi t"
proof -
  have "t = lo \<or> lo + step \<le> t" if le: "lo \<le> t" and dvd: "(t - lo) mod step = 0"
  proof -
    obtain k where k: "t - lo = step * k" using dvd by (metis dvd_def mod_0_imp_dvd)
    show ?thesis
    proof (cases "k \<le> 0")
      case True
      then have "step * k \<le> 0" using assms(1) by (simp add: mult_nonneg_nonpos)
      with le k show ?thesis by simp
    next
      case False
      then have "step * 1 \<le> step * k" using assms(1) by (intro mult_left_mono) simp_all
      with k show ?thesis by simp
    qed
  qed
  moreover have "(t - (lo + step)) mod step = (t - lo) mod step"
    by (simp add: mod_diff_right_eq diff_diff_add [symmetric])
  ultimately show ?thesis using assms by (auto simp: in_buckets_def)
qed

lemma Truncate_le: "0 < step \<Longrightarrow> Truncate step t \<le> t"
  by (simp add: Truncate_def)

lemma Truncate_mod [simp]: "Truncate step t mod step = 0"
  by (simp add: Truncate_def)

lemma Truncate_mono:
  assumes "0 < step" "a \<le> b"
  shows "Truncate step a \<le> Truncate step b"
proof -
  have eq: "Truncate step x = step * (x div step)" for x
    by (simp add: Truncate_def minus_mod_eq_mult_div)
  show ?thesis
    unfolding eq using assms by (intro mult_left_mono zdiv_mono1) simp_all
qed

lemma Truncate_eq:
  assumes "0 < step" "t mod step = 0" "t \<le> x" "x < t + step"
  shows "Truncate step x = t"
proof -
  have "x mod step = (x - t) mod step"
    using assms(2) by (metis diff_zero mod_diff_right_eq)
  also have "\<dots> = x - t"
    using assms by (intro mod_pos_pos_trivial) simp_all
  finally show ?thesis by (simp add: Truncate_def)
qed

lemma aligned: "lo mod step = 0 \<Longrightarrow> (t - lo) mod step = 0 \<longleftrightarrow> t mod step = (0 :: int)"
  by (metis diff_zero mod_diff_right_eq)

lemma first_bucket_mod [simp]: "first_bucket step cursor since mod step = 0"
  by (simp add: first_bucket_def Let_def)

lemma clamp_mod: "start mod step = 0 \<Longrightarrow> clamp step start first mod step = 0"
  by (simp add: clamp_def Let_def)

lemma first_bucket_mono: "0 < step \<Longrightarrow> a \<le> b \<Longrightarrow> first_bucket step a since \<le> first_bucket step b since"
  by (auto simp: first_bucket_def Let_def intro: Truncate_mono)

text \<open>
  The two levels of aggregation have one shape: a target table, a statement that writes the rows of
  one bucket, and source rows with a time. What the statement does is assumed; what a whole run does
  follows.
\<close>

locale aggregation =
  fixes step :: int
    and run :: "gotime_ns \<Rightarrow> db \<Rightarrow> int \<times> db"
    and agg :: "gotime_ns \<Rightarrow> gotime_ns \<Rightarrow> goctx \<Rightarrow> db \<Rightarrow> (int \<times> goerror option) \<times> db"
    and cursor_msg row_msg :: string
    and table :: "db \<Rightarrow> aggregatedSample list"
    and source :: "db \<Rightarrow> 'r"
    and times :: "db \<Rightarrow> gotime_ns list"
    and row :: "db \<Rightarrow> gotime_ns \<Rightarrow> string \<Rightarrow> aggregatedSample"
    and has :: "db \<Rightarrow> gotime_ns \<Rightarrow> string \<Rightarrow> bool"
  assumes step_pos: "0 < step"
    and run_source: "stmt (run t) d = (Inr n, d') \<Longrightarrow> source d' = source d"
    and run_rows: "stmt (run t) d = (Inr n, d') \<Longrightarrow> row_of (table d') name t' =
        (if t' = t \<and> has d t name then Some (row d t name) else row_of (table d) name t')"
    and run_distinct: "stmt (run t) d = (Inr n, d') \<Longrightarrow> distinct (map ag_key (table d)) \<Longrightarrow>
        distinct (map ag_key (table d'))"
    and by_source: "source d' = source d \<Longrightarrow> row d' = row d \<and> has d' = has d \<and> times d' = times d"
    and has_times: "has d t name \<Longrightarrow> \<exists>x \<in> set (times d). t \<le> x \<and> x < t + step"
    and count_only: "table (d\<lparr>db_stmts := k\<rparr>) = table d" "source (d\<lparr>db_stmts := k\<rparr>) = source d"
    and agg_eq: "agg since until ctx d =
     (case query (\<lambda>d. max_bucket (table d)) d of
        (Inl err, d1) \<Rightarrow> ((0, Some (wrap cursor_msg err)), d1)
      | (Inr cursor, d1) \<Rightarrow>
     (let start = first_bucket step cursor since; end_t = Truncate step until in
      case query times d1 of
        (Inl err, d2) \<Rightarrow> aggregate_loop step run row_msg start end_t 0 ctx d2
      | (Inr [], d2) \<Rightarrow> ((0, None), d2)
      | (Inr (x # xs), d2) \<Rightarrow>
          aggregate_loop step run row_msg (clamp step start (Min (set (x # xs)))) end_t 0 ctx d2))"
begin

lemma count_only_rows:
  "row (d\<lparr>db_stmts := k\<rparr>) = row d" "has (d\<lparr>db_stmts := k\<rparr>) = has d"
  "times (d\<lparr>db_stmts := k\<rparr>) = times d"
  using by_source [OF count_only(2) [of k d]] by simp_all

lemmas count_simps = count_only count_only_rows

text \<open>
  A run writes the rows of the buckets up to some point: up to its end when it succeeds, up to the
  bucket whose statement failed, or after which the context was found cancelled, otherwise.
\<close>

lemma loop_rows:
  assumes "aggregate_loop step run what t hi tot ctx d = ((n, e), d')"
  shows "source d' = source d \<and>
    (distinct (map ag_key (table d)) \<longrightarrow> distinct (map ag_key (table d'))) \<and>
    (\<exists>stop \<le> hi. (e = None \<longrightarrow> stop = hi) \<and> (\<forall>name t'. row_of (table d') name t' =
      (if in_buckets step t stop t' \<and> has d t' name then Some (row d t' name) else row_of (table d) name t')))"
  using assms
proof (induction "nat (hi - t)" arbitrary: t tot ctx d rule: less_induct)
  case less
  show ?case
  proof (cases "t < hi")
    case False
    then have "d' = d" "\<not> in_buckets step t hi t'" for t'
      using less.prems by (auto simp: aggregate_loop.simps [of _ _ _ t] in_buckets_def)
    then show ?thesis by auto
  next
    case True
    consider (fault) err where "stmt (run t) d = (Inl err, d')" "e \<noteq> None"
      | (stop) m where "stmt (run t) d = (Inr m, d')" "e \<noteq> None"
      | (next_step) m d1 ctx1 where "stmt (run t) d = (Inr m, d1)"
          "aggregate_loop step run what (t + step) hi (tot + m) ctx1 d1 = ((n, e), d')"
      using less.prems True step_pos
      by (subst (asm) aggregate_loop.simps) (auto split: prod.splits sum.splits bool.splits)
    then show ?thesis
    proof cases
      case fault
      then have "d' = d\<lparr>db_stmts := Suc (db_stmts d)\<rparr>" by (simp add: stmt_err)
      moreover have "\<not> in_buckets step t t t'" for t' by (simp add: in_buckets_def)
      ultimately show ?thesis
        using True fault(2) by (auto simp: count_only intro!: exI [of _ t])
    next
      case stop
      have "in_buckets step t (t + 1) t' \<longleftrightarrow> t' = t" for t' by (auto simp: in_buckets_def)
      with True stop(2) show ?thesis
        using run_source [OF stop(1)] run_distinct [OF stop(1)] run_rows [OF stop(1)]
        by (auto intro!: exI [of _ "t + 1"])
    next
      case next_step
      have "nat (hi - (t + step)) < nat (hi - t)" using True step_pos by simp
      from less.hyps [OF this next_step(2)] obtain stop where
        ih: "source d' = source d1" "stop \<le> hi" "e = None \<longrightarrow> stop = hi"
        "distinct (map ag_key (table d1)) \<Longrightarrow> distinct (map ag_key (table d'))"
        "\<And>name t'. row_of (table d') name t' = (if in_buckets step (t + step) stop t' \<and> has d1 t' name
           then Some (row d1 t' name) else row_of (table d1) name t')"
        by blast
      have src: "source d1 = source d" by (rule run_source [OF next_step(1)])
      define stop' where "stop' = (if t < stop then stop else t + 1)"
      have "in_buckets step t stop' t' \<longleftrightarrow> t' = t \<or> in_buckets step (t + step) stop t'" for t'
        using in_buckets_step [OF step_pos, of t stop'] step_pos by (auto simp: stop'_def in_buckets_def)
      then have "row_of (table d') name t' = (if in_buckets step t stop' t' \<and> has d t' name
          then Some (row d t' name) else row_of (table d) name t')" for name t'
        by (auto simp: ih(5) run_rows [OF next_step(1)] by_source [OF src])
      moreover have "stop' \<le> hi" "e = None \<longrightarrow> stop' = hi" using ih(2,3) True by (auto simp: stop'_def)
      ultimately show ?thesis
        using ih(1,4) src run_distinct [OF next_step(1)] by metis
    qed
  qed
qed

lemma agg_rows_upto:
  assumes "agg since until ctx d = ((n, e), d')"
  shows "source d' = source d \<and>
    (distinct (map ag_key (table d)) \<longrightarrow> distinct (map ag_key (table d'))) \<and>
    (\<exists>stop \<le> Truncate step until. (e = None \<longrightarrow> stop = Truncate step until) \<and>
      (\<forall>name t. row_of (table d') name t =
        (if in_buckets step (first_bucket step (max_bucket (table d)) since) stop t \<and> has d t name
         then Some (row d t name) else row_of (table d) name t)))"
proof -
  let ?start = "first_bucket step (max_bucket (table d)) since" and ?stop = "Truncate step until"
  let ?d1 = "d\<lparr>db_stmts := Suc (db_stmts d)\<rparr>"
  let ?d2 = "?d1\<lparr>db_stmts := Suc (db_stmts ?d1)\<rparr>"
  have src: "source ?d2 = source d" "table ?d2 = table d" "table ?d1 = table d" "source ?d1 = source d"
    by (simp_all only: count_only)
  have src_rows: "row ?d2 = row d" "has ?d2 = has d"
    using by_source [OF src(1)] by simp_all
  consider (err) r where "query (\<lambda>d. max_bucket (table d)) d = (Inl r, d')" "e \<noteq> None"
    | (fault) "aggregate_loop step run row_msg ?start ?stop 0 ctx ?d2 = ((n, e), d')"
    | (none) "times d = []" "d' = ?d2"
    | (some) "times d \<noteq> []"
      "aggregate_loop step run row_msg (clamp step ?start (Min (set (times d)))) ?stop 0 ctx ?d2 = ((n, e), d')"
  proof (cases "query (\<lambda>d. max_bucket (table d)) d")
    case first: (Pair r0 d1)
    show thesis
    proof (cases r0)
      case (Inl r)
      with first assms err show thesis by (auto simp: agg_eq)
    next
      case (Inr cur)
      with first have q: "query (\<lambda>d. max_bucket (table d)) d = (Inr (max_bucket (table d)), ?d1)"
        by (auto simp: query_ok src)
      obtain r d2 where Pair: "query times ?d1 = (r, d2)" by force
      show thesis
      proof (cases r)
        case (Inl x)
        with Pair have "d2 = ?d2" by (simp add: query_err)
        with Pair Inl assms q fault show thesis by (simp add: agg_eq Let_def)
      next
        case (Inr xs)
        with Pair have d2: "d2 = ?d2" "xs = times d"
          using by_source [OF src(1)] by (auto simp: query_ok)
        show thesis
        proof (cases xs)
          case Nil
          with Pair Inr assms q none d2 show thesis by (simp add: agg_eq Let_def)
        next
          case (Cons y ys)
          have loop: "aggregate_loop step run row_msg (clamp step ?start (Min (set (y # ys)))) ?stop 0 ctx ?d2 = ((n, e), d')"
            using Pair Inr assms q d2(1) Cons by (simp add: agg_eq Let_def)
          have "times d = y # ys" using d2(2) Cons by simp
          from some [unfolded this, OF _ loop] show thesis by simp
        qed
      qed
    qed
  qed
  then show ?thesis
  proof cases
    case err
    then have "d' = ?d1" by (simp add: query_err)
    moreover have "\<not> in_buckets step ?start (min ?start ?stop) t" for t by (simp add: in_buckets_def)
    ultimately show ?thesis
      using err(2) by (auto simp: src intro!: exI [of _ "min ?start ?stop"])
  next
    case fault
    from loop_rows [OF fault] show ?thesis unfolding src src_rows .
  next
    case none
    have "\<not> has d t name" for t name using has_times [of d t name] none(1) by auto
    with none(2) show ?thesis by (auto simp: count_simps)
  next
    case some
    let ?c = "clamp step ?start (Min (set (times d)))"
    have "in_buckets step ?c stop t \<and> has d t name \<longleftrightarrow> in_buckets step ?start stop t \<and> has d t name"
      for stop t name
    proof (cases "?c \<le> t \<or> \<not> has d t name")
      case True
      have "?start \<le> ?c" by (simp add: clamp_def Let_def)
      with True show ?thesis
        by (auto simp: in_buckets_def aligned clamp_mod)
    next
      case False
      then obtain x where x: "x \<in> set (times d)" "t \<le> x" "x < t + step"
        using has_times by blast
      have "\<not> ?start \<le> t \<or> t mod step \<noteq> 0"
      proof (rule ccontr)
        assume "\<not> (\<not> ?start \<le> t \<or> t mod step \<noteq> 0)"
        then have t: "?start \<le> t" "t mod step = 0" by auto
        with False have "t < Truncate step (Min (set (times d)))"
          by (auto simp: clamp_def Let_def split: if_splits)
        moreover have "Truncate step (Min (set (times d))) \<le> Truncate step x"
          using x(1) step_pos by (intro Truncate_mono) simp_all
        moreover have "Truncate step x = t"
          using x(2,3) t(2) step_pos by (intro Truncate_eq)
        ultimately show False by simp
      qed
      with False show ?thesis by (auto simp: in_buckets_def aligned)
    qed
    with loop_rows [OF some(2)] show ?thesis unfolding src src_rows by simp
  qed
qed

lemma agg_rows:
  assumes "agg since until ctx d = ((n, None), d')"
  shows "source d' = source d \<and>
    (distinct (map ag_key (table d)) \<longrightarrow> distinct (map ag_key (table d'))) \<and>
    row_of (table d') name t =
      (if in_buckets step (first_bucket step (max_bucket (table d)) since) (Truncate step until) t \<and> has d t name
       then Some (row d t name) else row_of (table d) name t)"
  using agg_rows_upto [OF assms] by auto

lemma row_of_bucket:
  "row_of tbl name t \<noteq> None \<Longrightarrow> \<exists>a \<in> set tbl. ag_BucketStart a = t"
  "a \<in> set tbl \<Longrightarrow> row_of tbl (ag_SensorName a) (ag_BucketStart a) \<noteq> None"
  by (auto simp: row_of_def find_Some_iff find_None_iff ag_key_def)

lemma max_bucket_row: "tbl \<noteq> [] \<Longrightarrow> \<exists>a \<in> set tbl. ag_BucketStart a = max_bucket tbl"
proof -
  assume ne: "tbl \<noteq> []"
  then have "Max (ag_BucketStart ` set tbl) \<in> ag_BucketStart ` set tbl"
    by (intro Max_in) simp_all
  then obtain a where "Max (ag_BucketStart ` set tbl) = ag_BucketStart a" "a \<in> set tbl"
    by (rule imageE)
  with ne show ?thesis by (auto simp: max_bucket_def)
qed

lemma max_bucket_grows:
  assumes "agg since until ctx d = ((n, None), d')"
  shows "max_bucket (table d) \<le> max_bucket (table d')"
proof (cases "table d = []")
  case False
  then obtain a where a: "a \<in> set (table d)" "ag_BucketStart a = max_bucket (table d)"
    using max_bucket_row by blast
  then have "row_of (table d') (ag_SensorName a) (ag_BucketStart a) \<noteq> None"
    using agg_rows [OF assms, of "ag_SensorName a" "ag_BucketStart a"] row_of_bucket(2) [OF a(1)] by simp
  then obtain a' where a': "a' \<in> set (table d')" "ag_BucketStart a' = max_bucket (table d)"
    using row_of_bucket(1) a(2) by metis
  then have "ag_BucketStart a' \<le> Max (ag_BucketStart ` set (table d'))"
    by (intro Max_ge imageI) simp_all
  moreover have "table d' \<noteq> []" using a'(1) by auto
  ultimately show ?thesis using a'(2) by (simp add: max_bucket_def [of "table d'"])
next
  case True
  have "0 \<le> max_bucket (table d')"
  proof (cases "table d' = []")
    case False
    then obtain a where a: "a \<in> set (table d')" "ag_BucketStart a = max_bucket (table d')"
      using max_bucket_row by blast
    let ?lo = "first_bucket step (max_bucket (table d)) since"
    have "row_of (table d') (ag_SensorName a) (ag_BucketStart a) \<noteq> None"
      by (rule row_of_bucket(2) [OF a(1)])
    then have "?lo \<le> ag_BucketStart a"
      using agg_rows [OF assms, of "ag_SensorName a" "ag_BucketStart a"] True
      by (auto simp: in_buckets_def row_of_def split: if_splits)
    moreover have "Truncate step step \<le> ?lo"
      unfolding first_bucket_def Let_def by (rule Truncate_mono [OF step_pos]) (simp add: True max_bucket_def)
    moreover have "Truncate step step = step" by (simp add: Truncate_def)
    ultimately show ?thesis using a(2) step_pos by simp
  qed (simp add: max_bucket_def)
  with True show ?thesis by (simp add: max_bucket_def)
qed

lemma agg_idempotent:
  assumes "agg since until ctx d = ((n, None), d')" "agg since until ctx' d' = ((n', None), d'')"
  shows "row_of (table d'') name t = row_of (table d') name t"
proof -
  let ?lo = "\<lambda>d. first_bucket step (max_bucket (table d)) since"
  have src: "source d' = source d" using agg_rows [OF assms(1)] by blast
  have "?lo d \<le> ?lo d'"
    by (rule first_bucket_mono [OF step_pos max_bucket_grows [OF assms(1)]])
  then have "in_buckets step (?lo d') hi t \<Longrightarrow> in_buckets step (?lo d) hi t" for hi
    by (auto simp: in_buckets_def aligned)
  then show ?thesis
    using agg_rows [OF assms(1), of name t] agg_rows [OF assms(2), of name t] by_source [OF src] by auto
qed

end

section \<open>Hours and days\<close>

lemma hour_pos: "0 < Hour" and day_pos: "0 < Day"
  by (simp_all add: Hour_def Day_def)

lemma map_filter_nonempty: "List.map_filter f xs \<noteq> [] \<longleftrightarrow> (\<exists>x \<in> set xs. f x \<noteq> None)"
  by (induction xs) (auto simp: List.map_filter_simps split: option.splits)

lemma rows_count:
  "hourly_row (d\<lparr>db_stmts := k\<rparr>) = hourly_row d" "hourly_names (d\<lparr>db_stmts := k\<rparr>) = hourly_names d"
  "daily_row (d\<lparr>db_stmts := k\<rparr>) = daily_row d" "daily_names (d\<lparr>db_stmts := k\<rparr>) = daily_names d"
  by (auto simp: hourly_row_def hourly_names_def daily_row_def daily_names_def bucket_values_def
      sql_avg_def fun_eq_iff Let_def)

lemma hourly_stmt_spec:
  "stmt (hourly_stmt t) d = (Inr n, d') \<Longrightarrow> d' = d\<lparr>db_stmts := Suc (db_stmts d),
     db_hourly := replace_rows (db_hourly d) (map (hourly_row d t) (hourly_names d t))\<rparr>"
  by (auto simp: stmt_ok hourly_stmt_def Let_def rows_count)

lemma daily_stmt_spec:
  "stmt (daily_stmt t) d = (Inr n, d') \<Longrightarrow> d' = d\<lparr>db_stmts := Suc (db_stmts d),
     db_daily := replace_rows (db_daily d) (map (daily_row d t) (daily_names d t))\<rparr>"
  by (auto simp: stmt_ok daily_stmt_def Let_def rows_count)

lemma daily_names_iff:
  "name \<in> set (daily_names d t) \<longleftrightarrow> filter (in_day t name) (db_hourly d) \<noteq> []"
  by (auto simp: daily_names_def in_day_def filter_empty_conv)

lemma row_keys: "ag_key (hourly_row d t n) = (n, t)" "ag_key (daily_row d t n) = (n, t)"
  by (simp_all add: hourly_row_def daily_row_def ag_key_def Let_def)

interpretation hourly: aggregation Hour hourly_stmt AggregateHourly "''aggregate hourly: get cursor''"
  "''aggregate hourly: hour ''" db_hourly "\<lambda>d. (db_samples d, db_avg d)"
  "\<lambda>d. map at_row (db_samples d)" hourly_row "\<lambda>d t name. bucket_values d name t (t + Hour) \<noteq> []"
proof (unfold_locales, goal_cases)
  case (3 t d n d' name t')
  from hourly_stmt_spec [OF 3] show ?case
    by (simp add: row_of_replace_rows [where t = t] row_keys hourly_names_iff)
next
  case (5 d' d)
  then show ?case
    by (auto simp: hourly_row_def fun_eq_iff bucket_values_def sql_avg_def Let_def)
next
  case (6 d t name)
  then show ?case by (auto simp: bucket_values_def map_filter_nonempty split: if_splits)
qed (auto simp: hour_pos replace_rows_distinct AggregateHourly_def dest: hourly_stmt_spec)

interpretation daily: aggregation Day daily_stmt AggregateDaily "''aggregate daily: get cursor''"
  "''aggregate daily: day ''" db_daily "\<lambda>d. (db_hourly d, db_avg d)"
  "\<lambda>d. map ag_BucketStart (db_hourly d)" daily_row "\<lambda>d t name. filter (in_day t name) (db_hourly d) \<noteq> []"
proof (unfold_locales, goal_cases)
  case (3 t d n d' name t')
  from daily_stmt_spec [OF 3] show ?case
    by (simp add: row_of_replace_rows [where t = t] row_keys daily_names_iff)
next
  case (5 d' d)
  then show ?case by (auto simp: daily_row_def fun_eq_iff sql_avg_def Let_def)
next
  case (6 d t name)
  then show ?case by (auto simp: in_day_def filter_empty_conv)
qed (auto simp: day_pos replace_rows_distinct AggregateDaily_def dest: daily_stmt_spec)

text \<open>
  A successful run of the hourly aggregation leaves the samples alone and writes exactly the rows
  of the hours it covers: for every sensor with a value in such an hour the minimum, maximum,
  average and number of these values, replacing an older row of the same hour; every other row stays
  as it was. Starting at the earliest sample instead of the requested time makes no difference.
\<close>

theorem AggregateHourly_rows:
  assumes "AggregateHourly since until ctx d = ((n, None), d')"
  shows "db_samples d' = db_samples d \<and>
    row_of (db_hourly d') name t =
      (if in_buckets Hour (first_bucket Hour (max_bucket (db_hourly d)) since) (Truncate Hour until) t \<and>
          bucket_values d name t (t + Hour) \<noteq> []
       then Some (hourly_row d t name) else row_of (db_hourly d) name t)"
  using hourly.agg_rows [OF assms] by blast

definition hour_db :: db where
  "hour_db = empty_db\<lparr>db_sample_seq := 1, db_samples :=
     [\<lparr>sr_ID = 1, sr_Name = ''v'', sr_Sample = demo_sample (Hour + 5)\<rparr>]\<rparr>"

lemma hour_db_run:
  "\<exists>d'. AggregateHourly 0 (2 * Hour) \<lparr>ctx_left = None, ctx_err = Errorf ''''\<rparr> hour_db = ((1, None), d')"
  by (simp add: AggregateHourly_def query_def stmt_def hour_db_def empty_db_def max_bucket_def
      first_bucket_def clamp_def Truncate_def demo_sample_def at_row_def Hour_def Let_def
      aggregate_loop.simps hourly_stmt_def hourly_names_def ctx_done_def)

lemma AggregateHourly_rows_witness:
  "\<exists>d'. AggregateHourly 0 (2 * Hour) \<lparr>ctx_left = None, ctx_err = Errorf ''''\<rparr> hour_db = ((1, None), d') \<and>
     row_of (db_hourly d') ''v'' Hour = Some (hourly_row hour_db Hour ''v'')"
proof -
  obtain d' where run: "AggregateHourly 0 (2 * Hour) \<lparr>ctx_left = None, ctx_err = Errorf ''''\<rparr> hour_db
      = ((1, None), d')" using hour_db_run by blast
  have "in_buckets Hour (first_bucket Hour (max_bucket (db_hourly hour_db)) 0) (Truncate Hour (2 * Hour)) Hour"
    by (simp add: in_buckets_def first_bucket_def max_bucket_def hour_db_def empty_db_def Truncate_def Hour_def)
  moreover have "bucket_values hour_db ''v'' Hour (Hour + Hour) \<noteq> []"
    by (simp add: bucket_values_def hour_db_def demo_sample_def at_row_def Hour_def List.map_filter_simps)
  ultimately show ?thesis
    using run AggregateHourly_rows [OF run, of "''v''" Hour] by auto
qed

text \<open>
  A successful run of the daily aggregation leaves the hourly rows alone and writes exactly the
  rows of the days it covers, each from the hourly rows of that day.
\<close>

theorem AggregateDaily_rows:
  assumes "AggregateDaily since until ctx d = ((n, None), d')"
  shows "db_hourly d' = db_hourly d \<and>
    row_of (db_daily d') name t =
      (if in_buckets Day (first_bucket Day (max_bucket (db_daily d)) since) (Truncate Day until) t \<and>
          filter (in_day t name) (db_hourly d) \<noteq> []
       then Some (daily_row d t name) else row_of (db_daily d) name t)"
  using daily.agg_rows [OF assms] by blast

lemma AggregateDaily_rows_witness:
  "\<exists>d'. AggregateDaily 0 Day \<lparr>ctx_left = None, ctx_err = Errorf ''''\<rparr> empty_db = ((0, None), d') \<and>
     row_of (db_daily d') ''v'' 0 = None"
proof -
  obtain d' where run: "AggregateDaily 0 Day \<lparr>ctx_left = None, ctx_err = Errorf ''''\<rparr> empty_db = ((0, None), d')"
    by (simp add: AggregateDaily_def query_def stmt_def empty_db_def Let_def)
  from AggregateDaily_rows [OF run, of "''v''" 0] run show ?thesis
    by (auto simp: empty_db_def row_of_def)
qed

text \<open>
  Both aggregations can be repeated: a second successful run with the same bounds changes no row.
\<close>

theorem aggregation_idempotent:
  assumes "AggregateHourly since until ctx d = ((n, None), d1)"
    and "AggregateHourly since until ctx' d1 = ((n', None), d2)"
    and "AggregateDaily since until ctx e = ((k, None), e1)"
    and "AggregateDaily since until ctx' e1 = ((k', None), e2)"
  shows "row_of (db_hourly d2) name t = row_of (db_hourly d1) name t \<and>
         row_of (db_daily e2) name t = row_of (db_daily e1) name t"
  using hourly.agg_idempotent [OF assms(1,2)] daily.agg_idempotent [OF assms(3,4)] by blast

lemma AggregateDaily_none:
  "\<exists>d'. AggregateDaily 0 (2 * Hour) \<lparr>ctx_left = None, ctx_err = Errorf ''''\<rparr> (empty_db\<lparr>db_stmts := k\<rparr>)
     = ((0, None), d') \<and> (\<exists>k'. d' = empty_db\<lparr>db_stmts := k'\<rparr>)"
  by (simp add: AggregateDaily_def query_def stmt_def empty_db_def Let_def)

lemma aggregation_idempotent_witness:
  "\<exists>d1 d2. AggregateHourly 0 (2 * Hour) \<lparr>ctx_left = None, ctx_err = Errorf ''''\<rparr> hour_db = ((1, None), d1) \<and>
     AggregateHourly 0 (2 * Hour) \<lparr>ctx_left = None, ctx_err = Errorf ''''\<rparr> d1 = ((0, None), d2) \<and>
     row_of (db_hourly d2) ''v'' Hour = row_of (db_hourly d1) ''v'' Hour"
proof -
  let ?ctx = "\<lparr>ctx_left = None, ctx_err = Errorf ''''\<rparr>"
  obtain d1 where run1: "AggregateHourly 0 (2 * Hour) ?ctx hour_db = ((1, None), d1)"
    using hour_db_run by blast
  then have "\<exists>d2. AggregateHourly 0 (2 * Hour) ?ctx d1 = ((0, None), d2)"
    by (auto simp: AggregateHourly_def query_def stmt_def hour_db_def empty_db_def max_bucket_def
        first_bucket_def clamp_def Truncate_def demo_sample_def at_row_def Hour_def Let_def
        aggregate_loop.simps hourly_stmt_def hourly_names_def ctx_done_def hourly_row_def
        replace_rows_def replace_row_def)
  then obtain d2 where run2: "AggregateHourly 0 (2 * Hour) ?ctx d1 = ((0, None), d2)" ..
  obtain e1 where e1: "AggregateDaily 0 (2 * Hour) ?ctx (empty_db\<lparr>db_stmts := 0\<rparr>) = ((0, None), e1)"
      "\<exists>k. e1 = empty_db\<lparr>db_stmts := k\<rparr>"
    using AggregateDaily_none by blast
  then obtain e2 where e2: "AggregateDaily 0 (2 * Hour) ?ctx e1 = ((0, None), e2)"
    using AggregateDaily_none by metis
  from aggregation_idempotent [OF run1 run2 e1(1) e2, of "''v''" Hour] run1 run2
  show ?thesis by blast
qed

section \<open>Pruning\<close>

lemma delete_first_keeps: "filter (\<lambda>x. \<not> P x) (delete_first P n xs) = filter (\<lambda>x. \<not> P x) xs"
  by (induction P n xs rule: delete_first.induct) auto

lemma delete_first_sub: "set (delete_first P n xs) \<subseteq> set xs"
  by (induction P n xs rule: delete_first.induct) auto

lemma delete_first_none:
  "0 < n \<Longrightarrow> length (delete_first P n xs) = length xs \<Longrightarrow> filter P xs = []"
proof (induction P n xs rule: delete_first.induct)
  case (3 P n x xs)
  then show ?case
    using length_delete_first [of P n xs] by (auto split: if_splits)
qed simp_all

lemma delete_limit_keeps: "filter (\<lambda>x. \<not> P x) (delete_limit P n xs) = filter (\<lambda>x. \<not> P x) xs"
  by (simp add: delete_limit_def delete_first_keeps)

lemma delete_limit_sub: "set (delete_limit P n xs) \<subseteq> set xs"
  by (simp add: delete_limit_def delete_first_sub)

lemma delete_limit_none:
  assumes "n \<noteq> 0" "length (delete_limit P n xs) = length xs"
  shows "filter P xs = []"
proof (cases "n < 0")
  case True
  with assms(2) have "length (filter (\<lambda>x. \<not> P x) xs) = length xs" by (simp add: delete_limit_def)
  then have "filter (\<lambda>x. \<not> P x) xs = xs"
    by (metis filter_id_conv length_filter_less less_irrefl)
  then show ?thesis by (simp add: filter_id_conv filter_empty_conv)
next
  case False
  with assms show ?thesis by (intro delete_first_none [of "nat n"]) (simp_all add: delete_limit_def)
qed

abbreviation too_old :: "gotime_ns \<Rightarrow> sampleRow \<Rightarrow> bool" where
  "too_old before r \<equiv> at_row r < before"

lemma prune_sensor_spec:
  assumes "prune_sensor name before batch tot d = ((tot', err), d')" "batch \<noteq> 0"
  shows "filter (\<lambda>r. \<not> (sr_Name r = name \<and> too_old before r)) (db_samples d')
           = filter (\<lambda>r. \<not> (sr_Name r = name \<and> too_old before r)) (db_samples d) \<and>
         tot' = tot + int (length (db_samples d)) - int (length (db_samples d')) \<and>
         (err = None \<longrightarrow> filter (\<lambda>r. sr_Name r = name \<and> too_old before r) (db_samples d') = [])"
  using assms
proof (induction name before batch tot d rule: prune_sensor.induct)
  case (1 name before batch tot d)
  let ?P = "\<lambda>r. sr_Name r = name \<and> too_old before r"
  show ?case
  proof (cases "stmt (prune_stmt name before batch) d")
    case (Pair r d1)
    show ?thesis
    proof (cases r)
      case (Inl e)
      with Pair "1.prems"(1) have "d' = d1" "tot' = tot" "err \<noteq> None"
        by (auto simp: prune_sensor.simps [of name])
      moreover have "db_samples d1 = db_samples d"
        using Pair Inl by (auto simp: stmt_err)
      ultimately show ?thesis by auto
    next
      case (Inr n)
      have d1: "db_samples d1 = delete_limit ?P batch (db_samples d)"
        "n = int (length (db_samples d)) - int (length (db_samples d1))"
        using Pair Inr by (auto simp: stmt_ok prune_stmt_def Let_def)
      show ?thesis
      proof (cases "n = 0")
        case True
        then have same: "filter ?P (db_samples d) = []"
          using d1 "1.prems"(2) by (intro delete_limit_none [of batch]) simp_all
        have "d' = d1" "tot' = tot" "err = None"
          using "1.prems"(1) Pair Inr True by (auto simp: prune_sensor.simps [of name])
        moreover have "filter ?P (db_samples d1) = []"
          using same delete_limit_sub [of ?P batch "db_samples d"]
          unfolding filter_empty_conv d1(1) by blast
        ultimately show ?thesis
          using True d1 delete_limit_keeps [of ?P batch "db_samples d"] by simp
      next
        case False
        have "prune_sensor name before batch (tot + n) d1 = ((tot', err), d')"
          using "1.prems"(1) Pair Inr False by (simp add: prune_sensor.simps [of name _ _ _ d])
        from "1.IH" [OF Pair [symmetric] Inr False this "1.prems"(2)]
        show ?thesis
          using d1 delete_limit_keeps [of ?P batch "db_samples d"] by auto
      qed
    qed
  qed
qed


lemma prune_sensor_sub:
  "prune_sensor name before batch tot d = ((tot', err), d') \<Longrightarrow> set (db_samples d') \<subseteq> set (db_samples d)"
proof (induction name before batch tot d rule: prune_sensor.induct)
  case (1 name before batch tot d)
  have step: "set (db_samples d1) \<subseteq> set (db_samples d)" if "stmt (prune_stmt name before batch) d = (r, d1)" for r d1
    using that by (cases r) (auto simp: stmt_ok stmt_err prune_stmt_def Let_def dest: subsetD [OF delete_limit_sub])
  show ?case
  proof (cases "stmt (prune_stmt name before batch) d")
    case (Pair r d1)
    note sub = step [OF Pair]
    show ?thesis
    proof (cases r)
      case (Inl e)
      with "1.prems" Pair sub show ?thesis by (simp add: prune_sensor.simps [of name])
    next
      case (Inr n)
      with "1.prems" Pair sub "1.IH" [OF Pair [symmetric] Inr] show ?thesis
        by (auto simp: prune_sensor.simps [of name _ _ _ d] split: if_splits)
    qed
  qed
qed

lemma prune_sensors_spec:
  assumes "prune_sensors names before batch tot ctx d = ((tot', err), d')" "batch \<noteq> 0"
  shows "filter (\<lambda>r. \<not> too_old before r) (db_samples d') = filter (\<lambda>r. \<not> too_old before r) (db_samples d) \<and>
         tot' = tot + int (length (db_samples d)) - int (length (db_samples d')) \<and>
         set (db_samples d') \<subseteq> set (db_samples d) \<and>
         (err = None \<longrightarrow> (\<forall>r \<in> set (db_samples d'). sr_Name r \<in> set names \<longrightarrow> \<not> too_old before r))"
  using assms
proof (induction names before batch tot ctx d rule: prune_sensors.induct)
  case (2 name names before batch tot ctx d)
  obtain tot1 err1 d1 where one: "prune_sensor name before batch tot d = ((tot1, err1), d1)"
    by (metis prod.exhaust)
  have young: "filter (\<lambda>r. \<not> too_old before r) (filter (\<lambda>r. \<not> (sr_Name r = name \<and> too_old before r)) xs)
      = filter (\<lambda>r. \<not> too_old before r) xs" for xs
    by (simp add: filter_filter) (rule filter_cong, auto)
  note step = prune_sensor_spec [OF one "2.prems"(2)]
  have kept: "filter (\<lambda>r. \<not> too_old before r) (db_samples d1) = filter (\<lambda>r. \<not> too_old before r) (db_samples d)"
    using arg_cong [OF conjunct1 [OF step], of "filter (\<lambda>r. \<not> too_old before r)"]
    by (simp only: young)
  have sub: "set (db_samples d1) \<subseteq> set (db_samples d)"
    using prune_sensor_sub [OF one] .
  show ?case
  proof (cases "err1 = None \<and> \<not> fst (ctx_done ctx)")
    case False
    then have "d' = d1" "tot' = tot1" "err \<noteq> None"
      using "2.prems"(1) one by (auto split: option.splits prod.splits bool.splits)
    with kept step sub show ?thesis by auto
  next
    case True
    then obtain ctx1 where goes_on: "ctx_done ctx = (False, ctx1)" by (metis (full_types) prod.collapse)
    have rest: "prune_sensors names before batch tot1 ctx1 d1 = ((tot', err), d')"
      using "2.prems"(1) one True goes_on by simp
    have "filter (\<lambda>r. \<not> too_old before r) (db_samples d') = filter (\<lambda>r. \<not> too_old before r) (db_samples d1) \<and>
         tot' = tot1 + int (length (db_samples d1)) - int (length (db_samples d')) \<and>
         set (db_samples d') \<subseteq> set (db_samples d1) \<and>
         (err = None \<longrightarrow> (\<forall>r \<in> set (db_samples d'). sr_Name r \<in> set names \<longrightarrow> \<not> too_old before r))"
      using "2.IH" one True goes_on rest "2.prems"(2) by simp
    moreover have "\<not> too_old before r" if "r \<in> set (db_samples d1)" "sr_Name r = name" for r
      using step True that by (auto simp: filter_empty_conv)
    moreover have "tot1 = tot + int (length (db_samples d)) - int (length (db_samples d1))"
      using step by blast
    ultimately show ?thesis
      unfolding kept [symmetric] using sub by (intro conjI) (simp, simp, blast, auto)
  qed
qed auto

lemma PruneSamples_spec:
  assumes "PruneSamples before batch ctx d = ((n, err), d')" "batch \<noteq> 0"
  shows "filter (\<lambda>r. \<not> too_old before r) (db_samples d') = filter (\<lambda>r. \<not> too_old before r) (db_samples d) \<and>
         n = int (length (db_samples d)) - int (length (db_samples d')) \<and>
         (err = None \<longrightarrow> db_samples d' = filter (\<lambda>r. \<not> too_old before r) (db_samples d))"
proof (cases "query (\<lambda>d. remdups (map sr_Name (db_samples d))) d")
  case (Pair r d1)
  have d1: "db_samples d1 = db_samples d"
    using Pair by (cases r) (auto simp: query_ok query_err)
  show ?thesis
  proof (cases r)
    case (Inl e)
    with assms(1) Pair d1 show ?thesis by (auto simp: PruneSamples_def)
  next
    case (Inr names)
    obtain r2 d2 where q2: "query (\<lambda>d. length (filter (\<lambda>r. at_row r < before) (db_samples d))) d1 = (r2, d2)"
      by (metis prod.exhaust)
    have d2: "db_samples d2 = db_samples d"
      using q2 d1 by (cases r2) (auto simp: query_ok query_err)
    have run: "prune_sensors names before batch 0 ctx d2 = ((n, err), d')"
      using assms(1) Pair Inr q2 by (simp add: PruneSamples_def)
    have names: "set names = sr_Name ` set (db_samples d)"
      using Pair Inr by (auto simp: query_ok)
    note spec = prune_sensors_spec [OF run assms(2)]
    have "db_samples d' = filter (\<lambda>r. \<not> too_old before r) (db_samples d)" if "err = None"
    proof -
      have "filter (\<lambda>r. \<not> too_old before r) (db_samples d') = db_samples d'"
        using spec that names d2 by (intro filter_True) auto
      with spec d2 show ?thesis by simp
    qed
    with spec d2 show ?thesis by simp
  qed
qed

text \<open>
  C24: Pruning the samples, whatever becomes of it, keeps every sample that is not too old and reports
  how many rows it removed; when it succeeds exactly the samples from the given time on are left.
  The batch size only changes how the work is split.
\<close>

theorem PruneSamples_exact:
  assumes "PruneSamples before batch ctx d = ((n, err), d')" "batch \<noteq> 0"
  shows "filter (\<lambda>r. before \<le> at_row r) (db_samples d') = filter (\<lambda>r. before \<le> at_row r) (db_samples d) \<and>
         n = int (length (db_samples d)) - int (length (db_samples d')) \<and>
         (err = None \<longrightarrow> db_samples d' = filter (\<lambda>r. before \<le> at_row r) (db_samples d))"
  using PruneSamples_spec [OF assms] by (simp add: not_less)

lemma PruneSamples_exact_witness:
  "\<exists>n err d'. PruneSamples (2 * Hour) 1 \<lparr>ctx_left = None, ctx_err = Errorf ''''\<rparr> hour_db = ((n, err), d') \<and>
     n = int (length (db_samples hour_db)) - int (length (db_samples d'))"
proof -
  obtain n err d' where run: "PruneSamples (2 * Hour) 1 \<lparr>ctx_left = None, ctx_err = Errorf ''''\<rparr> hour_db
      = ((n, err), d')"
    by (metis prod.exhaust)
  then show ?thesis using PruneSamples_exact [OF run] by auto
qed

end
