(* ===== verification/Voltage_Correct.thy ===== *)
theory Voltage_Correct
  imports Voltage Store_Correct
begin

text \<open>
  What the voltage analysis promises. The contract of the store is a locale with an abstract view;
  in it one run is shown to do what a short specification over whole runs of out-of-range samples
  says, and the contract is discharged for the database.
\<close>

section \<open>What a run has to do\<close>

text \<open>
  What the analysis sees of a store: the cursor, the events, the last event id given out, and the
  sample rows.
\<close>

record voltageView =
  vv_cursor :: "voltageCursor option"
  vv_events :: "voltageEvent list"
  vv_seq :: int
  vv_rows :: "sampleRow list"

definition on_event :: "int \<Rightarrow> (voltageEvent \<Rightarrow> voltageEvent) \<Rightarrow> voltageView \<Rightarrow> voltageView" where
  "on_event eid f V = V\<lparr>vv_events := map (\<lambda>e. if ve_ID e = eid then f e else e) (vv_events V)\<rparr>"

definition fresh_event ::
    "int \<Rightarrow> string \<Rightarrow> int \<Rightarrow> gotime_ns \<Rightarrow> f64 \<Rightarrow> f64 \<Rightarrow> f64 \<Rightarrow> voltageEvent" where
  "fresh_event i phase startSampleID startTime minV maxV avgV =
     \<lparr>ve_ID = i, ve_Phase = phase, ve_StartSampleID = startSampleID, ve_StartTime = startTime,
      ve_EndSampleID = None, ve_EndTime = None, ve_MinVoltage = minV, ve_MaxVoltage = maxV,
      ve_AvgVoltage = avgV, ve_DurationSeconds = None\<rparr>"

definition rows_since :: "string \<Rightarrow> int \<Rightarrow> voltageView \<Rightarrow> sampleRow list" where
  "rows_since sensor since V =
     sort_key sr_ID (filter (\<lambda>r. sr_Name r = sensor \<and> since < sr_ID r) (vv_rows V))"

text \<open>
  The contract of a voltage store: what each operation does to the view when it succeeds, and that
  it changes nothing in the view when it fails.
\<close>

locale voltage_store =
  fixes S :: "'s voltageStore" and view :: "'s \<Rightarrow> voltageView"
  assumes get_cursor: "vs_GetVoltageAnalysisCursor S s = (r0, s') \<Longrightarrow>
      view s' = view s \<and> (\<forall>c. r0 = Inr c \<longrightarrow> vv_cursor (view s) = Some c)"
    and save_cursor: "vs_SaveVoltageAnalysisCursor S c s = (r1, s') \<Longrightarrow>
      view s' = (case r1 of Inl _ \<Rightarrow> view s
        | Inr _ \<Rightarrow> (view s)\<lparr>vv_cursor := map_option (\<lambda>_. c) (vv_cursor (view s))\<rparr>)"
    and insert_event: "vs_InsertVoltageEvent S phase sid t lo hi avg s = (r2, s') \<Longrightarrow>
      view s' = (case r2 of Inl _ \<Rightarrow> view s
        | Inr i \<Rightarrow> (view s)\<lparr>vv_seq := i,
            vv_events := vv_events (view s) @ [fresh_event i phase sid t lo hi avg]\<rparr>) \<and>
      (\<forall>i. r2 = Inr i \<longrightarrow> i = vv_seq (view s) + 1)"
    and close_event: "vs_CloseVoltageEvent S eid sid t n s = (r3, s') \<Longrightarrow>
      view s' = (case r3 of Inl _ \<Rightarrow> view s
        | Inr _ \<Rightarrow> on_event eid (\<lambda>e. e\<lparr>ve_EndSampleID := Some sid, ve_EndTime := Some t,
            ve_DurationSeconds := Some n\<rparr>) (view s))"
    and update_event: "vs_UpdateVoltageEvent S eid lo hi avg s = (r4, s') \<Longrightarrow>
      view s' = (case r4 of Inl _ \<Rightarrow> view s
        | Inr _ \<Rightarrow> on_event eid (\<lambda>e. e\<lparr>ve_MinVoltage := lo, ve_MaxVoltage := hi,
            ve_AvgVoltage := avg\<rparr>) (view s))"
    and get_event: "vs_GetVoltageEvent S eid s = (r5, s') \<Longrightarrow>
      view s' = view s \<and> (\<forall>x. r5 = Inr x \<longrightarrow> x = map_option (\<lambda>e. (ve_ID e, ve_Phase e, ve_StartTime e))
        (List.find (\<lambda>e. ve_ID e = eid) (vv_events (view s))))"
    and get_rows: "vs_GetNewVoltageSampleRows S sensor since s = (r6, s') \<Longrightarrow>
      view s' = view s \<and> (\<forall>x. r6 = Inr x \<longrightarrow> x = rows_since sensor since (view s))"

definition db_view :: "db \<Rightarrow> voltageView" where
  "db_view d = \<lparr>vv_cursor = db_cursor d, vv_events = db_events d, vv_seq = db_event_seq d,
     vv_rows = db_samples d\<rparr>"

lemma db_view_sel [simp]:
  "vv_cursor (db_view d) = db_cursor d" "vv_events (db_view d) = db_events d"
  "vv_seq (db_view d) = db_event_seq d" "vv_rows (db_view d) = db_samples d"
  "db_view (d\<lparr>db_samples := rs\<rparr>) = (db_view d)\<lparr>vv_rows := rs\<rparr>"
  by (simp_all add: db_view_def)

interpretation db_voltage: voltage_store db_store db_view
proof (unfold_locales, goal_cases)
  case (1 s r s')
  then show ?case
    by (cases r) (auto simp: db_store_def db_view_def GetVoltageAnalysisCursor_def statement_simps
        split: prod.splits sum.splits option.splits)
next
  case (6 eid s r s')
  then show ?case
    by (cases r) (auto simp: db_store_def db_view_def GetVoltageEvent_def statement_simps)
next
  case (7 sensor since s r s')
  then show ?case
    by (cases r) (auto simp: db_store_def db_view_def GetNewVoltageSampleRows_def rows_since_def statement_simps)
qed (auto simp: db_store_def db_view_def SaveVoltageAnalysisCursor_def InsertVoltageEvent_def
      CloseVoltageEvent_def UpdateVoltageEvent_def update_event_def on_event_def fresh_event_def
      statement_simps Let_def split: sum.splits)

section \<open>The specification of a run\<close>

text \<open>
  The readings of a phase are its new samples with a value, as pairs of time and voltage. An outage
  is a maximal run of readings out of range, with the time of the reading that ended it, if any.
\<close>

type_synonym reading = "gotime_ns \<times> f64"
type_synonym outage = "reading list \<times> gotime_ns option"

definition readings :: "sampleRow list \<Rightarrow> reading list" where
  "readings rows = List.map_filter (\<lambda>r. map_option (\<lambda>v. (at_row r, v)) (sm_Value (sr_Sample r))) rows"

definition out_reading :: "reading \<Rightarrow> bool" where
  "out_reading x \<longleftrightarrow> isOut (snd x)"

definition ended :: "reading list \<Rightarrow> gotime_ns option" where
  "ended xs = (case xs of [] \<Rightarrow> None | x # _ \<Rightarrow> Some (fst x))"

function outages :: "reading list \<Rightarrow> outage list" where
  "outages [] = []"
| "outages (x # xs) =
     (if out_reading x
      then (x # takeWhile out_reading xs, ended (dropWhile out_reading xs)) # outages (dropWhile out_reading xs)
      else outages xs)"
  by pat_completeness auto
termination
  by (relation "measure length") (auto simp: length_dropWhile_le le_imp_less_Suc)

text \<open>Minimum, maximum and mean of the voltages of a run, as the code computes them.\<close>

definition run_min :: "f64 list \<Rightarrow> f64" where
  "run_min vs = foldl (\<lambda>m v. if f_less v m then v else m) (hd vs) (tl vs)"

definition run_max :: "f64 list \<Rightarrow> f64" where
  "run_max vs = foldl (\<lambda>m v. if f_less m v then v else m) (hd vs) (tl vs)"

definition run_sum :: "f64 list \<Rightarrow> f64" where
  "run_sum vs = foldl f_add (hd vs) (tl vs)"

definition run_avg :: "f64 list \<Rightarrow> f64" where
  "run_avg vs = f_div (run_sum vs) (f_of_int (int (length vs)))"

definition with_stats :: "reading list \<Rightarrow> voltageEvent \<Rightarrow> voltageEvent" where
  "with_stats xs e = (let vs = map snd xs in
     e\<lparr>ve_MinVoltage := run_min vs, ve_MaxVoltage := run_max vs, ve_AvgVoltage := run_avg vs\<rparr>)"

definition finish :: "gotime_ns \<Rightarrow> gotime_ns option \<Rightarrow> voltageEvent \<Rightarrow> voltageEvent" where
  "finish t0 stop e = (case stop of None \<Rightarrow> e
     | Some t \<Rightarrow> e\<lparr>ve_EndSampleID := Some 0, ve_EndTime := Some t, ve_DurationSeconds := Some (durSec t t0)\<rparr>)"

text \<open>The event of an outage. A single reading is its own minimum, maximum and mean.\<close>

definition event_of :: "string \<Rightarrow> int \<Rightarrow> outage \<Rightarrow> voltageEvent" where
  "event_of phase i g = (case g of (xs, stop) \<Rightarrow>
     let (t, v) = hd xs; e = fresh_event i phase 0 t v v v in
     finish t stop (if tl xs = [] then e else with_stats xs e))"

fun events_of :: "string \<Rightarrow> int \<Rightarrow> outage list \<Rightarrow> voltageEvent list" where
  "events_of phase i [] = []"
| "events_of phase i (g # gs) = event_of phase (i + 1) g # events_of phase (i + 1) gs"

definition add_outages :: "string \<Rightarrow> outage list \<Rightarrow> voltageView \<Rightarrow> voltageView" where
  "add_outages phase gs V = V\<lparr>vv_events := vv_events V @ events_of phase (vv_seq V) gs,
     vv_seq := vv_seq V + int (length gs)\<rparr>"

definition still_open :: "int \<Rightarrow> outage list \<Rightarrow> int option" where
  "still_open i gs = (if gs \<noteq> [] \<and> snd (last gs) = None then Some (i + int (length gs)) else None)"

definition event_start :: "int \<Rightarrow> voltageView \<Rightarrow> gotime_ns" where
  "event_start eid V = (case List.find (\<lambda>e. ve_ID e = eid) (vv_events V) of
     None \<Rightarrow> zero_time | Some e \<Rightarrow> ve_StartTime e)"

text \<open>
  One phase: an ongoing event takes the readings up to the first one in range, which ends it; its
  minimum, maximum and mean become those of these readings alone. Every outage after that is a new
  event.
\<close>

definition phase_spec :: "string \<Rightarrow> int option \<Rightarrow> reading list \<Rightarrow> voltageView \<Rightarrow> voltageView \<times> int option" where
  "phase_spec phase ongoing xs V =
     (case ongoing of
        None \<Rightarrow> (add_outages phase (outages xs) V, still_open (vv_seq V) (outages xs))
      | Some eid \<Rightarrow>
          (let more = takeWhile out_reading xs; rest = dropWhile out_reading xs in
           (add_outages phase (outages rest)
              (on_event eid (finish (event_start eid V) (ended rest) \<circ>
                 (if more = [] then id else with_stats more)) V),
            if rest = [] then Some eid else still_open (vv_seq V) (outages rest))))"

definition known_ids :: "voltageView \<Rightarrow> bool" where
  "known_ids V \<longleftrightarrow> (\<forall>e \<in> set (vv_events V). ve_ID e \<le> vv_seq V)"

section \<open>Algebra of the view\<close>

lemma ended_None: "ended xs = None \<longleftrightarrow> xs = []"
  by (cases xs) (simp_all add: ended_def)

lemma on_event_sel [simp]:
  "vv_seq (on_event eid f V) = vv_seq V" "vv_rows (on_event eid f V) = vv_rows V"
  "vv_cursor (on_event eid f V) = vv_cursor V"
  "vv_events (on_event eid f V) = map (\<lambda>e. if ve_ID e = eid then f e else e) (vv_events V)"
  by (simp_all add: on_event_def)

lemma add_outages_sel [simp]:
  "vv_rows (add_outages p gs V) = vv_rows V" "vv_cursor (add_outages p gs V) = vv_cursor V"
  "vv_seq (add_outages p gs V) = vv_seq V + int (length gs)"
  "vv_events (add_outages p gs V) = vv_events V @ events_of p (vv_seq V) gs"
  "add_outages p [] V = V"
  by (simp_all add: add_outages_def)

lemma on_event_comp:
  "(\<And>e. ve_ID (g e) = ve_ID e) \<Longrightarrow> on_event eid f (on_event eid g V) = on_event eid (f \<circ> g) V"
  by (simp add: on_event_def)

lemma on_event_id [simp]: "on_event eid id V = V" "on_event eid (\<lambda>e. e) V = V"
  by (simp_all add: on_event_def map_idI)

lemma finish_None [simp]: "finish t0 None = id"
  by (simp add: finish_def fun_eq_iff)

lemma kept_ids [simp]:
  "ve_ID (finish t0 stop e) = ve_ID e" "ve_ID (with_stats xs e) = ve_ID e"
  "ve_ID (event_of p i g) = i"
  by (simp_all add: finish_def with_stats_def event_of_def fresh_event_def Let_def
      split: option.splits prod.splits)

lemma with_stats_absorb [simp]: "with_stats xs (with_stats ys e) = with_stats xs e"
  by (simp add: with_stats_def Let_def)

lemma events_of_ids: "e \<in> set (events_of p i gs) \<Longrightarrow> i < ve_ID e \<and> ve_ID e \<le> i + int (length gs)"
  by (induction gs arbitrary: i) force+

lemma known_ids_on_event: "known_ids V \<Longrightarrow> (\<And>e. ve_ID (f e) = ve_ID e) \<Longrightarrow> known_ids (on_event eid f V)"
  by (auto simp: known_ids_def)

lemma known_ids_add: "known_ids V \<Longrightarrow> known_ids (add_outages p gs V)"
  by (force simp: known_ids_def dest: events_of_ids)

lemma run_snoc:
  assumes "vs \<noteq> []"
  shows "run_min (vs @ [v]) = (if f_less v (run_min vs) then v else run_min vs)"
    "run_max (vs @ [v]) = (if f_less (run_max vs) v then v else run_max vs)"
    "run_sum (vs @ [v]) = f_add (run_sum vs) v"
  using assms by (simp_all add: run_min_def run_max_def run_sum_def)

lemma run_single [simp]: "run_min [v] = v" "run_max [v] = v" "run_sum [v] = v"
  by (simp_all add: run_min_def run_max_def run_sum_def)

lemma readings_Cons:
  "readings (r # rs) = (case sm_Value (sr_Sample r) of None \<Rightarrow> readings rs
     | Some v \<Rightarrow> (at_row r, v) # readings rs)"
  by (simp add: readings_def List.map_filter_simps split: option.splits)

lemma still_open_Cons:
  "still_open i ((xs, stop) # gs) =
     (if gs = [] then (if stop = None then Some (i + 1) else None) else still_open (i + 1) gs)"
  by (auto simp: still_open_def)

text \<open>The accumulator of the loop holds the statistics of the readings \<open>xs\<close> since the event was taken up.\<close>

definition holds :: "phaseState \<Rightarrow> int \<Rightarrow> gotime_ns \<Rightarrow> reading list \<Rightarrow> bool" where
  "holds st eid t0 xs \<longleftrightarrow> ps_eventID st = Some eid \<and> ps_startTime st = t0 \<and>
     ps_count st = int (length xs) \<and>
     (xs \<noteq> [] \<longrightarrow> ps_minV st = run_min (map snd xs) \<and> ps_maxV st = run_max (map snd xs) \<and>
        ps_sumV st = run_sum (map snd xs))"

lemma holds_accumulate: "holds st eid t0 xs \<Longrightarrow> holds (accumulate v st) eid t0 (xs @ [(t, v)])"
  by (cases "xs = []") (auto simp: holds_def accumulate_def run_snoc)

text \<open>What is left to do for an event that holds \<open>xs\<close>, and for no event.\<close>

definition open_spec ::
    "string \<Rightarrow> int \<Rightarrow> gotime_ns \<Rightarrow> reading list \<Rightarrow> reading list \<Rightarrow> voltageView \<Rightarrow> voltageView \<times> int option" where
  "open_spec p eid t0 xs ys V =
     (let more = takeWhile out_reading ys; rest = dropWhile out_reading ys in
      (add_outages p (outages rest) (on_event eid (finish t0 (ended rest) \<circ>
         (if more = [] then id else with_stats (xs @ more))) V),
       if rest = [] then Some eid else still_open (vv_seq V) (outages rest)))"

lemma open_spec_out:
  assumes "out_reading y"
  shows "open_spec p eid t0 xs (y # ys) V =
     open_spec p eid t0 (xs @ [y]) ys (on_event eid (with_stats (xs @ [y])) V)"
  using assms by (auto simp: open_spec_def Let_def on_event_comp comp_def)

lemma open_spec_in:
  assumes "\<not> out_reading y"
  shows "open_spec p eid t0 xs (y # ys) V = phase_spec p None ys (on_event eid (finish t0 (Some (fst y))) V)"
  using assms by (simp add: open_spec_def phase_spec_def ended_def Let_def comp_def)

lemma phase_spec_in: "\<not> out_reading y \<Longrightarrow> phase_spec p None (y # ys) V = phase_spec p None ys V"
  by (simp add: phase_spec_def)

lemma on_new_event:
  assumes "known_ids V"
  shows "on_event (vv_seq V + 1) f (V\<lparr>vv_seq := vv_seq V + 1, vv_events := vv_events V @ [e]\<rparr>) =
    V\<lparr>vv_seq := vv_seq V + 1, vv_events := vv_events V @ [if ve_ID e = vv_seq V + 1 then f e else e]\<rparr>"
proof -
  have "map (\<lambda>e. if ve_ID e = vv_seq V + 1 then f e else e) (vv_events V) = vv_events V"
    using assms by (intro map_idI) (auto simp: known_ids_def)
  then show ?thesis by (simp add: on_event_def)
qed

lemma phase_spec_out:
  assumes "out_reading (t, v)" "known_ids V"
  shows "phase_spec p None ((t, v) # ys) V = open_spec p (vv_seq V + 1) t [(t, v)] ys
     (V\<lparr>vv_seq := vv_seq V + 1,
        vv_events := vv_events V @ [fresh_event (vv_seq V + 1) p 0 t v v v]\<rparr>)"
proof -
  let ?more = "takeWhile out_reading ys" and ?rest = "dropWhile out_reading ys"
  have "ended ?rest = None \<longleftrightarrow> ?rest = []" by (rule ended_None)
  moreover have "?rest \<noteq> [] \<Longrightarrow> outages ?rest = [] \<Longrightarrow> still_open (vv_seq V + 1) (outages ?rest) = None"
    by (simp add: still_open_def)
  ultimately show ?thesis
    using assms
    by (auto simp: phase_spec_def open_spec_def Let_def on_new_event still_open_Cons add_outages_def
        event_of_def fresh_event_def simp del: dropWhile_eq_Nil_conv)
qed

lemma phase_spec_frame:
  "phase_spec p o' xs V = (V', o1) \<Longrightarrow> vv_rows V' = vv_rows V \<and> vv_cursor V' = vv_cursor V"
  by (auto simp: phase_spec_def Let_def split: option.splits)

lemma phase_spec_ids: "phase_spec p o' xs V = (V', o1) \<Longrightarrow> known_ids V \<Longrightarrow> known_ids V'"
  by (auto simp: phase_spec_def Let_def intro!: known_ids_add known_ids_on_event split: option.splits if_splits)

section \<open>The loop meets its specification\<close>

context voltage_store
begin

lemma out_step_open:
  assumes "out_step S p t v st s = (Inr st1, s1)" "holds st eid t0 xs"
  shows "holds st1 eid t0 (xs @ [(t, v)]) \<and> view s1 = on_event eid (with_stats (xs @ [(t, v)])) (view s)"
proof -
  let ?st = "accumulate v st"
  have h: "holds ?st eid t0 (xs @ [(t, v)])" by (rule holds_accumulate) fact
  have "ps_eventID st = Some eid" using assms(2) by (simp add: holds_def)
  then obtain s2 where "st1 = ?st" and
    "vs_UpdateVoltageEvent S eid (ps_minV ?st) (ps_maxV ?st) (f_div (ps_sumV ?st) (f_of_int (ps_count ?st))) s
      = (Inr s2, s1)"
    using assms(1) by (auto simp: out_step_def Let_def split: prod.splits sum.splits)
  with h update_event [OF this(2)] show ?thesis
    by (simp add: holds_def with_stats_def [abs_def] run_avg_def Let_def)
qed

lemma out_step_new:
  assumes "out_step S p t v st s = (Inr st1, s1)" "ps_eventID st = None"
  shows "holds st1 (vv_seq (view s) + 1) t [(t, v)] \<and>
    view s1 = (view s)\<lparr>vv_seq := vv_seq (view s) + 1,
      vv_events := vv_events (view s) @ [fresh_event (vv_seq (view s) + 1) p 0 t v v v]\<rparr>"
proof -
  obtain eid where "vs_InsertVoltageEvent S p 0 t v v v s = (Inr eid, s1)"
      and "st1 = st\<lparr>ps_eventID := Some eid, ps_startTime := t, ps_minV := v, ps_maxV := v, ps_sumV := v, ps_count := 1\<rparr>"
    using assms by (auto simp: out_step_def Let_def split: prod.splits sum.splits)
  with insert_event [OF this(1)] show ?thesis by (simp add: holds_def)
qed

lemma in_step_open:
  assumes "in_step S t st s = (Inr st1, s1)" "holds st eid t0 xs"
  shows "ps_eventID st1 = None \<and> view s1 = on_event eid (finish t0 (Some t)) (view s)"
proof -
  obtain u where "vs_CloseVoltageEvent S eid 0 t (durSec t t0) s = (Inr u, s1)" "st1 = st\<lparr>ps_eventID := None\<rparr>"
    using assms by (auto simp: in_step_def holds_def split: prod.splits sum.splits)
  with close_event [OF this(1)] show ?thesis by (simp add: finish_def [abs_def])
qed

lemma phase_loop_max:
  "phase_loop S p rs st m s = (Inr (st', m'), s') \<Longrightarrow> m' = foldl max m (map sr_ID rs)"
proof (induction rs arbitrary: st m s)
  case (Cons r rs)
  have "(if m < sr_ID r then sr_ID r else m) = max m (sr_ID r)" by simp
  with Cons show ?case
    by (auto simp: Let_def split: option.splits prod.splits sum.splits if_splits)
qed simp

lemma phase_loop_spec:
  assumes "phase_loop S p rs st m s = (Inr (st', m'), s')" "known_ids (view s)"
  shows "(ps_eventID st = None \<longrightarrow> (view s', ps_eventID st') = phase_spec p None (readings rs) (view s)) \<and>
    (\<forall>eid t0 xs. holds st eid t0 xs \<longrightarrow>
       (view s', ps_eventID st') = open_spec p eid t0 xs (readings rs) (view s))"
  using assms
proof (induction rs arbitrary: st m s)
  case Nil
  then show ?case
    by (auto simp: readings_def List.map_filter_simps phase_spec_def still_open_def open_spec_def
        ended_def holds_def)
next
  case (Cons r rs)
  show ?case
  proof (cases "sm_Value (sr_Sample r)")
    case None
    with Cons show ?thesis by (simp add: readings_Cons Let_def)
  next
    case (Some v)
    let ?t = "at_row r"
    obtain st1 s1 m1 where step: "(if isOut v then out_step S p ?t v st s else in_step S ?t st s)
          = (Inr st1, s1)" and rest: "phase_loop S p rs st1 m1 s1 = (Inr (st', m'), s')"
      using Cons.prems(1) Some by (auto simp: Let_def split: prod.splits sum.splits)
    note IH = Cons.IH [OF rest] and ids = Cons.prems(2)
    have cons: "readings (r # rs) = (?t, v) # readings rs" using Some by (simp add: readings_Cons)
    have closed: "(view s', ps_eventID st') = phase_spec p None (readings (r # rs)) (view s)"
      if none: "ps_eventID st = None"
    proof (cases "isOut v")
      case True
      with step none have new: "holds st1 (vv_seq (view s) + 1) ?t [(?t, v)]" "view s1 = (view s)
          \<lparr>vv_seq := vv_seq (view s) + 1,
           vv_events := vv_events (view s) @ [fresh_event (vv_seq (view s) + 1) p 0 ?t v v v]\<rparr>"
        using out_step_new [of p ?t v st s st1 s1] by simp_all
      then have "known_ids (view s1)" using ids by (auto simp: known_ids_def fresh_event_def)
      with IH new True ids show ?thesis by (simp add: cons phase_spec_out out_reading_def)
    next
      case False
      with step none have "st1 = st" "s1 = s" by (simp_all add: in_step_def)
      with IH ids none False show ?thesis by (simp add: cons phase_spec_in out_reading_def)
    qed
    have "(view s', ps_eventID st') = open_spec p eid t0 xs (readings (r # rs)) (view s)"
      if h: "holds st eid t0 xs" for eid t0 xs
    proof (cases "isOut v")
      case True
      with step h have new: "holds st1 eid t0 (xs @ [(?t, v)])"
          "view s1 = on_event eid (with_stats (xs @ [(?t, v)])) (view s)"
        using out_step_open [of p ?t v st s st1 s1] by simp_all
      with IH ids True show ?thesis
        by (simp add: cons open_spec_out out_reading_def known_ids_on_event)
    next
      case False
      with step h have new: "ps_eventID st1 = None" "view s1 = on_event eid (finish t0 (Some ?t)) (view s)"
        using in_step_open [of ?t st s st1 s1] by simp_all
      with IH ids False show ?thesis
        by (simp add: cons open_spec_in out_reading_def known_ids_on_event)
    qed
    with closed show ?thesis by blast
  qed
qed


lemma analyse_phase_spec:
  assumes "analyse_phase S since p ongoing m s = (Inr (o1, m'), s')" "known_ids (view s)"
  shows "(view s', o1) = phase_spec p ongoing (readings (rows_since p since (view s))) (view s) \<and>
    m' = foldl max m (map sr_ID (rows_since p since (view s)))"
proof -
  obtain rows s1 st s2 st1 where rows: "vs_GetNewVoltageSampleRows S p since s = (Inr rows, s1)"
      and st: "resume_phase S ongoing s1 = (Inr st, s2)"
      and loop: "phase_loop S p rows st m s2 = (Inr (st1, m'), s')" and o1: "o1 = ps_eventID st1"
    using assms(1) by (auto simp: analyse_phase_def split: prod.splits sum.splits)
  have s1: "view s1 = view s" "rows = rows_since p since (view s)" using get_rows [OF rows] by auto
  have st_ok: "view s2 = view s \<and> (case ongoing of None \<Rightarrow> ps_eventID st = None
      | Some eid \<Rightarrow> holds st eid (event_start eid (view s)) [])"
  proof (cases ongoing)
    case None
    with st s1 show ?thesis by (auto simp: resume_phase_def zero_phase_def)
  next
    case (Some eid)
    obtain x where get: "vs_GetVoltageEvent S eid s1 = (Inr x, s2)"
        and x: "st = (case x of None \<Rightarrow> zero_phase\<lparr>ps_eventID := Some eid\<rparr>
          | Some (_, _, t) \<Rightarrow> zero_phase\<lparr>ps_eventID := Some eid, ps_startTime := t\<rparr>)"
      using st Some by (auto simp: resume_phase_def split: prod.splits sum.splits option.splits)
    from get_event [OF get] x s1 Some show ?thesis
      by (auto simp: holds_def event_start_def zero_phase_def split: option.splits)
  qed
  note spec = phase_loop_spec [OF loop]
  have "(view s', o1) = phase_spec p ongoing (readings rows) (view s)"
  proof (cases ongoing)
    case None
    with spec st_ok o1 assms(2) show ?thesis by simp
  next
    case (Some eid)
    with spec st_ok o1 assms(2)
    have "(view s', o1) = open_spec p eid (event_start eid (view s)) [] (readings rows) (view s)" by simp
    with Some show ?thesis by (simp only: open_spec_def phase_spec_def option.case append_Nil)
  qed
  then show ?thesis using s1 phase_loop_max [OF loop] by simp
qed

end

text \<open>All phases in order: the view, the ongoing events, and the rows that were looked at.\<close>

fun phases_spec :: "int \<Rightarrow> (string \<times> int option) list \<Rightarrow> voltageView \<Rightarrow> voltageView \<times> int option list" where
  "phases_spec since [] V = (V, [])"
| "phases_spec since ((p, ongoing) # ps) V =
     (case phase_spec p ongoing (readings (rows_since p since V)) V of
        (V1, o1) \<Rightarrow> (case phases_spec since ps V1 of (V2, os) \<Rightarrow> (V2, o1 # os)))"

definition run_spec :: "gotime_ns \<Rightarrow> voltageView \<Rightarrow> voltageView option" where
  "run_spec now V = (case vv_cursor V of None \<Rightarrow> None
     | Some c \<Rightarrow>
         (let since = vc_LastProcessedSampleID c;
              (V1, os) = phases_spec since (phases c) V;
              ids = map sr_ID (concat (map (\<lambda>(p, _). rows_since p since V) (phases c))) in
          Some (V1\<lparr>vv_cursor := Some \<lparr>vc_LastProcessedSampleID = Max (set (since # ids)),
            vc_OngoingL1 = os ! 0, vc_OngoingL2 = os ! 1, vc_OngoingL3 = os ! 2, vc_LastRunAt = now\<rparr>\<rparr>)))"

lemma foldl_max: "foldl max (m :: int) xs = Max (set (m # xs))"
proof (induction xs arbitrary: m)
  case (Cons x xs)
  have "foldl max m (x # xs) = Max (insert (max m x) (set xs))" using Cons [of "max m x"] by simp
  also have "\<dots> = Max (set (m # x # xs))" by (cases "xs = []") (simp_all add: max.assoc)
  finally show ?case .
qed simp

lemma rows_since_cong: "vv_rows V = vv_rows V' \<Longrightarrow> rows_since p since V = rows_since p since V'"
  by (simp add: rows_since_def)

context voltage_store
begin

lemma analyse_phases_spec:
  assumes "analyse_phases S since ps m s = (Inr (os, m'), s')" "known_ids (view s)"
  shows "(view s', os) = phases_spec since ps (view s) \<and> known_ids (view s') \<and>
    vv_rows (view s') = vv_rows (view s) \<and> vv_cursor (view s') = vv_cursor (view s) \<and>
    m' = foldl max m (map sr_ID (concat (map (\<lambda>(p, _). rows_since p since (view s)) ps)))"
  using assms
proof (induction ps arbitrary: m s os)
  case (Cons q ps)
  obtain p ongoing where q: "q = (p, ongoing)" by force
  obtain o1 m1 s1 os1 where one: "analyse_phase S since p ongoing m s = (Inr (o1, m1), s1)"
      and rest: "analyse_phases S since ps m1 s1 = (Inr (os1, m'), s')" and os: "os = o1 # os1"
    using Cons.prems(1) by (auto simp: q split: prod.splits sum.splits)
  note spec = analyse_phase_spec [OF one Cons.prems(2)]
  then have ph: "phase_spec p ongoing (readings (rows_since p since (view s))) (view s) = (view s1, o1)" by simp
  have frame: "known_ids (view s1)" "vv_rows (view s1) = vv_rows (view s)"
      "vv_cursor (view s1) = vv_cursor (view s)"
    using phase_spec_ids [OF ph Cons.prems(2)] phase_spec_frame [OF ph] by auto
  have rows: "rows_since r since (view s1) = rows_since r since (view s)" for r
    using frame(2) by (rule rows_since_cong)
  have "(view s', os1) = phases_spec since ps (view s1)" and ok: "known_ids (view s') \<and>
      vv_rows (view s') = vv_rows (view s) \<and> vv_cursor (view s') = vv_cursor (view s) \<and>
      m' = foldl max m1 (map sr_ID (concat (map (\<lambda>(p, _). rows_since p since (view s)) ps)))"
    using Cons.IH [OF rest frame(1)] frame rows by simp_all
  then have "(view s', os) = phases_spec since (q # ps) (view s)"
    using ph by (auto simp: q os split: prod.splits)
  with ok spec show ?case by (simp add: q)
qed simp

lemma run_refines:
  assumes "RunVoltageAnalysis now S s = (None, s')" "known_ids (view s)"
  shows "run_spec now (view s) = Some (view s') \<and> known_ids (view s') \<and> vv_rows (view s') = vv_rows (view s)"
proof -
  obtain c s1 os m s2 u where c: "vs_GetVoltageAnalysisCursor S s = (Inr c, s1)"
      and ph: "analyse_phases S (vc_LastProcessedSampleID c) (phases c) (vc_LastProcessedSampleID c) s1
        = (Inr (os, m), s2)"
      and save: "vs_SaveVoltageAnalysisCursor S
        \<lparr>vc_LastProcessedSampleID = m, vc_OngoingL1 = os ! 0, vc_OngoingL2 = os ! 1,
         vc_OngoingL3 = os ! 2, vc_LastRunAt = now\<rparr> s2 = (Inr u, s')"
    using assms(1) by (auto simp: RunVoltageAnalysis_def split: prod.splits sum.splits)
  have s1: "view s1 = view s" "vv_cursor (view s) = Some c" using get_cursor [OF c] by auto
  note spec = analyse_phases_spec [OF ph, unfolded s1(1), OF assms(2)]
  then have ps: "phases_spec (vc_LastProcessedSampleID c) (phases c) (view s) = (view s2, os)" by simp
  have "view s' = (view s2)\<lparr>vv_cursor := Some \<lparr>vc_LastProcessedSampleID = m, vc_OngoingL1 = os ! 0,
      vc_OngoingL2 = os ! 1, vc_OngoingL3 = os ! 2, vc_LastRunAt = now\<rparr>\<rparr>"
    using save_cursor [OF save] spec s1 by simp
  then show ?thesis
    using spec s1 ps by (simp add: run_spec_def Let_def foldl_max known_ids_def)
qed

end

section \<open>Failing and succeeding\<close>

text \<open>A store whose operations cannot fail as long as \<open>ok\<close> holds.\<close>

locale reliable_store = voltage_store +
  fixes ok :: "'a \<Rightarrow> bool"
  assumes ok_cursor: "ok s \<Longrightarrow> \<exists>c s'. vs_GetVoltageAnalysisCursor S s = (Inr c, s') \<and> ok s'"
    and ok_save: "ok s \<Longrightarrow> \<exists>u s'. vs_SaveVoltageAnalysisCursor S c s = (Inr u, s') \<and> ok s'"
    and ok_insert: "ok s \<Longrightarrow> \<exists>i s'. vs_InsertVoltageEvent S p n t lo hi avg s = (Inr i, s') \<and> ok s'"
    and ok_close: "ok s \<Longrightarrow> \<exists>u s'. vs_CloseVoltageEvent S eid n t k s = (Inr u, s') \<and> ok s'"
    and ok_update: "ok s \<Longrightarrow> \<exists>u s'. vs_UpdateVoltageEvent S eid lo hi avg s = (Inr u, s') \<and> ok s'"
    and ok_event: "ok s \<Longrightarrow> \<exists>x s'. vs_GetVoltageEvent S eid s = (Inr x, s') \<and> ok s'"
    and ok_rows: "ok s \<Longrightarrow> \<exists>x s'. vs_GetNewVoltageSampleRows S p since s = (Inr x, s') \<and> ok s'"
begin

lemma ok_step: "ok s \<Longrightarrow> \<exists>st1 s1. (if isOut v then out_step S p t v st s else in_step S t st s) = (Inr st1, s1) \<and> ok s1"
  using ok_insert [of s p 0 t v v v]
    ok_update [of s "the (ps_eventID st)" "ps_minV (accumulate v st)" "ps_maxV (accumulate v st)"
      "f_div (ps_sumV (accumulate v st)) (f_of_int (ps_count (accumulate v st)))"]
    ok_close [of s "the (ps_eventID st)" 0 t "durSec t (ps_startTime st)"]
  by (auto simp: out_step_def in_step_def Let_def split: option.splits)

lemma ok_loop: "ok s \<Longrightarrow> \<exists>x s1. phase_loop S p rs st m s = (Inr x, s1) \<and> ok s1"
proof (induction rs arbitrary: st m s)
  case (Cons r rs)
  show ?case
  proof (cases "sm_Value (sr_Sample r)")
    case None
    then show ?thesis using Cons.IH [OF Cons.prems] by (simp add: Let_def)
  next
    case (Some v)
    obtain st1 s1 where "(if isOut v then out_step S p (at_row r) v st s else in_step S (at_row r) st s) = (Inr st1, s1)"
        "ok s1" using ok_step [OF Cons.prems] by blast
    with Some Cons.IH [of s1 st1] show ?thesis by (simp add: Let_def)
  qed
qed simp

lemma ok_resume: "ok s \<Longrightarrow> \<exists>st s1. resume_phase S ongoing s = (Inr st, s1) \<and> ok s1"
  using ok_event [of s "the ongoing"]
  by (fastforce simp: resume_phase_def split: option.splits)

lemma ok_phase: "ok s \<Longrightarrow> \<exists>o1 m1 s1. analyse_phase S since p ongoing m s = (Inr (o1, m1), s1) \<and> ok s1"
proof -
  assume "ok s"
  then obtain rows s1 where 1: "vs_GetNewVoltageSampleRows S p since s = (Inr rows, s1)" "ok s1"
    using ok_rows by blast
  then obtain st s2 where 2: "resume_phase S ongoing s1 = (Inr st, s2)" "ok s2" using ok_resume by blast
  then obtain x s3 where "phase_loop S p rows st m s2 = (Inr x, s3)" "ok s3" using ok_loop by blast
  with 1 2 show ?thesis by (cases x) (simp add: analyse_phase_def)
qed

lemma ok_phases: "ok s \<Longrightarrow> \<exists>os m1 s1. analyse_phases S since ps m s = (Inr (os, m1), s1) \<and> ok s1"
proof (induction ps arbitrary: m s)
  case (Cons q ps)
  obtain p ongoing where q: "q = (p, ongoing)" by force
  obtain o1 m1 s1 where 1: "analyse_phase S since p ongoing m s = (Inr (o1, m1), s1)" "ok s1"
    using ok_phase [OF Cons.prems] by blast
  obtain os m2 s2 where "analyse_phases S since ps m1 s1 = (Inr (os, m2), s2)" "ok s2"
    using Cons.IH [OF 1(2)] by blast
  with 1 show ?case by (simp add: q)
qed simp

lemma run_succeeds: "ok s \<Longrightarrow> \<exists>s'. RunVoltageAnalysis now S s = (None, s') \<and> ok s'"
proof -
  assume "ok s"
  then obtain c s1 where 1: "vs_GetVoltageAnalysisCursor S s = (Inr c, s1)" "ok s1" using ok_cursor by blast
  obtain os m s2 where 2: "analyse_phases S (vc_LastProcessedSampleID c) (phases c)
      (vc_LastProcessedSampleID c) s1 = (Inr (os, m), s2)" "ok s2" using ok_phases [OF 1(2)] by blast
  obtain u s3 where "vs_SaveVoltageAnalysisCursor S
      \<lparr>vc_LastProcessedSampleID = m, vc_OngoingL1 = os ! 0, vc_OngoingL2 = os ! 1,
       vc_OngoingL3 = os ! 2, vc_LastRunAt = now\<rparr> s2 = (Inr u, s3)" "ok s3" using ok_save [OF 2(2)] by blast
  with 1 2 show ?thesis by (simp add: RunVoltageAnalysis_def)
qed

end

definition sound_db :: "db \<Rightarrow> bool" where
  "sound_db d \<longleftrightarrow> (\<forall>n. db_faults d n = None) \<and> db_cursor d \<noteq> None"

interpretation db_reliable: reliable_store db_store db_view sound_db
  by unfold_locales
    (auto simp: db_store_def sound_db_def GetVoltageAnalysisCursor_def SaveVoltageAnalysisCursor_def
      InsertVoltageEvent_def CloseVoltageEvent_def UpdateVoltageEvent_def update_event_def
      GetVoltageEvent_def GetNewVoltageSampleRows_def query_def stmt_def failing_def Let_def)

text \<open>A failing run never moves the cursor, so that the same samples are looked at again.\<close>

context voltage_store
begin

lemma out_step_frame:
  assumes "out_step S p t v st s = (r, s')"
  shows "vv_cursor (view s') = vv_cursor (view s) \<and> vv_rows (view s') = vv_rows (view s)"
proof (cases "ps_eventID st")
  case None
  obtain x s1 where ins: "vs_InsertVoltageEvent S p 0 t v v v s = (x, s1)" by force
  with assms None have "s' = s1" by (cases x) (simp_all add: out_step_def)
  with insert_event [OF ins] show ?thesis by (cases x) simp_all
next
  case (Some eid)
  let ?st = "accumulate v st"
  obtain x s1 where upd: "vs_UpdateVoltageEvent S eid (ps_minV ?st) (ps_maxV ?st)
      (f_div (ps_sumV ?st) (f_of_int (ps_count ?st))) s = (x, s1)" by force
  with assms Some have "s' = s1" by (cases x) (simp_all add: out_step_def Let_def)
  with update_event [OF upd] show ?thesis by (cases x) simp_all
qed

lemma in_step_frame:
  assumes "in_step S t st s = (r, s')"
  shows "vv_cursor (view s') = vv_cursor (view s) \<and> vv_rows (view s') = vv_rows (view s)"
proof (cases "ps_eventID st")
  case (Some eid)
  obtain x s1 where cl: "vs_CloseVoltageEvent S eid 0 t (durSec t (ps_startTime st)) s = (x, s1)" by force
  with assms Some have "s' = s1" by (cases x) (simp_all add: in_step_def)
  with close_event [OF cl] show ?thesis by (cases x) simp_all
qed (use assms in \<open>simp add: in_step_def\<close>)

lemma step_cursor:
  "(if isOut v then out_step S p t v st s else in_step S t st s) = (r, s') \<Longrightarrow>
   vv_cursor (view s') = vv_cursor (view s) \<and> vv_rows (view s') = vv_rows (view s)"
  using out_step_frame in_step_frame by (cases "isOut v") simp_all

lemma loop_cursor:
  "phase_loop S p rs st m s = (r, s') \<Longrightarrow>
   vv_cursor (view s') = vv_cursor (view s) \<and> vv_rows (view s') = vv_rows (view s)"
proof (induction rs arbitrary: st m s)
  case (Cons q rs)
  show ?case
  proof (cases "sm_Value (sr_Sample q)")
    case None
    with Cons show ?thesis by (auto simp: Let_def)
  next
    case (Some v)
    obtain r1 s1 where step: "(if isOut v then out_step S p (at_row q) v st s else in_step S (at_row q) st s) = (r1, s1)"
      by force
    with Cons Some step_cursor [OF step] show ?thesis by (cases r1) (auto simp: Let_def)
  qed
qed simp

lemma resume_frame: "resume_phase S ongoing s = (r, s') \<Longrightarrow> view s' = view s"
  by (cases ongoing) (auto simp: resume_phase_def split: prod.splits sum.splits option.splits dest: get_event)

lemma phase_cursor:
  assumes "analyse_phase S since p ongoing m s = (r, s')"
  shows "vv_cursor (view s') = vv_cursor (view s) \<and> vv_rows (view s') = vv_rows (view s)"
proof -
  obtain r1 s1 where 1: "vs_GetNewVoltageSampleRows S p since s = (r1, s1)" by force
  obtain r2 s2 where 2: "resume_phase S ongoing s1 = (r2, s2)" by force
  note frames = get_rows [OF 1] resume_frame [OF 2]
  show ?thesis
  proof (cases "r1 = Inl (projl r1) \<or> r2 = Inl (projl r2)")
    case True
    with assms 1 2 frames show ?thesis
      by (auto simp: analyse_phase_def split: sum.splits)
  next
    case False
    then obtain rows st where r: "r1 = Inr rows" "r2 = Inr st" by (metis sum.collapse(1) sum.exhaust_sel)
    obtain r3 s3 where 3: "phase_loop S p rows st m s2 = (r3, s3)" by force
    with assms 1 2 r have "s' = s3" by (auto simp: analyse_phase_def split: sum.splits prod.splits)
    with loop_cursor [OF 3] frames show ?thesis by simp
  qed
qed

lemma phases_cursor:
  "analyse_phases S since ps m s = (r, s') \<Longrightarrow>
   vv_cursor (view s') = vv_cursor (view s) \<and> vv_rows (view s') = vv_rows (view s)"
proof (induction ps arbitrary: m s r s')
  case (Cons q ps)
  obtain p ongoing where q: "q = (p, ongoing)" by force
  obtain r1 s1 where one: "analyse_phase S since p ongoing m s = (r1, s1)" by force
  have frame: "vv_cursor (view s1) = vv_cursor (view s) \<and> vv_rows (view s1) = vv_rows (view s)"
    by (rule phase_cursor [OF one])
  show ?case
  proof (cases r1)
    case (Inl err)
    with Cons.prems one frame show ?thesis by (simp add: q)
  next
    case (Inr x)
    obtain o1 m1 where x: "x = (o1, m1)" by force
    obtain r2 s2 where "analyse_phases S since ps m1 s1 = (r2, s2)" by force
    with Cons.IH [OF this] Cons.prems one frame Inr x show ?thesis
      by (cases r2) (auto simp: q)
  qed
qed simp

lemma run_rows: "RunVoltageAnalysis now S s = (err, s') \<Longrightarrow> vv_rows (view s') = vv_rows (view s)"
  by (auto simp: RunVoltageAnalysis_def split: prod.splits sum.splits
      dest!: phases_cursor get_cursor save_cursor)

lemma failed_run:
  assumes "RunVoltageAnalysis now S s = (Some err, s')"
  shows "vv_cursor (view s') = vv_cursor (view s) \<and> vv_rows (view s') = vv_rows (view s)"
  using assms
  by (auto simp: RunVoltageAnalysis_def split: prod.splits sum.splits
      dest!: phases_cursor get_cursor save_cursor)

end

section \<open>The run over the database\<close>

text \<open>
  C4: A successful voltage analysis does exactly what the specification of a run says: for each of the
  three phases in turn, an ongoing event takes the readings up to the first one in range, which ends
  it with the time and the duration in seconds, and every later maximal run of readings out of range
  becomes one new event, with the start, end, minimum, maximum and mean of that run; the cursor moves
  to the largest row id seen and remembers the events that are still open.
\<close>

theorem RunVoltageAnalysis_refines:
  assumes "RunVoltageAnalysis now db_store d = (None, d')" "known_ids (db_view d)"
  shows "run_spec now (db_view d) = Some (db_view d') \<and> known_ids (db_view d')"
  using db_voltage.run_refines [OF assms] by blast

definition volt_row :: "int \<Rightarrow> gotime_ns \<Rightarrow> rat \<Rightarrow> sampleRow" where
  "volt_row i t q = \<lparr>sr_ID = i, sr_Name = ''meter_voltage1'',
     sr_Sample = \<lparr>sm_Value = Some (Fin q), sm_ValueText = None, sm_Unit = ''V'', sm_SampledAt = t\<rparr>\<rparr>"

definition start_cursor :: voltageCursor where
  "start_cursor = \<lparr>vc_LastProcessedSampleID = 0, vc_OngoingL1 = None, vc_OngoingL2 = None,
     vc_OngoingL3 = None, vc_LastRunAt = 0\<rparr>"

definition volt_db :: "sampleRow list \<Rightarrow> db" where
  "volt_db rows = empty_db\<lparr>db_samples := rows, db_cursor := Some start_cursor\<rparr>"

lemma volt_db_sound: "sound_db (volt_db rows)" "known_ids (db_view (volt_db rows))"
  by (simp_all add: volt_db_def empty_db_def sound_db_def db_view_def known_ids_def)

lemma RunVoltageAnalysis_refines_witness:
  "\<exists>d'. RunVoltageAnalysis 9 db_store (volt_db [volt_row 1 3 260, volt_row 2 5 230]) = (None, d') \<and>
     run_spec 9 (db_view (volt_db [volt_row 1 3 260, volt_row 2 5 230])) = Some (db_view d')"
proof -
  let ?d = "volt_db [volt_row 1 3 260, volt_row 2 5 230]"
  obtain d' where run: "RunVoltageAnalysis 9 db_store ?d = (None, d')"
    using db_reliable.run_succeeds [OF volt_db_sound(1)] by blast
  from RunVoltageAnalysis_refines [OF run volt_db_sound(2)] run show ?thesis by blast
qed

text \<open>
  The analysis succeeds whenever no statement of the database fails and the cursor row is there;
  and when it fails, it has moved neither the cursor nor a sample, so the next run looks at the same
  samples again.
\<close>

theorem RunVoltageAnalysis_outcome:
  assumes "RunVoltageAnalysis now db_store d = (err, d')"
  shows "(sound_db d \<longrightarrow> err = None) \<and>
    (err \<noteq> None \<longrightarrow> db_cursor d' = db_cursor d \<and> db_samples d' = db_samples d)"
proof -
  have "vv_cursor (db_view d') = vv_cursor (db_view d) \<and> vv_rows (db_view d') = vv_rows (db_view d)"
    if "err = Some e" for e
    using db_voltage.failed_run assms that by blast
  with db_reliable.run_succeeds [of d now] assms show ?thesis by auto
qed

lemma RunVoltageAnalysis_outcome_witness:
  "fst (RunVoltageAnalysis 9 db_store (volt_db [volt_row 1 3 260])) = None"
  using RunVoltageAnalysis_outcome [of 9 "volt_db [volt_row 1 3 260]", OF prod.collapse [symmetric]]
    volt_db_sound(1) by blast

lemmas run_defs = RunVoltageAnalysis_def phases_def analyse_phase_def resume_phase_def out_step_def in_step_def
  isOut_def VoltageMin_def VoltageMax_def accumulate_def zero_phase_def db_store_def
  GetVoltageAnalysisCursor_def SaveVoltageAnalysisCursor_def InsertVoltageEvent_def CloseVoltageEvent_def
  UpdateVoltageEvent_def update_event_def GetVoltageEvent_def GetNewVoltageSampleRows_def query_def
  stmt_def failing_def volt_db_def volt_row_def start_cursor_def empty_db_def at_row_def Let_def

text \<open>
  The events of a run are not one transaction with its cursor: when a run fails after it has opened an
  event, the next one opens a second event for the same samples.
\<close>

lemma failed_run_duplicates:
  "(let d = (volt_db [volt_row 1 3 260])\<lparr>db_faults := [3 \<mapsto> Errorf ''busy'']\<rparr>;
        (err1, d1) = RunVoltageAnalysis 9 db_store d; (err2, d2) = RunVoltageAnalysis 9 db_store d1
    in err1 \<noteq> None \<and> err2 = None \<and> map ve_StartTime (db_events d2) = [3, 3])"
  by (simp add: run_defs)

text \<open>
  An event that goes on over two runs forgets the readings of the first: its minimum is that of the
  second run alone.
\<close>

lemma resumed_event_forgets:
  "(let (err1, d1) = RunVoltageAnalysis 9 db_store (volt_db [volt_row 1 3 190]);
        d2 = d1\<lparr>db_samples := db_samples d1 @ [volt_row 2 4 200]\<rparr>;
        (err2, d3) = RunVoltageAnalysis 9 db_store d2
    in err1 = None \<and> err2 = None \<and> map ve_MinVoltage (db_events d3) = [Fin 200])"
  by (simp add: run_defs)

end
