(* ===== verification/Voltage_Detector.thy ===== *)
theory Voltage_Detector
  imports Voltage_Correct Sensor_Registry
begin

text \<open>
  The times of the voltage events, without their statistics: over any number of runs the stored events
  of a phase are what a detector with three cases makes of the stored voltages, one at a time. So it
  does not matter how the samples were split over the runs of the analysis.
\<close>

section \<open>The detector\<close>

text \<open>Start, end and duration of an event; an open event has neither of the last two.\<close>

type_synonym interval = "gotime_ns \<times> gotime_ns option \<times> int option"

definition interval_of :: "voltageEvent \<Rightarrow> interval" where
  "interval_of e = (ve_StartTime e, ve_EndTime e, ve_DurationSeconds e)"

definition is_open :: "interval list \<Rightarrow> bool" where
  "is_open L \<longleftrightarrow> L \<noteq> [] \<and> snd (last L) = (None, None)"

definition detect :: "interval list \<Rightarrow> reading \<Rightarrow> interval list" where
  "detect L x =
     (if out_reading x then (if is_open L then L else L @ [(fst x, None, None)])
      else (if is_open L
            then butlast L @ [(fst (last L), Some (fst x), Some (durSec (fst x) (fst (last L))))]
            else L))"

definition interval_of_outage :: "outage \<Rightarrow> interval" where
  "interval_of_outage g = (case g of (xs, stop) \<Rightarrow>
     (fst (hd xs), stop, map_option (\<lambda>t. durSec t (fst (hd xs))) stop))"

lemma detect_simps [simp]:
  "out_reading x \<Longrightarrow> detect (L @ [(t, None, None)]) x = L @ [(t, None, None)]"
  "\<not> out_reading x \<Longrightarrow> detect (L @ [(t, None, None)]) x = L @ [(t, Some (fst x), Some (durSec (fst x) t))]"
  "\<not> is_open L \<Longrightarrow> out_reading x \<Longrightarrow> detect L x = L @ [(fst x, None, None)]"
  "\<not> is_open L \<Longrightarrow> \<not> out_reading x \<Longrightarrow> detect L x = L"
  by (auto simp: detect_def is_open_def)

lemma is_open_append [simp]: "is_open (L @ [(t, a, b)]) \<longleftrightarrow> a = None \<and> b = None"
  by (simp add: is_open_def)

lemma foldl_detect:
  "(\<not> is_open L \<longrightarrow> foldl detect L xs = L @ map interval_of_outage (outages xs)) \<and>
   foldl detect (L @ [(t, None, None)]) xs =
     L @ (t, ended (dropWhile out_reading xs), map_option (\<lambda>u. durSec u t) (ended (dropWhile out_reading xs)))
       # map interval_of_outage (outages (dropWhile out_reading xs))"
proof (induction xs arbitrary: L t)
  case (Cons x xs)
  show ?case
  proof (cases "out_reading x")
    case True
    with Cons.IH [of L "fst x"] Cons.IH [of L t] show ?thesis
      by (simp add: interval_of_outage_def)
  next
    case False
    with Cons.IH [of L t] Cons.IH [of "L @ [(t, Some (fst x), Some (durSec (fst x) t))]"] show ?thesis
      by (simp add: ended_def)
  qed
qed (simp add: ended_def)

section \<open>The stored events of one phase\<close>

definition phase_events :: "string \<Rightarrow> voltageView \<Rightarrow> voltageEvent list" where
  "phase_events p V = filter (\<lambda>e. ve_Phase e = p) (vv_events V)"

definition intervals :: "string \<Rightarrow> voltageView \<Rightarrow> interval list" where
  "intervals p V = map interval_of (phase_events p V)"

text \<open>
  Consistency of a view: event ids are unique and given out in order, and the cursor names, for each
  phase, its last event when that is open, and none otherwise.
\<close>

definition unique_ids :: "voltageView \<Rightarrow> bool" where
  "unique_ids V \<longleftrightarrow> known_ids V \<and> distinct (map ve_ID (vv_events V))"

definition phase_ok :: "voltageView \<Rightarrow> string \<Rightarrow> int option \<Rightarrow> bool" where
  "phase_ok V p ongoing \<longleftrightarrow> (case ongoing of
     None \<Rightarrow> \<not> is_open (intervals p V)
   | Some eid \<Rightarrow> is_open (intervals p V) \<and> ve_ID (last (phase_events p V)) = eid)"

definition voltage_ok :: "voltageView \<Rightarrow> bool" where
  "voltage_ok V \<longleftrightarrow> unique_ids V \<and>
     (\<exists>c. vv_cursor V = Some c \<and> (\<forall>(p, ongoing) \<in> set (phases c). phase_ok V p ongoing))"

lemma kept_phase [simp]:
  "ve_Phase (finish t0 stop e) = ve_Phase e" "ve_Phase (with_stats xs e) = ve_Phase e"
  "ve_StartTime (finish t0 stop e) = ve_StartTime e" "ve_StartTime (with_stats xs e) = ve_StartTime e"
  by (simp_all add: finish_def with_stats_def Let_def split: option.splits)

lemma interval_of_stats [simp]: "interval_of (with_stats xs e) = interval_of e"
  by (simp add: interval_of_def with_stats_def Let_def)

lemma interval_of_finish:
  "interval_of (finish t0 stop e) = (case stop of None \<Rightarrow> interval_of e
     | Some t \<Rightarrow> (ve_StartTime e, Some t, Some (durSec t t0)))"
  by (simp add: interval_of_def finish_def split: option.splits)

lemma event_of_sel [simp]:
  "ve_Phase (event_of p i g) = p" "interval_of (event_of p i g) = interval_of_outage g"
proof -
  obtain xs stop t v where g: "g = (xs, stop)" "hd xs = (t, v)" by (metis prod.exhaust)
  show "ve_Phase (event_of p i g) = p" by (simp add: g event_of_def fresh_event_def Let_def)
  show "interval_of (event_of p i g) = interval_of_outage g"
    by (cases stop) (simp_all add: g event_of_def fresh_event_def interval_of_finish interval_of_outage_def interval_of_def
        with_stats_def finish_def Let_def)
qed

lemma events_of_phase:
  "filter (\<lambda>e. ve_Phase e = q) (events_of p i gs) = (if q = p then events_of p i gs else [])"
proof (cases "q = p")
  case True
  then show ?thesis by (induction gs arbitrary: i) simp_all
next
  case False
  then show ?thesis by (induction gs arbitrary: i) simp_all
qed

lemma events_of_intervals: "map interval_of (events_of p i gs) = map interval_of_outage gs"
  by (induction gs arbitrary: i) simp_all

lemma events_of_ids_list: "map ve_ID (events_of p i gs) = map (\<lambda>k. i + 1 + int k) [0..<length gs]"
proof (induction gs arbitrary: i)
  case (Cons g gs)
  have "[0..<length (g # gs)] = 0 # map Suc [0..<length gs]" by (simp add: upt_conv_Cons map_Suc_upt del: upt_Suc)
  with Cons show ?case by (simp add: comp_def algebra_simps)
qed simp

lemma phase_events_add:
  "phase_events q (add_outages p gs V) =
     phase_events q V @ (if q = p then events_of p (vv_seq V) gs else [])"
  by (simp add: phase_events_def events_of_phase)

lemma intervals_add:
  "intervals q (add_outages p gs V) = intervals q V @ (if q = p then map interval_of_outage gs else [])"
  by (simp add: intervals_def phase_events_add events_of_intervals)

lemma unique_ids_add: "unique_ids V \<Longrightarrow> unique_ids (add_outages p gs V)"
  by (auto simp: unique_ids_def known_ids_add events_of_ids_list distinct_map inj_on_def known_ids_def
      dest: events_of_ids)

lemma unique_ids_on_event:
  "unique_ids V \<Longrightarrow> (\<And>e. ve_ID (f e) = ve_ID e) \<Longrightarrow> unique_ids (on_event eid f V)"
  by (auto simp: unique_ids_def known_ids_on_event comp_def if_distrib [of ve_ID] cong: if_cong)

text \<open>Changing the last event of a phase.\<close>

lemma phase_events_on:
  assumes "unique_ids V" "phase_events p V = es @ [e]" "\<And>e. ve_Phase (f e) = ve_Phase e"
  shows "phase_events q (on_event (ve_ID e) f V) = (if q = p then es @ [f e] else phase_events q V)"
proof -
  have e: "e \<in> set (vv_events V)" "ve_Phase e = p"
    using arg_cong [OF assms(2), of set] by (auto simp: phase_events_def)
  have same: "e' = e" if "e' \<in> set (vv_events V)" "ve_ID e' = ve_ID e" for e'
    using assms(1) that e by (auto simp: unique_ids_def distinct_map inj_on_def)
  have "phase_events q (on_event (ve_ID e) f V) =
      map (\<lambda>e'. if ve_ID e' = ve_ID e then f e' else e') (phase_events q V)"
    using assms(3) by (simp add: phase_events_def filter_map comp_def if_distrib [of ve_Phase] cong: if_cong)
  moreover have "map (\<lambda>e'. if ve_ID e' = ve_ID e then f e' else e') (phase_events q V) = phase_events q V" if "q \<noteq> p"
    using that same e by (intro map_idI) (auto simp: phase_events_def)
  moreover have "map (\<lambda>e'. if ve_ID e' = ve_ID e then f e' else e') es = es"
  proof (rule map_idI)
    fix x assume x: "x \<in> set es"
    have "distinct (phase_events p V)" using assms(1) by (auto simp: phase_events_def unique_ids_def distinct_map)
    then have "x \<noteq> e" using x assms(2) by auto
    moreover have "x \<in> set (vv_events V)"
      using x arg_cong [OF assms(2), of set] by (auto simp: phase_events_def)
    ultimately show "(if ve_ID x = ve_ID e then f x else x) = x" using same by auto
  qed
  ultimately show ?thesis using assms(2) by simp
qed

lemma events_of_Nil [simp]: "events_of p i gs = [] \<longleftrightarrow> gs = []"
  by (cases gs) simp_all

lemma last_events_of: "gs \<noteq> [] \<Longrightarrow> ve_ID (last (events_of p i gs)) = i + int (length gs)"
  by (induction gs arbitrary: i) auto

lemma is_open_outages:
  "gs \<noteq> [] \<Longrightarrow> is_open (L @ map interval_of_outage gs) \<longleftrightarrow> snd (last gs) = None"
  by (auto simp: is_open_def last_map interval_of_outage_def split: prod.splits)

lemma phase_ok_add:
  assumes "gs = [] \<longrightarrow> \<not> is_open (intervals p V)"
  shows "phase_ok (add_outages p gs V) p (still_open (vv_seq V) gs)"
proof (cases "gs = []")
  case True
  with assms show ?thesis by (simp add: phase_ok_def still_open_def)
next
  case False
  then show ?thesis
    by (simp add: phase_ok_def still_open_def intervals_add phase_events_add is_open_outages last_events_of)
qed

lemma event_start_unique:
  assumes "unique_ids V" "e \<in> set (vv_events V)"
  shows "event_start (ve_ID e) V = ve_StartTime e"
proof -
  obtain e' where "List.find (\<lambda>e'. ve_ID e' = ve_ID e) (vv_events V) = Some e'"
    using assms(2) by (metis (mono_tags, lifting) find_None_iff not_None_eq)
  moreover from this have "e' \<in> set (vv_events V)" "ve_ID e' = ve_ID e"
    by (auto simp: find_Some_iff)
  ultimately show ?thesis using assms by (auto simp: event_start_def unique_ids_def distinct_map inj_on_def)
qed

lemma phase_detect:
  assumes "unique_ids V" "phase_ok V p ongoing" "phase_spec p ongoing xs V = (V', o1)"
  shows "intervals p V' = foldl detect (intervals p V) xs \<and> phase_ok V' p o1 \<and> unique_ids V' \<and>
    (\<forall>q. q \<noteq> p \<longrightarrow> phase_events q V' = phase_events q V)"
proof (cases ongoing)
  case None
  then have closed: "\<not> is_open (intervals p V)" and V': "V' = add_outages p (outages xs) V"
      and o1: "o1 = still_open (vv_seq V) (outages xs)"
    using assms(2,3) by (auto simp: phase_ok_def phase_spec_def)
  with foldl_detect [of "intervals p V" xs] assms(1) show ?thesis
    by (simp add: intervals_add phase_events_add unique_ids_add phase_ok_add)
next
  case (Some eid)
  let ?more = "takeWhile out_reading xs" and ?rest = "dropWhile out_reading xs"
  have ne: "phase_events p V \<noteq> []" and open_p: "is_open (intervals p V)"
      and eid: "ve_ID (last (phase_events p V)) = eid"
    using assms(2) Some by (auto simp: phase_ok_def is_open_def intervals_def)
  obtain es e where es: "phase_events p V = es @ [e]" by (metis ne rev_exhaust)
  have e: "e \<in> set (vv_events V)" using arg_cong [OF es, of set] by (auto simp: phase_events_def)
  define f where "f = finish (ve_StartTime e) (ended ?rest) \<circ> (if ?more = [] then id else with_stats ?more)"
  define V1 where "V1 = on_event (ve_ID e) f V"
  have f: "ve_ID (f x) = ve_ID x" "ve_Phase (f x) = ve_Phase x" for x by (simp_all add: f_def)
  have V': "V' = add_outages p (outages ?rest) V1"
      "o1 = (if ?rest = [] then Some eid else still_open (vv_seq V1) (outages ?rest))"
    using assms(3) Some eid es event_start_unique [OF assms(1) e]
    by (auto simp: phase_spec_def Let_def f_def V1_def)
  have uniq: "unique_ids V1" using unique_ids_on_event [OF assms(1), of f] f by (simp add: V1_def)
  have others: "phase_events q V1 = (if q = p then es @ [f e] else phase_events q V)" for q
    unfolding V1_def using phase_events_on [OF assms(1) es, of f] f by simp
  have start: "interval_of e = (ve_StartTime e, None, None)"
    using open_p es by (auto simp: is_open_def intervals_def interval_of_def)
  have fe: "interval_of (f e) = (ve_StartTime e, ended ?rest, map_option (\<lambda>u. durSec u (ve_StartTime e)) (ended ?rest))"
    using start by (cases "ended ?rest") (simp_all add: f_def interval_of_finish del: dropWhile_eq_Nil_conv)
  have iv1: "intervals p V1 = map interval_of es @ [interval_of (f e)]"
    by (simp add: intervals_def others)
  have "intervals p V' = foldl detect (intervals p V) xs"
    using foldl_detect [of "map interval_of es" xs "ve_StartTime e"] start fe
    by (simp add: V'(1) intervals_add iv1) (simp add: intervals_def es)
  moreover have "phase_ok V' p o1"
  proof (cases "?rest = []")
    case True
    then have "V' = V1" "o1 = Some eid" using V' by (simp_all del: dropWhile_eq_Nil_conv)
    moreover have "ended ?rest = None" using True by (simp only: ended_None)
    ultimately show ?thesis using others iv1 fe f es eid by (simp add: phase_ok_def)
  next
    case False
    then have "ended ?rest \<noteq> None" by (simp add: ended_None del: dropWhile_eq_Nil_conv)
    then have "\<not> is_open (intervals p V1)" using iv1 fe by auto
    with phase_ok_add [of "outages ?rest" p V1] V' False show ?thesis
      by (simp del: dropWhile_eq_Nil_conv)
  qed
  ultimately show ?thesis
    using uniq by (simp add: V'(1) unique_ids_add phase_events_add others)
qed

section \<open>A whole run\<close>

lemma phase_ok_cong: "phase_events p V' = phase_events p V \<Longrightarrow> phase_ok V' p ongoing = phase_ok V p ongoing"
  by (cases ongoing) (simp_all add: phase_ok_def intervals_def)

lemma phases_detect:
  assumes "unique_ids V" "distinct (map fst ps)" "\<forall>(p, ongoing) \<in> set ps. phase_ok V p ongoing"
    and "phases_spec since ps V = (V', os)"
  shows "unique_ids V' \<and> length os = length ps \<and>
    (\<forall>k < length ps. phase_ok V' (fst (ps ! k)) (os ! k)) \<and>
    (\<forall>q. phase_events q V' = phase_events q V \<or> q \<in> fst ` set ps) \<and>
    (\<forall>q \<in> fst ` set ps. intervals q V' = foldl detect (intervals q V) (readings (rows_since q since V)))"
  using assms
proof (induction ps arbitrary: V os)
  case (Cons x ps)
  obtain p ongoing where x: "x = (p, ongoing)" by force
  obtain V1 o1 os1 where one: "phase_spec p ongoing (readings (rows_since p since V)) V = (V1, o1)"
      and rest: "phases_spec since ps V1 = (V', os1)" and os: "os = o1 # os1"
    using Cons.prems(4) by (auto simp: x split: prod.splits)
  have p: "p \<notin> fst ` set ps" using Cons.prems(2) by (simp add: x)
  note step = phase_detect [OF Cons.prems(1) _ one]
  have ok: "phase_ok V p ongoing" using Cons.prems(3) by (simp add: x)
  note step = step [OF ok]
  have ok1: "\<forall>(q, ongoing) \<in> set ps. phase_ok V1 q ongoing"
  proof safe
    fix q o2
    assume q: "(q, o2) \<in> set ps"
    then have "q \<noteq> p" using p by force
    with step have ev: "phase_events q V1 = phase_events q V" by blast
    have "phase_ok V q o2" using q Cons.prems(3) by (auto simp: x)
    then show "phase_ok V1 q o2" by (simp only: phase_ok_cong [OF ev])
  qed
  have IH: "unique_ids V' \<and> length os1 = length ps \<and>
    (\<forall>k < length ps. phase_ok V' (fst (ps ! k)) (os1 ! k)) \<and>
    (\<forall>q. phase_events q V' = phase_events q V1 \<or> q \<in> fst ` set ps) \<and>
    (\<forall>q \<in> fst ` set ps. intervals q V' = foldl detect (intervals q V1) (readings (rows_since q since V1)))"
    using Cons.IH [OF _ _ ok1 rest] step Cons.prems(2) by (simp add: x)
  have rows: "rows_since q since V1 = rows_since q since V" for q
    using phase_spec_frame [OF one] by (intro rows_since_cong) simp
  have other: "intervals q V1 = intervals q V" if "q \<in> fst ` set ps" for q
    using that p step by (auto simp: intervals_def)
  have last_p: "phase_events p V' = phase_events p V1" using IH p by blast
  have "phase_ok V' (fst ((x # ps) ! k)) (os ! k)" if "k < length (x # ps)" for k
    using that IH step phase_ok_cong [OF last_p] by (cases k) (auto simp: x os)
  moreover have "phase_events q V' = phase_events q V \<or> q \<in> fst ` set (x # ps)" for q
  proof (cases "q = p \<or> q \<in> fst ` set ps")
    case False
    then have "phase_events q V' = phase_events q V1" "phase_events q V1 = phase_events q V"
      using IH step by blast+
    then show ?thesis by simp
  qed (auto simp: x)
  moreover have "intervals q V' = foldl detect (intervals q V) (readings (rows_since q since V))"
    if "q \<in> fst ` set (x # ps)" for q
    using that IH step rows other last_p by (cases "q = p") (auto simp: x intervals_def)
  ultimately show ?case using IH by (simp add: os)
qed simp

definition meter_sensors :: "string list" where
  "meter_sensors = [''meter_voltage1'', ''meter_voltage2'', ''meter_voltage3'']"

lemma map_fst_phases: "map fst (phases c) = meter_sensors"
  by (simp add: phases_def meter_sensors_def)

lemma run_detect:
  assumes "run_spec now V = Some V'" "voltage_ok V" "vv_cursor V = Some c" "p \<in> set meter_sensors"
  shows "voltage_ok V' \<and>
    intervals p V' = foldl detect (intervals p V) (readings (rows_since p (vc_LastProcessedSampleID c) V))"
proof -
  let ?since = "vc_LastProcessedSampleID c"
  obtain V1 os where ph: "phases_spec ?since (phases c) V = (V1, os)" by force
  obtain m where V': "V' = V1\<lparr>vv_cursor := Some \<lparr>vc_LastProcessedSampleID = m,
      vc_OngoingL1 = os ! 0, vc_OngoingL2 = os ! 1, vc_OngoingL3 = os ! 2, vc_LastRunAt = now\<rparr>\<rparr>"
    using assms(1,3) ph by (auto simp: run_spec_def Let_def)
  have "distinct (map fst (phases c))" by (simp add: phases_def)
  then have d: "unique_ids V1 \<and> length os = length (phases c) \<and>
      (\<forall>k < length (phases c). phase_ok V1 (fst (phases c ! k)) (os ! k)) \<and>
      (\<forall>q \<in> fst ` set (phases c). intervals q V1 = foldl detect (intervals q V) (readings (rows_since q ?since V)))"
    using phases_detect [OF _ _ _ ph] assms(2,3) by (auto simp: voltage_ok_def)
  have ev: "intervals q V' = intervals q V1" "phase_events q V' = phase_events q V1" for q
    by (simp_all add: V' intervals_def phase_events_def)
  have ok: "phase_ok V' (fst (phases c ! k)) (os ! k)" if "k < 3" for k
    using d that phase_ok_cong [OF ev(2)] by (auto simp: phases_def)
  have "voltage_ok V'"
    using d ok [of 0] ok [of 1] ok [of 2]
    by (auto simp: voltage_ok_def V' phases_def unique_ids_def known_ids_def)
  moreover have "p \<in> fst ` set (phases c)" using assms(4) map_fst_phases [of c] by (metis list.set_map)
  ultimately show ?thesis unfolding ev using d by blast
qed

lemma sort_key_append:
  assumes "\<forall>x \<in> set xs. \<forall>y \<in> set ys. f x < f y"
  shows "sort_key f (xs @ ys) = sort_key f xs @ sort_key f ys"
proof -
  have ins: "insort_key f x (as @ bs) = insort_key f x as @ bs" if "\<forall>y \<in> set bs. f x < f y" for x as bs
    using that by (induction as) (cases bs, auto)
  have "foldr (insort_key f) xs (sort_key f ys) = foldr (insort_key f) xs [] @ sort_key f ys"
    using assms by (induction xs) (simp_all add: ins)
  then show ?thesis by (simp add: sort_key_def foldr_append)
qed

lemma rows_since_later:
  assumes "vv_rows V2 = vv_rows V @ new" "\<forall>r \<in> set new. since1 < sr_ID r \<and> (\<forall>r0 \<in> set (vv_rows V). sr_ID r0 < sr_ID r)"
    and "since \<le> since1" "\<forall>r \<in> set (rows_since p since V). sr_ID r \<le> since1"
  shows "rows_since p since V2 = rows_since p since V @ rows_since p since1 V2"
proof -
  let ?F = "\<lambda>n. filter (\<lambda>r. sr_Name r = p \<and> n < sr_ID r)"
  have "?F since1 (vv_rows V) = []"
    using assms(3,4) by (force simp: rows_since_def filter_empty_conv)
  then have "rows_since p since1 V2 = sort_key sr_ID (?F since1 new)"
    using assms(1) by (simp add: rows_since_def)
  moreover have "?F since1 new = ?F since new"
    using assms(2,3) by (intro filter_cong) auto
  moreover have "sort_key sr_ID (?F since (vv_rows V) @ ?F since new)
      = sort_key sr_ID (?F since (vv_rows V)) @ sort_key sr_ID (?F since new)"
    using assms(2) by (intro sort_key_append) auto
  ultimately show ?thesis using assms(1) by (simp add: rows_since_def)
qed

lemma readings_append: "readings (xs @ ys) = readings xs @ readings ys"
  by (induction xs) (simp_all add: readings_def List.map_filter_simps split: option.splits)

lemma run_cursor:
  assumes "run_spec now V = Some V'" "vv_cursor V = Some c" "p \<in> set meter_sensors"
  shows "\<exists>c'. vv_cursor V' = Some c' \<and> vc_LastProcessedSampleID c \<le> vc_LastProcessedSampleID c' \<and>
    (\<forall>r \<in> set (rows_since p (vc_LastProcessedSampleID c) V). sr_ID r \<le> vc_LastProcessedSampleID c')"
proof -
  let ?since = "vc_LastProcessedSampleID c"
  let ?ids = "map sr_ID (concat (map (\<lambda>(p, _). rows_since p ?since V) (phases c)))"
  obtain c' where c': "vv_cursor V' = Some c'" "vc_LastProcessedSampleID c' = Max (set (?since # ?ids))"
    using assms(1,2) by (auto simp: run_spec_def Let_def split: prod.splits)
  have "x \<le> vc_LastProcessedSampleID c'" if "x \<in> set (?since # ?ids)" for x
    unfolding c'(2) using that by (intro Max_ge finite_set)
  moreover have "sr_ID r \<in> set (?since # ?ids)" if "r \<in> set (rows_since p ?since V)" for r
    using that assms(3) by (auto simp: meter_sensors_def phases_def)
  ultimately show ?thesis using c'(1) by auto
qed

section \<open>Runs over the database\<close>

text \<open>
  C21: Over a consistent database a run of the analysis turns the start times, end times and durations
  of the events of each phase into what the three-case detector makes of them and the new voltages,
  and leaves the database consistent: ids stay unique, at most the last event of a phase is open, and
  the cursor names it.
\<close>

theorem RunVoltageAnalysis_detects:
  assumes "RunVoltageAnalysis now db_store d = (None, d')" "voltage_ok (db_view d)"
    and "db_cursor d = Some c" "p \<in> set meter_sensors"
  shows "voltage_ok (db_view d') \<and> intervals p (db_view d') =
    foldl detect (intervals p (db_view d)) (readings (rows_since p (vc_LastProcessedSampleID c) (db_view d)))"
proof -
  have "known_ids (db_view d)" using assms(2) by (simp add: voltage_ok_def unique_ids_def)
  with db_voltage.run_refines [OF assms(1)] show ?thesis
    using run_detect [where now = now, OF _ assms(2) _ assms(4)] assms(3) by simp
qed

lemma volt_db_ok: "voltage_ok (db_view (volt_db rows))"
  by (auto simp: voltage_ok_def unique_ids_def known_ids_def db_view_def volt_db_def empty_db_def
      phases_def phase_ok_def intervals_def phase_events_def is_open_def start_cursor_def)

lemma RunVoltageAnalysis_detects_witness:
  "\<exists>d'. RunVoltageAnalysis 9 db_store (volt_db [volt_row 1 3 260, volt_row 2 5 230]) = (None, d') \<and>
     intervals ''meter_voltage1'' (db_view d') = [(3, Some 5, Some (durSec 5 3))]"
proof -
  let ?d = "volt_db [volt_row 1 3 260, volt_row 2 5 230]"
  obtain d' where run: "RunVoltageAnalysis 9 db_store ?d = (None, d')"
    using db_reliable.run_succeeds [OF volt_db_sound(1)] by blast
  have "intervals ''meter_voltage1'' (db_view d') =
      foldl detect (intervals ''meter_voltage1'' (db_view ?d)) (readings (rows_since ''meter_voltage1'' 0 (db_view ?d)))"
    using RunVoltageAnalysis_detects [OF run volt_db_ok, of start_cursor "''meter_voltage1''"]
    by (simp add: volt_db_def meter_sensors_def start_cursor_def)
  also have "\<dots> = [(3, Some 5, Some (durSec 5 3))]"
    by (simp add: db_view_def volt_db_def volt_row_def empty_db_def intervals_def phase_events_def
        rows_since_def readings_Cons at_row_def detect_def is_open_def out_reading_def isOut_def
        VoltageMin_def VoltageMax_def readings_def [of "[]"] List.map_filter_simps)
  finally show ?thesis using run by blast
qed

text \<open>
  C29: It does not matter how the samples are split over the runs: a run, more samples, and a second run
  leave the same start times, end times and durations of the events of every phase as one run over
  all the samples.
\<close>

theorem RunVoltageAnalysis_batches:
  assumes "RunVoltageAnalysis now1 db_store d = (None, d1)" "voltage_ok (db_view d)"
    and "RunVoltageAnalysis now2 db_store (d1\<lparr>db_samples := db_samples d @ new\<rparr>) = (None, d2)"
    and "RunVoltageAnalysis now3 db_store (d\<lparr>db_samples := db_samples d @ new\<rparr>) = (None, d3)"
    and "\<forall>r \<in> set new. vc_LastProcessedSampleID (the (db_cursor d1)) < sr_ID r \<and>
           (\<forall>r0 \<in> set (db_samples d). sr_ID r0 < sr_ID r)"
    and "p \<in> set meter_sensors"
  shows "intervals p (db_view d2) = intervals p (db_view d3)"
proof -
  obtain c where c: "db_cursor d = Some c" using assms(2) by (auto simp: voltage_ok_def)
  have known: "known_ids (db_view d)" using assms(2) by (simp add: voltage_ok_def unique_ids_def)
  note run1 = db_voltage.run_refines [OF assms(1) known]
  note det1 = run_detect [OF conjunct1 [OF run1] assms(2) _ assms(6)]
  obtain c1 where c1: "db_cursor d1 = Some c1"
      "vc_LastProcessedSampleID c \<le> vc_LastProcessedSampleID c1"
      "\<forall>r \<in> set (rows_since p (vc_LastProcessedSampleID c) (db_view d)). sr_ID r \<le> vc_LastProcessedSampleID c1"
    using run_cursor [OF conjunct1 [OF run1] _ assms(6), of c] c by auto
  let ?e = "d1\<lparr>db_samples := db_samples d @ new\<rparr>" and ?f = "d\<lparr>db_samples := db_samples d @ new\<rparr>"
  have cong: "voltage_ok (V\<lparr>vv_rows := rs\<rparr>) = voltage_ok V" "intervals q (V\<lparr>vv_rows := rs\<rparr>) = intervals q V"
      for V :: voltageView and rs q
    by (simp_all add: voltage_ok_def unique_ids_def known_ids_def phase_ok_def [abs_def] intervals_def phase_events_def)
  have rows_cong: "rows_since p n (db_view ?e) = rows_since p n (db_view ?f)" for n
    by (rule rows_since_cong) simp
  have ok1: "voltage_ok (db_view d1)" and iv1: "intervals p (db_view d1) = foldl detect (intervals p (db_view d))
      (readings (rows_since p (vc_LastProcessedSampleID c) (db_view d)))"
    using det1 c by auto
  have e: "known_ids (db_view ?e)" "known_ids (db_view ?f)"
    using ok1 assms(2) by (auto simp: voltage_ok_def unique_ids_def known_ids_def)
  have iv2: "intervals p (db_view d2) = foldl detect (intervals p (db_view d1))
      (readings (rows_since p (vc_LastProcessedSampleID c1) (db_view ?f)))"
    using run_detect [OF conjunct1 [OF db_voltage.run_refines [OF assms(3) e(1)]] _ _ assms(6), of c1]
      ok1 c1(1) cong rows_cong by simp
  have iv3: "intervals p (db_view d3) = foldl detect (intervals p (db_view d))
      (readings (rows_since p (vc_LastProcessedSampleID c) (db_view ?f)))"
    using run_detect [OF conjunct1 [OF db_voltage.run_refines [OF assms(4) e(2)]] _ _ assms(6), of c]
      assms(2) c cong by simp
  have "rows_since p (vc_LastProcessedSampleID c) (db_view ?f) =
      rows_since p (vc_LastProcessedSampleID c) (db_view d) @ rows_since p (vc_LastProcessedSampleID c1) (db_view ?f)"
    using assms(5) c1 by (intro rows_since_later [where new = new]) simp_all
  with iv1 iv2 iv3 show ?thesis by (simp add: readings_append)
qed

lemma RunVoltageAnalysis_batches_witness:
  "\<exists>d1 d2 d3. RunVoltageAnalysis 9 db_store (volt_db [volt_row 1 3 260]) = (None, d1) \<and>
     RunVoltageAnalysis 9 db_store (d1\<lparr>db_samples := [volt_row 1 3 260, volt_row 2 5 230]\<rparr>) = (None, d2) \<and>
     RunVoltageAnalysis 9 db_store (volt_db [volt_row 1 3 260, volt_row 2 5 230]) = (None, d3) \<and>
     intervals ''meter_voltage1'' (db_view d2) = intervals ''meter_voltage1'' (db_view d3)"
proof -
  let ?new = "[volt_row 2 5 230]"
  let ?d = "volt_db [volt_row 1 3 260]"
  obtain d1 where run1: "RunVoltageAnalysis 9 db_store ?d = (None, d1)" and d1: "sound_db d1"
    and c1: "vc_LastProcessedSampleID (the (db_cursor d1)) = 1"
    by (simp add: run_defs sound_db_def)
  have "sound_db (d1\<lparr>db_samples := db_samples ?d @ ?new\<rparr>)" "sound_db (?d\<lparr>db_samples := db_samples ?d @ ?new\<rparr>)"
    using d1 by (simp_all add: sound_db_def volt_db_def empty_db_def)
  then obtain d2 d3 where runs:
      "RunVoltageAnalysis 9 db_store (d1\<lparr>db_samples := db_samples ?d @ ?new\<rparr>) = (None, d2)"
      "RunVoltageAnalysis 9 db_store (?d\<lparr>db_samples := db_samples ?d @ ?new\<rparr>) = (None, d3)"
    using db_reliable.run_succeeds by metis
  have "intervals ''meter_voltage1'' (db_view d2) = intervals ''meter_voltage1'' (db_view d3)"
    by (rule RunVoltageAnalysis_batches [OF run1 volt_db_ok runs])
      (simp_all add: c1 volt_row_def volt_db_def meter_sensors_def)
  moreover have "?d\<lparr>db_samples := db_samples ?d @ ?new\<rparr> = volt_db [volt_row 1 3 260, volt_row 2 5 230]"
      "db_samples ?d @ ?new = [volt_row 1 3 260, volt_row 2 5 230]"
    by (simp_all add: volt_db_def)
  ultimately show ?thesis using run1 runs by metis
qed

section \<open>Which register values are out of range\<close>

text \<open>The register of the meter block a voltage is read from.\<close>

definition meter_register :: "string \<Rightarrow> nat" where
  "meter_register p = (if p = ''meter_voltage1'' then 52 else if p = ''meter_voltage2'' then 53 else 54)"

lemma tenth_volts:
  "f_mul (Fin 2070) (f_lit (1/10)) = Fin 207" "f_mul (Fin 2530) (f_lit (1/10)) = Fin 253"
  "f_less VoltageMax (f_mul (Fin 2531) (f_lit (1/10)))" "f_less (f_mul (Fin 2069) (f_lit (1/10))) VoltageMin"
  by code_simp+

lemma tenth_lit: "\<exists>c. f_lit (1/10) = Fin c \<and> 0 < c"
proof -
  have "case f_lit (1/10) of Fin c \<Rightarrow> 0 < c | _ \<Rightarrow> False" by code_simp
  then show ?thesis by (simp split: f64.splits)
qed

lemma isOut_tenth:
  assumes "0 \<le> n" "n < 65536"
  shows "isOut (f_mul (f_of_int n) (f_lit (1/10))) \<longleftrightarrow> n < 2070 \<or> 2530 < n"
proof -
  obtain c where c: "f_lit (1/10) = Fin c" "0 < c" using tenth_lit by blast
  define f where "f = (\<lambda>n. f_mul (Fin (of_int n)) (Fin c))"
  have mono: "\<exists>s. f m = Fin s \<and> s \<le> r" if "0 \<le> m" "m \<le> k" "k \<le> 65536" "f k = Fin r" for m k r
    using f_mul_of_int_mono [of m k c r] that c(2) by (auto simp: f_def)
  have at: "f 2070 = Fin 207" "f 2530 = Fin 253" "f_less VoltageMax (f 2531)" "f_less (f 2069) VoltageMin"
    using tenth_volts by (simp_all add: f_def c)
  obtain hi where hi: "f 65536 = Fin hi"
  proof -
    have "case f_mul (Fin 65536) (f_lit (1/10)) of Fin c \<Rightarrow> True | _ \<Rightarrow> False" by code_simp
    then show thesis using that by (auto simp: f_def c split: f64.splits)
  qed
  have fin: "\<exists>r. f k = Fin r" if "0 \<le> k" "k \<le> 65536" for k
    using mono [of k 65536 hi] that hi by auto
  obtain lo up x where vals: "f 2069 = Fin lo" "lo < 207" "f 2531 = Fin up" "253 < up" "f n = Fin x"
    using fin [of 2069] fin [of 2531] fin [of n] at(3,4) assms
    by (auto simp: VoltageMin_def VoltageMax_def)
  have "x \<le> lo" if "n \<le> 2069" using mono [of n 2069 lo] vals that assms by auto
  moreover have "207 \<le> x" if "2070 \<le> n" using mono [of 2070 n x] vals at that assms by auto
  moreover have "x \<le> 253" if "n \<le> 2530" using mono [of n 2530 253] vals at that assms by auto
  moreover have "up \<le> x" if "2531 \<le> n" using mono [of 2531 n x] vals that assms by auto
  ultimately have "x < 207 \<or> 253 < x \<longleftrightarrow> n < 2070 \<or> 2530 < n" using vals by linarith
  moreover have "f_mul (f_of_int n) (f_lit (1/10)) = Fin x" using vals(5) assms by (simp add: f_def c)
  ultimately show ?thesis by (simp add: isOut_def VoltageMin_def VoltageMax_def)
qed

text \<open>
  C30: Of a meter block, the analysis counts a voltage as out of range exactly when its register holds
  less than 2070 or more than 2530 tenths of a volt; and also when the register is undefined (all
  ones) or not part of the block, which the table decodes as 0 V.
\<close>

theorem meter_voltage_out:
  assumes "p \<in> set meter_sensors" "map_of meterRegistry p = Some def" "sd_Calculator def data = Ret (VFloat v)"
  shows "isOut v \<longleftrightarrow> sl_len data < meter_register p * 2 + 2 \<or>
    (\<exists>raw. u16_at data (meter_register p * 2) = Ret raw \<and> (raw = undef16 \<or> uint raw < 2070 \<or> 2530 < uint raw))"
proof -
  have v: "uint16Reader (meter_register p) (f_lit (1/10)) data = Ret (VFloat v)"
    using assms by (auto simp: meter_sensors_def meter_register_def meterRegistry_def)
  have zero: "isOut (f_of_int 0)" by (simp add: isOut_def VoltageMin_def)
  show ?thesis
  proof (cases "meter_register p * 2 + 2 > sl_len data")
    case True
    with v zero show ?thesis by (auto simp: uint16Reader_def)
  next
    case False
    then obtain raw where raw: "u16_at data (meter_register p * 2) = Ret raw"
      using u16_at_Ret [of "meter_register p * 2" data] by auto
    have b: "0 \<le> uint raw" "uint raw < 65536" using uint_lt2p [of raw] by simp_all
    show ?thesis
      using v raw False zero isOut_tenth [OF b]
      by (cases "raw = undef16") (auto simp: uint16Reader_def Let_def)
  qed
qed

lemma meter_voltage_out_witness:
  "\<exists>def v. map_of meterRegistry ''meter_voltage1'' = Some def \<and>
     sd_Calculator def (whole []) = Ret (VFloat v) \<and> isOut v"
proof -
  let ?def = "sensor ''Meter L1 Voltage'' ''V'' (uint16Reader 52 (f_lit (1/10)))"
  have 1: "map_of meterRegistry ''meter_voltage1'' = Some ?def" by (simp add: meterRegistry_def)
  have 2: "sd_Calculator ?def (whole []) = Ret (VFloat (f_of_int 0))" by (simp add: uint16Reader_def)
  have "isOut (f_of_int 0)"
    using meter_voltage_out [OF _ 1 2] by (simp add: meter_sensors_def)
  with 1 2 show ?thesis by blast
qed

end
