(* ===== verification/Daemon.thy ===== *)
theory Daemon
  imports Inverter_Correct Voltage_Detector
begin

text \<open>
  The daemon, \<open>pkg/daemon/daemon.go\<close>: the connection state machine with its backoff, the check of the
  inverter's identity, the poll that stores the sensor values, and the aggregation jobs. The inverter
  is behind the interface of \<open>goodwe.go\<close>, a record of operations on a state. Log messages, and the
  probe that only picks one of two of them, are left out; every reading of the clock, the order in
  which Go iterates a map and the fate of a context are arguments.
\<close>

section \<open>States\<close>

datatype connState = InverterStateDisabled | InverterStateDisconnected | InverterStateConnecting
  | InverterStateConnected | InverterStateFailed

record 's inverterOps =
  io_Connect :: "'s \<Rightarrow> (goerror option \<times> 's) outcome"
  io_Close :: "'s \<Rightarrow> (goerror option \<times> 's) outcome"
  io_GetInfo :: "'s \<Rightarrow> ((goerror + info) \<times> 's) outcome"
  io_GetSensors :: "goctx \<Rightarrow> 's \<Rightarrow> ((sensor_map option \<times> goerror option) \<times> 's) outcome"
  io_ReadSensor :: "string \<Rightarrow> 's \<Rightarrow> ((goerror + sensorValue) \<times> 's) outcome"

text \<open>The inverter of \<open>et/et.go\<close>; \<open>order\<close> is the iteration order of its sensor tables.\<close>

definition et_inverter :: "(blockType \<Rightarrow> string list) \<Rightarrow> 't inverter inverterOps" where
  "et_inverter order = \<lparr>io_Connect = Connect, io_Close = Close,
     io_GetInfo = (\<lambda>e. obind (GetInfo e) (\<lambda>(i, e'). Ret (Inr i, e'))),
     io_GetSensors = GetSensors order, io_ReadSensor = ReadSensor\<rparr>"

record 's daemon =
  dm_inverter :: "('s inverterOps \<times> 's) option"
  dm_store :: "db option"
  dm_inverterIP :: string
  dm_pollInterval :: int
  dm_aggregateInterval :: int
  dm_retentionDays :: int
  dm_connState :: connState
  dm_connErr :: "goerror option"
  dm_verificationErr :: "goerror option"
  dm_inverterIdentity :: "inverterIdentity option"

definition Second :: int where "Second = 10 ^ 9"
definition backoffInitial :: int where "backoffInitial = 5 * Second"
definition backoffMax :: int where "backoffMax = 300 * Second"

definition NewDaemon ::
    "('s inverterOps \<times> 's) option \<Rightarrow> db option \<Rightarrow> string \<Rightarrow> int \<Rightarrow> int \<Rightarrow> int \<Rightarrow> 's daemon" where
  "NewDaemon iv store ip pollInterval aggregateInterval retentionDays =
     \<lparr>dm_inverter = iv, dm_store = store, dm_inverterIP = ip, dm_pollInterval = pollInterval,
      dm_aggregateInterval = aggregateInterval, dm_retentionDays = retentionDays,
      dm_connState = (if iv = None then InverterStateDisabled else InverterStateDisconnected),
      dm_connErr = None, dm_verificationErr = None, dm_inverterIdentity = None\<rparr>"

definition setState :: "connState \<Rightarrow> goerror option \<Rightarrow> 's daemon \<Rightarrow> 's daemon" where
  "setState st err d = d\<lparr>dm_connState := st, dm_connErr := err\<rparr>"

text \<open>A method call on the inverter, which panics on a nil interface.\<close>

definition call_inverter ::
    "('s inverterOps \<Rightarrow> 's \<Rightarrow> ('r \<times> 's) outcome) \<Rightarrow> 's daemon \<Rightarrow> ('r \<times> 's daemon) outcome" where
  "call_inverter f d =
     (case dm_inverter d of
        None \<Rightarrow> Panic
      | Some (I, s) \<Rightarrow> obind (f I s) (\<lambda>(r, s'). Ret (r, d\<lparr>dm_inverter := Some (I, s')\<rparr>)))"

definition closeConnection :: "'s daemon \<Rightarrow> 's daemon outcome" where
  "closeConnection d = obind (call_inverter io_Close d) (\<lambda>(_, d'). Ret d')"

section \<open>Connecting\<close>

text \<open>What one firing of the timer meets: its context, the map order, and the clock.\<close>

record tick_env =
  te_ctx :: goctx
  te_names :: "string list"
  te_now_identity :: gotime_ns
  te_now_poll :: gotime_ns
  te_now_analysis :: gotime_ns

text \<open>\<open>%q\<close> of a string of printable ASCII characters.\<close>

definition quote_char :: "char \<Rightarrow> string" where
  "quote_char c = (if c = CHR 0x22 \<or> c = CHR 0x5C then [CHR 0x5C, c] else [c])"

definition quoted :: "string \<Rightarrow> string" where
  "quoted s = [CHR 0x22] @ concat (map quote_char s) @ [CHR 0x22]"

definition mismatch :: "string \<Rightarrow> string \<Rightarrow> goerror" where
  "mismatch expected got = Errorf (''serial mismatch: expected '' @ quoted expected @ '', got '' @ quoted got
     @ '' (inverter may have been replaced)'')"

definition store_identity :: "gotime_ns \<Rightarrow> info \<Rightarrow> db \<Rightarrow> (goerror + unit) \<times> db" where
  "store_identity now i = SetInverterIdentity now (in_SerialNumber i) (in_Model i) (in_Firmware i)
     (in_DSPVersion i) (in_ARMVersion i) (in_RatedPower i)"

definition identity_from :: "info \<Rightarrow> inverterIdentity" where
  "identity_from i = \<lparr>id_Serial = in_SerialNumber i, id_Model = in_Model i, id_Firmware = in_Firmware i,
     id_DSPVersion = in_DSPVersion i, id_ARMVersion = in_ARMVersion i, id_RatedPower = in_RatedPower i,
     id_FirstSeen = zero_time, id_LastSeen = zero_time\<rparr>"

definition check_identity :: "gotime_ns \<Rightarrow> info \<Rightarrow> db \<Rightarrow> 's daemon \<Rightarrow> goerror option \<times> 's daemon" where
  "check_identity now i db d =
     (case GetInverterIdentity db of
        (Inl err, db1) \<Rightarrow> (Some (wrap ''read stored identity'' err), d\<lparr>dm_store := Some db1\<rparr>)
      | (Inr None, db1) \<Rightarrow>
          (case store_identity now i db1 of
             (Inl err, db2) \<Rightarrow> (Some (wrap ''store inverter identity'' err), d\<lparr>dm_store := Some db2\<rparr>)
           | (Inr _, db2) \<Rightarrow>
               (None, d\<lparr>dm_inverterIdentity := Some (identity_from i),
                        dm_store := Some (snd (PurgeBadSamples (in_RatedPower i) db2))\<rparr>))
      | (Inr (Some stored), db1) \<Rightarrow>
          (let d1 = d\<lparr>dm_inverterIdentity := Some stored\<rparr> in
           if id_Serial stored \<noteq> in_SerialNumber i
           then (None, d1\<lparr>dm_verificationErr := Some (mismatch (id_Serial stored) (in_SerialNumber i)),
                          dm_store := Some db1\<rparr>)
           else (None, d1\<lparr>dm_store := Some (snd (PurgeBadSamples (in_RatedPower i)
                          (snd (store_identity now i db1))))\<rparr>)))"

definition verifyIdentity :: "tick_env \<Rightarrow> 's daemon \<Rightarrow> (goerror option \<times> 's daemon) outcome" where
  "verifyIdentity env d =
     obind (call_inverter io_GetInfo d) (\<lambda>(r, d1). case r of
       Inl err \<Rightarrow> Ret (Some (wrap ''get inverter info'' err), d1)
     | Inr i \<Rightarrow> (case dm_store d1 of
         None \<Rightarrow> Ret (None, d1)
       | Some db \<Rightarrow> Ret (check_identity (te_now_identity env) i db d1)))"

definition doConnect :: "tick_env \<Rightarrow> 's daemon \<Rightarrow> 's daemon outcome" where
  "doConnect env d =
     obind (call_inverter io_Connect (setState InverterStateConnecting None d)) (\<lambda>(err, d1). case err of
       Some e \<Rightarrow> Ret (setState InverterStateDisconnected (Some e) d1)
     | None \<Rightarrow> obind (verifyIdentity env d1) (\<lambda>(err, d2). case err of
         Some e \<Rightarrow> obind (closeConnection d2) (\<lambda>d3. Ret (setState InverterStateDisconnected (Some e) d3))
       | None \<Rightarrow> (case dm_verificationErr d2 of
           Some e \<Rightarrow> Ret (setState InverterStateFailed (Some e) d2)
         | None \<Rightarrow> Ret (setState InverterStateConnected None d2))))"

section \<open>Polling\<close>

text \<open>The loop over the sensor values: only numbers and texts are stored, a failed insert is skipped.\<close>

fun store_sensors :: "string list \<Rightarrow> sensor_map \<Rightarrow> gotime_ns \<Rightarrow> int \<Rightarrow> db \<Rightarrow> int \<times> db" where
  "store_sensors [] m now stored db = (stored, db)"
| "store_sensors (name # names) m now stored db =
     (case m name of
        None \<Rightarrow> store_sensors names m now stored db
      | Some sv \<Rightarrow>
          (case sv_Value sv of
             VTime _ \<Rightarrow> store_sensors names m now stored db
           | VFloat v \<Rightarrow>
               (case InsertSample name (sv_Unit sv) now (Some v) None db of
                  (Inl _, db1) \<Rightarrow> store_sensors names m now stored db1
                | (Inr _, db1) \<Rightarrow> store_sensors names m now (stored + 1) db1)
           | VString t \<Rightarrow>
               (case InsertSample name (sv_Unit sv) now None (Some t) db of
                  (Inl _, db1) \<Rightarrow> store_sensors names m now stored db1
                | (Inr _, db1) \<Rightarrow> store_sensors names m now (stored + 1) db1)))"

definition doPoll :: "tick_env \<Rightarrow> 's daemon \<Rightarrow> 's daemon outcome" where
  "doPoll env d =
     obind (call_inverter (\<lambda>I. io_GetSensors I (te_ctx env)) d) (\<lambda>((sensors, err), d1). case err of
       Some e \<Rightarrow> obind (closeConnection d1) (\<lambda>d2. Ret (setState InverterStateDisconnected (Some e) d2))
     | None \<Rightarrow> (case dm_store d1 of
         None \<Rightarrow> Ret d1
       | Some db \<Rightarrow>
           (let m = (case sensors of None \<Rightarrow> Map.empty | Some m \<Rightarrow> m);
                (stored, db1) = store_sensors (te_names env) m (te_now_poll env) 0 db;
                (_, db2) = RunVoltageAnalysis (te_now_analysis env) db_store db1
            in Ret (d1\<lparr>dm_store := Some db2\<rparr>))))"

section \<open>The loop\<close>

text \<open>What the loop does when the timer fires, and what it waits for next.\<close>

definition on_timer :: "tick_env \<Rightarrow> 's daemon \<Rightarrow> 's daemon outcome" where
  "on_timer env d =
     (case dm_connState d of
        InverterStateDisconnected \<Rightarrow>
          obind (doConnect env d) (\<lambda>d1.
            if dm_connState d1 = InverterStateConnected then doPoll env d1 else Ret d1)
      | InverterStateConnected \<Rightarrow> doPoll env d
      | _ \<Rightarrow> Ret d)"

datatype wait = WaitFor int | WaitCancel

definition next_wait :: "'s daemon \<Rightarrow> int \<Rightarrow> wait \<times> int" where
  "next_wait d backoff =
     (case dm_connState d of
        InverterStateConnected \<Rightarrow> (WaitFor (dm_pollInterval d), backoffInitial)
      | InverterStateDisconnected \<Rightarrow>
          (WaitFor backoff, if backoffMax < backoff * 2 then backoffMax else backoff * 2)
      | InverterStateFailed \<Rightarrow> (WaitCancel, backoff)
      | _ \<Rightarrow> (WaitFor (dm_pollInterval d), backoff))"

datatype wake = Fires tick_env | Cancelled

text \<open>
  The loop over the wake-ups that come: the daemon, the waiting times between them, and whether the
  loop has returned.
\<close>

fun poll_loop :: "wake list \<Rightarrow> 's daemon \<Rightarrow> int \<Rightarrow> int list \<Rightarrow> ('s daemon \<times> int list \<times> bool) outcome" where
  "poll_loop [] d backoff waits = Ret (d, waits, False)"
| "poll_loop (Cancelled # ws) d backoff waits =
     obind (closeConnection d) (\<lambda>d1. Ret (d1, waits, True))"
| "poll_loop (Fires env # ws) d backoff waits =
     obind (on_timer env d) (\<lambda>d1. case next_wait d1 backoff of
       (WaitFor n, backoff1) \<Rightarrow> poll_loop ws d1 backoff1 (waits @ [n])
     | (WaitCancel, _) \<Rightarrow> Ret (d1, waits, Cancelled \<in> set ws))"

section \<open>Aggregation\<close>

text \<open>The clock of a job, and how its context fares during each of its four calls.\<close>

record agg_env =
  ae_now :: gotime_ns
  ae_ctx_hourly :: goctx
  ae_ctx_daily :: goctx
  ae_ctx_prune :: goctx
  ae_ctx_prune_hourly :: goctx

definition days_before :: "gotime_ns \<Rightarrow> int \<Rightarrow> gotime_ns" where
  "days_before t n = t - n * Day"

definition aggregate_db :: "int \<Rightarrow> agg_env \<Rightarrow> db \<Rightarrow> db" where
  "aggregate_db retentionDays env db =
     (case AggregateHourly zero_time (ae_now env) (ae_ctx_hourly env) db of
        ((_, Some _), db1) \<Rightarrow> db1
      | ((_, None), db1) \<Rightarrow>
     (case AggregateDaily zero_time (ae_now env) (ae_ctx_daily env) db1 of
        ((_, Some _), db2) \<Rightarrow> db2
      | ((_, None), db2) \<Rightarrow>
          if 0 < retentionDays
          then (let rawCutoff = days_before (ae_now env) retentionDays;
                    (_, db3) = PruneSamples rawCutoff 1000 (ae_ctx_prune env) db2;
                    hourlyCutoff = days_before (ae_now env) 365;
                    (_, db4) = PruneHourly hourlyCutoff 1000 (ae_ctx_prune_hourly env) db3
                in db4)
          else db2))"

definition doAggregate :: "agg_env \<Rightarrow> 's daemon \<Rightarrow> 's daemon" where
  "doAggregate env d = d\<lparr>dm_store := map_option (aggregate_db (dm_retentionDays d) env) (dm_store d)\<rparr>"

definition doStartupAggregation :: "agg_env \<Rightarrow> 's daemon \<Rightarrow> 's daemon" where
  "doStartupAggregation env d = d\<lparr>dm_store := map_option (aggregate_db (dm_retentionDays d) env) (dm_store d)\<rparr>"

text \<open>The aggregation loop: one job at the start, one per tick of its ticker until the cancellation.\<close>

datatype agg_wake = AggTick agg_env | AggCancelled

fun agg_ticks :: "agg_wake list \<Rightarrow> 's daemon \<Rightarrow> 's daemon" where
  "agg_ticks [] d = d"
| "agg_ticks (AggCancelled # ws) d = d"
| "agg_ticks (AggTick env # ws) d = agg_ticks ws (doAggregate env d)"

definition aggregationLoop :: "agg_env \<Rightarrow> agg_wake list \<Rightarrow> 's daemon \<Rightarrow> 's daemon" where
  "aggregationLoop env ws d =
     (if dm_store d = None \<or> dm_aggregateInterval d \<le> 0 then d else agg_ticks ws (doAggregate env d))"

section \<open>Running\<close>

definition Run :: "agg_env \<Rightarrow> wake list \<Rightarrow> 's daemon \<Rightarrow> ('s daemon \<times> int list \<times> bool) outcome" where
  "Run env ws d =
     (if dm_inverter d = None
      then Ret (setState InverterStateDisabled None d, [], Cancelled \<in> set ws)
      else if dm_pollInterval d \<le> 0
      then Ret (setState InverterStateDisconnected None d, [], Cancelled \<in> set ws)
      else poll_loop ws (setState InverterStateDisconnected None (doStartupAggregation env d))
             backoffInitial [])"

end
