(* ===== verification/Store_Frame.thy ===== *)
theory Store_Frame
  imports Store_Correct
begin

text \<open>
  What the operations of the database leave alone. \<open>apart_from_samples\<close> collects the tables that no
  statement on samples and aggregates touches; the lemmas of \<open>db_frame\<close> say so, on success and on
  failure.
\<close>

named_theorems db_frame

definition apart_from_samples ::
    "db \<Rightarrow> inverterIdentity list \<times> voltageEvent list \<times> int \<times> voltageCursor option \<times> (nat \<Rightarrow> goerror option) \<times> (f64 list \<Rightarrow> f64)" where
  "apart_from_samples d =
     (db_identity d, db_events d, db_event_seq d, db_cursor d, db_faults d, db_avg d)"

lemma stmt_frame:
  assumes "stmt f d = (r, d')" "\<And>d x e. f d = (x, e) \<Longrightarrow> g e = g d" "\<And>d k. g (d\<lparr>db_stmts := k\<rparr>) = g d"
  shows "g d' = g d"
  using assms(1) assms(2) [of "d\<lparr>db_stmts := Suc (db_stmts d)\<rparr>"] assms(3)
  by (cases r) (auto simp: stmt_ok stmt_err)

lemma query_frame:
  assumes "query f d = (r, d')" "\<And>d k. g (d\<lparr>db_stmts := k\<rparr>) = g d"
  shows "g d' = g d"
  using assms(1) unfolding query_def by (rule stmt_frame) (auto simp: assms(2))

lemma failing_frame: "failing pre r = (x, d') \<Longrightarrow> d' = snd r"
  by (auto simp: failing_def split: prod.splits sum.splits)

lemma aggregate_loop_frame:
  assumes "aggregate_loop step run what t hi tot ctx d = (r, d')"
    and "\<And>t d x e. run t d = (x, e) \<Longrightarrow> g e = g d" "\<And>d k. g (d\<lparr>db_stmts := k\<rparr>) = g d"
  shows "g d' = g d"
  using assms(1)
proof (induction "nat (hi - t)" arbitrary: t tot ctx d rule: less_induct)
  case less
  show ?case
  proof (cases "0 < step \<and> t < hi")
    case False
    with less.prems show ?thesis by (auto simp: aggregate_loop.simps [of step run what t])
  next
    case True
    obtain r1 d1 where one: "stmt (run t) d = (r1, d1)" by force
    have g1: "g d1 = g d" by (rule stmt_frame [OF one]) (use assms(2,3) in auto)
    show ?thesis
    proof (cases r1)
      case (Inl err)
      with less.prems True one g1 show ?thesis by (simp add: aggregate_loop.simps [of step run what t])
    next
      case (Inr n)
      obtain b ctx1 where ctx: "ctx_done ctx = (b, ctx1)" by force
      show ?thesis
      proof (cases b)
        case True
        with less.prems Inr \<open>0 < step \<and> t < hi\<close> one g1 ctx show ?thesis
          by (simp add: aggregate_loop.simps [of step run what t])
      next
        case False
        then have "aggregate_loop step run what (t + step) hi (tot + n) ctx1 d1 = (r, d')"
          using less.prems Inr True one ctx by (simp add: aggregate_loop.simps [of step run what t])
        from less.hyps [OF _ this] True g1 show ?thesis by simp
      qed
    qed
  qed
qed

lemma aggregate_frame:
  assumes "\<And>t d x e. hourly_stmt t d = (x, e) \<Longrightarrow> g e = g d" "\<And>t d x e. daily_stmt t d = (x, e) \<Longrightarrow> h e = h d"
    and "\<And>d k. g (d\<lparr>db_stmts := k\<rparr>) = g d" "\<And>d k. h (d\<lparr>db_stmts := k\<rparr>) = h d"
  shows "AggregateHourly since until ctx d = (r, d') \<Longrightarrow> g d' = g d"
    and "AggregateDaily since until ctx d = (r, d') \<Longrightarrow> h d' = h d"
proof -
  assume run: "AggregateHourly since until ctx d = (r, d')"
  obtain r1 d1 where 1: "query (\<lambda>d. max_bucket (db_hourly d)) d = (r1, d1)" by force
  obtain r2 d2 where 2: "query (\<lambda>d. map at_row (db_samples d)) d1 = (r2, d2)" by force
  have g: "g d1 = g d" "g d2 = g d1" using query_frame [OF 1] query_frame [OF 2] assms(3) by blast+
  show "g d' = g d"
    using run 1 2 g
    by (auto simp: AggregateHourly_def Let_def split: sum.splits list.splits
        dest!: aggregate_loop_frame [where g = g, OF _ assms(1,3)])
next
  assume run: "AggregateDaily since until ctx d = (r, d')"
  obtain r1 d1 where 1: "query (\<lambda>d. max_bucket (db_daily d)) d = (r1, d1)" by force
  obtain r2 d2 where 2: "query (\<lambda>d. map ag_BucketStart (db_hourly d)) d1 = (r2, d2)" by force
  have g: "h d1 = h d" "h d2 = h d1" using query_frame [OF 1] query_frame [OF 2] assms(4) by blast+
  show "h d' = h d"
    using run 1 2 g
    by (auto simp: AggregateDaily_def Let_def split: sum.splits list.splits
        dest!: aggregate_loop_frame [where g = h, OF _ assms(2,4)])
qed

lemma hourly_frame [db_frame]:
  assumes "AggregateHourly since until ctx d = (r, d')"
  shows "apart_from_samples d' = apart_from_samples d" "db_samples d' = db_samples d" "db_daily d' = db_daily d"
    "db_sample_seq d' = db_sample_seq d"
  by (rule aggregate_frame(1) [OF _ _ _ _ assms, where h = "\<lambda>_. ()"];
      auto simp: hourly_stmt_def apart_from_samples_def Let_def)+

lemma daily_frame [db_frame]:
  assumes "AggregateDaily since until ctx d = (r, d')"
  shows "apart_from_samples d' = apart_from_samples d" "db_samples d' = db_samples d" "db_hourly d' = db_hourly d"
    "db_sample_seq d' = db_sample_seq d"
  by (rule aggregate_frame(2) [OF _ _ _ _ assms, where g = "\<lambda>_. ()"];
      auto simp: daily_stmt_def apart_from_samples_def Let_def)+

lemma prune_sensor_frame:
  assumes "prune_sensor name before batch tot d = (r, d')"
    and "\<And>d x e. prune_stmt name before batch d = (x, e) \<Longrightarrow> g e = g d" "\<And>d k. g (d\<lparr>db_stmts := k\<rparr>) = g d"
  shows "g d' = g d"
  using assms(1)
proof (induction "length (db_samples d)" arbitrary: tot d rule: less_induct)
  case less
  obtain r1 d1 where one: "stmt (prune_stmt name before batch) d = (r1, d1)" by force
  have g1: "g d1 = g d" by (rule stmt_frame [OF one]) (use assms(2,3) in auto)
  show ?case
  proof (cases r1)
    case (Inl err)
    with less.prems one g1 show ?thesis by (simp add: prune_sensor.simps [of name])
  next
    case (Inr n)
    show ?thesis
    proof (cases "n = 0")
      case True
      with less.prems one g1 Inr show ?thesis by (simp add: prune_sensor.simps [of name])
    next
      case False
      have "prune_sensor name before batch (tot + n) d1 = (r, d')"
        using less.prems one Inr False by (simp add: prune_sensor.simps [of name _ _ _ d])
      moreover have "length (db_samples d1) < length (db_samples d)"
        using stmt_prune [OF one [unfolded Inr]] False by linarith
      ultimately show ?thesis using less.hyps g1 by auto
    qed
  qed
qed

lemma prune_sensors_frame:
  assumes "prune_sensors names before batch tot ctx d = (r, d')"
    and "\<And>name d x e. prune_stmt name before batch d = (x, e) \<Longrightarrow> g e = g d" "\<And>d k. g (d\<lparr>db_stmts := k\<rparr>) = g d"
  shows "g d' = g d"
  using assms(1)
proof (induction names arbitrary: tot ctx d)
  case (Cons name names)
  obtain t1 e1 d1 where one: "prune_sensor name before batch tot d = ((t1, e1), d1)" by (metis prod.exhaust)
  have g1: "g d1 = g d" by (rule prune_sensor_frame [OF one assms(2,3)])
  obtain b ctx1 where ctx: "ctx_done ctx = (b, ctx1)" by force
  show ?case
  proof (cases "e1 = None \<and> \<not> b")
    case True
    with Cons.prems one ctx have "prune_sensors names before batch t1 ctx1 d1 = (r, d')" by simp
    from Cons.IH [OF this] g1 show ?thesis by simp
  next
    case False
    with Cons.prems one ctx have "d' = d1" by (cases e1; cases b) simp_all
    with g1 show ?thesis by simp
  qed
qed simp

lemma prune_samples_frame:
  assumes "PruneSamples before batch ctx d = (r, d')"
    and "\<And>name d x e. prune_stmt name before batch d = (x, e) \<Longrightarrow> g e = g d" "\<And>d k. g (d\<lparr>db_stmts := k\<rparr>) = g d"
  shows "g d' = g d"
proof -
  obtain r1 d1 where 1: "query (\<lambda>d. remdups (map sr_Name (db_samples d))) d = (r1, d1)" by force
  obtain r2 d2 where 2: "query (\<lambda>d. length (filter (\<lambda>r. at_row r < before) (db_samples d))) d1 = (r2, d2)" by force
  have g1: "g d1 = g d" by (rule query_frame [OF 1 assms(3)])
  have g2: "g d2 = g d1" by (rule query_frame [OF 2 assms(3)])
  show ?thesis
  proof (cases r1)
    case (Inl err)
    with assms(1) 1 g1 show ?thesis by (simp add: PruneSamples_def)
  next
    case (Inr names)
    with assms(1) 1 2 have "prune_sensors names before batch 0 ctx d2 = (r, d')" by (simp add: PruneSamples_def)
    from prune_sensors_frame [OF this assms(2,3)] g1 g2 show ?thesis by simp
  qed
qed

lemma prune_frame [db_frame]:
  assumes "PruneSamples before batch ctx d = (r, d')"
  shows "apart_from_samples d' = apart_from_samples d" "db_hourly d' = db_hourly d" "db_daily d' = db_daily d"
    "db_sample_seq d' = db_sample_seq d"
  by (rule prune_samples_frame [OF assms]; auto simp: prune_stmt_def apart_from_samples_def Let_def)+

text \<open>Pruning the hourly rows removes rows that are too old, and nothing else.\<close>

lemma prune_hourly_stmt_rows:
  "prune_hourly_stmt before batch d = (x, e) \<Longrightarrow>
   filter (\<lambda>a. before \<le> ag_BucketStart a) (db_hourly e) = filter (\<lambda>a. before \<le> ag_BucketStart a) (db_hourly d)"
proof -
  assume "prune_hourly_stmt before batch d = (x, e)"
  then have e: "db_hourly e = filter (\<lambda>a. ag_key a \<notin> set (oldest_keys before batch (db_hourly d))) (db_hourly d)"
    by (auto simp: prune_hourly_stmt_def Let_def)
  have old: "ag_BucketStart a < before" if "ag_key a \<in> set (oldest_keys before batch tbl)" for a tbl
    using that by (auto simp: oldest_keys_def limit_to_def ag_key_def split: if_splits dest!: in_set_takeD)
  then show ?thesis
    by (auto simp: e filter_filter intro!: filter_cong dest!: old)
qed

lemma prune_hourly_loop_frame:
  assumes "prune_hourly_loop before batch tot ctx d = (r, d')"
    and "\<And>d x e. prune_hourly_stmt before batch d = (x, e) \<Longrightarrow> g e = g d" "\<And>d k. g (d\<lparr>db_stmts := k\<rparr>) = g d"
  shows "g d' = g d"
  using assms(1)
proof (induction "length (db_hourly d)" arbitrary: tot ctx d rule: less_induct)
  case less
  obtain r1 d1 where one: "stmt (prune_hourly_stmt before batch) d = (r1, d1)" by force
  have g1: "g d1 = g d" by (rule stmt_frame [OF one]) (use assms(2,3) in auto)
  obtain b ctx1 where ctx: "ctx_done ctx = (b, ctx1)" by force
  show ?case
  proof (cases r1)
    case (Inl err)
    with less.prems one g1 show ?thesis by (simp add: prune_hourly_loop.simps [of before])
  next
    case (Inr n)
    show ?thesis
    proof (cases "n = 0 \<or> b")
      case True
      with less.prems one g1 Inr ctx show ?thesis by (auto simp: prune_hourly_loop.simps [of before] split: if_splits)
    next
      case False
      have "prune_hourly_loop before batch (tot + n) ctx1 d1 = (r, d')"
        using less.prems one Inr ctx False by (simp add: prune_hourly_loop.simps [of before _ _ _ d])
      moreover have "length (db_hourly d1) < length (db_hourly d)"
        using stmt_prune_hourly [OF one [unfolded Inr]] False by linarith
      ultimately show ?thesis using less.hyps g1 by auto
    qed
  qed
qed

lemma prune_hourly_frame [db_frame]:
  assumes "PruneHourly before batch ctx d = (r, d')"
  shows "apart_from_samples d' = apart_from_samples d" "db_samples d' = db_samples d" "db_daily d' = db_daily d"
    "db_sample_seq d' = db_sample_seq d"
    "filter (\<lambda>a. before \<le> ag_BucketStart a) (db_hourly d') = filter (\<lambda>a. before \<le> ag_BucketStart a) (db_hourly d)"
proof -
  obtain r1 d1 where 1: "query (\<lambda>d. length (filter (\<lambda>a. ag_BucketStart a < before) (db_hourly d))) d = (r1, d1)" by force
  with assms have run: "prune_hourly_loop before batch 0 ctx d1 = (r, d')" by (simp add: PruneHourly_def)
  have *: "g d' = g d"
    if "\<And>d x e. prune_hourly_stmt before batch d = (x, e) \<Longrightarrow> g e = g d" "\<And>d k. g (d\<lparr>db_stmts := k\<rparr>) = g d"
    for g :: "db \<Rightarrow> 'b"
  proof -
    have "g d1 = g d" by (rule query_frame [OF 1 that(2)])
    moreover have "g d' = g d1" by (rule prune_hourly_loop_frame [OF run that])
    ultimately show ?thesis by simp
  qed
  show "apart_from_samples d' = apart_from_samples d" "db_samples d' = db_samples d" "db_daily d' = db_daily d"
    "db_sample_seq d' = db_sample_seq d"
    by (rule *; auto simp: prune_hourly_stmt_def apart_from_samples_def Let_def)+
  show "filter (\<lambda>a. before \<le> ag_BucketStart a) (db_hourly d') = filter (\<lambda>a. before \<le> ag_BucketStart a) (db_hourly d)"
    by (rule *) (auto dest: prune_hourly_stmt_rows)
qed

section \<open>Single statements\<close>

lemma identity_frame [db_frame]:
  assumes "GetInverterIdentity d = (r, d')"
  shows "apart_from_samples d' = apart_from_samples d" "db_samples d' = db_samples d" "db_sample_seq d' = db_sample_seq d"
    "db_hourly d' = db_hourly d"
  using assms by (cases r; auto simp: GetInverterIdentity_def statement_simps apart_from_samples_def)+

lemma set_identity_frame [db_frame]:
  assumes "SetInverterIdentity now serial model fw dsp arm rated d = (r, d')"
  shows "db_samples d' = db_samples d" "db_events d' = db_events d" "db_event_seq d' = db_event_seq d"
    "db_cursor d' = db_cursor d" "db_faults d' = db_faults d" "db_hourly d' = db_hourly d"
  using assms by (cases r; auto simp: SetInverterIdentity_def statement_simps)+

lemma purge_frame [db_frame]:
  assumes "PurgeBadSamples rated d = (r, d')"
  shows "apart_from_samples d' = apart_from_samples d" "set (db_samples d') \<subseteq> set (db_samples d)"
    "db_hourly d' = db_hourly d"
  using assms by (cases r; auto simp: PurgeBadSamples_def statement_simps apart_from_samples_def Let_def)+

lemma insert_frame [db_frame]:
  assumes "InsertSample name unit t v txt d = (r, d')"
  shows "apart_from_samples d' = apart_from_samples d" "db_hourly d' = db_hourly d"
  using assms by (cases r; auto simp: InsertSample_def statement_simps apart_from_samples_def Let_def)+

end
