(* ===== verification/Daemon_Correct.thy ===== *)
theory Daemon_Correct
  imports Daemon Store_Frame
begin

text \<open>
  What the daemon promises: it never panics over an inverter that does not, its states and backoff
  stay in their bounds however polling and aggregation interleave, it polls only the inverter whose
  serial number the database holds, a poll stores exactly the values that were read, and retention
  removes no sample before its hour is aggregated.
\<close>

section \<open>Over an inverter that returns\<close>

text \<open>The contract of the inverter interface: in a good state every operation returns, in a good state.\<close>

locale inverter_iface =
  fixes I :: "'s inverterOps" and good :: "'s \<Rightarrow> bool"
  assumes connect_good: "good s \<Longrightarrow> \<exists>r s'. io_Connect I s = Ret (r, s') \<and> good s'"
    and close_good: "good s \<Longrightarrow> \<exists>r s'. io_Close I s = Ret (r, s') \<and> good s'"
    and info_good: "good s \<Longrightarrow> \<exists>r s'. io_GetInfo I s = Ret (r, s') \<and> good s'"
    and sensors_good: "good s \<Longrightarrow> \<exists>r s'. io_GetSensors I ctx s = Ret (r, s') \<and> good s'"
begin

definition holds_good :: "'s daemon \<Rightarrow> bool" where
  "holds_good d \<longleftrightarrow> (\<exists>s. dm_inverter d = Some (I, s) \<and> good s)"

lemma holds_good_upd [simp]:
  "holds_good (setState st e d) = holds_good d" "holds_good (d\<lparr>dm_store := x\<rparr>) = holds_good d"
  "holds_good (d\<lparr>dm_inverterIdentity := y\<rparr>) = holds_good d"
  "holds_good (d\<lparr>dm_verificationErr := z\<rparr>) = holds_good d"
  by (simp_all add: holds_good_def setState_def)

lemma call_good:
  assumes "holds_good d" "\<And>s. good s \<Longrightarrow> \<exists>r s'. f I s = Ret (r, s') \<and> good s'"
  shows "\<exists>r d'. call_inverter f d = Ret (r, d') \<and> holds_good d'"
proof -
  obtain s where s: "dm_inverter d = Some (I, s)" "good s" using assms(1) by (auto simp: holds_good_def)
  then obtain r s' where "f I s = Ret (r, s')" "good s'" using assms(2) by blast
  with s show ?thesis by (simp add: call_inverter_def holds_good_def)
qed

lemma close_returns: "holds_good d \<Longrightarrow> \<exists>d'. closeConnection d = Ret d' \<and> holds_good d'"
  using call_good [of d io_Close] close_good by (auto simp: closeConnection_def)

lemma check_good: "holds_good (snd (check_identity now i db d)) = holds_good d"
  by (simp add: check_identity_def Let_def split: prod.splits sum.splits option.splits)

lemma verify_returns:
  assumes "holds_good d"
  shows "\<exists>e d'. verifyIdentity env d = Ret (e, d') \<and> holds_good d'"
proof -
  obtain r d1 where 1: "call_inverter io_GetInfo d = Ret (r, d1)" "holds_good d1"
    using call_good [OF assms, of io_GetInfo] info_good by blast
  show ?thesis
  proof (cases r)
    case (Inl err)
    with 1 show ?thesis by (simp add: verifyIdentity_def)
  next
    case (Inr i)
    show ?thesis
    proof (cases "dm_store d1")
      case None
      with 1 Inr show ?thesis by (simp add: verifyIdentity_def)
    next
      case (Some db)
      with 1 Inr check_good [of "te_now_identity env" i db d1] show ?thesis
        by (cases "check_identity (te_now_identity env) i db d1") (simp add: verifyIdentity_def)
    qed
  qed
qed

lemma connect_returns:
  assumes "holds_good d"
  shows "\<exists>d'. doConnect env d = Ret d' \<and> holds_good d'"
proof -
  obtain e1 d1 where 1: "call_inverter io_Connect (setState InverterStateConnecting None d) = Ret (e1, d1)"
      "holds_good d1"
    using call_good [of "setState InverterStateConnecting None d" io_Connect] connect_good assms by auto
  obtain e2 d2 where 2: "verifyIdentity env d1 = Ret (e2, d2)" "holds_good d2"
    using verify_returns [OF 1(2)] by blast
  obtain d3 where 3: "closeConnection d2 = Ret d3" "holds_good d3"
    using close_returns [OF 2(2)] by blast
  from 1 2 3 show ?thesis
    by (cases e1; cases e2; cases "dm_verificationErr d2") (simp_all add: doConnect_def)
qed

lemma poll_returns:
  assumes "holds_good d"
  shows "\<exists>d'. doPoll env d = Ret d' \<and> holds_good d'"
proof -
  obtain r d1 where 1: "call_inverter (\<lambda>I. io_GetSensors I (te_ctx env)) d = Ret (r, d1)" "holds_good d1"
    using call_good [OF assms, of "\<lambda>I. io_GetSensors I (te_ctx env)"] sensors_good by blast
  obtain m err where r: "r = (m, err)" by force
  obtain d2 where "closeConnection d1 = Ret d2" "holds_good d2" using close_returns [OF 1(2)] by blast
  with 1 r show ?thesis
    by (cases err; cases "dm_store d1") (auto simp: doPoll_def split: prod.splits)
qed

lemma timer_returns: "holds_good d \<Longrightarrow> \<exists>d'. on_timer env d = Ret d' \<and> holds_good d'"
proof -
  assume d: "holds_good d"
  obtain d1 where 1: "doConnect env d = Ret d1" "holds_good d1" using connect_returns [OF d] by blast
  from 1 poll_returns [OF d, of env] poll_returns [OF 1(2), of env] d show ?thesis
    by (cases "dm_connState d") (auto simp: on_timer_def)
qed

lemma loop_returns: "holds_good d \<Longrightarrow> returns (poll_loop ws d b waits)"
proof (induction ws d b waits rule: poll_loop.induct)
  case (2 ws d b waits)
  then show ?case using close_returns [of d] by (auto simp: returns_iff)
next
  case (3 env ws d b waits)
  obtain d1 where 1: "on_timer env d = Ret d1" "holds_good d1" using timer_returns [OF "3.prems"] by blast
  obtain w b1 where w: "next_wait d1 b = (w, b1)" by force
  show ?case
    using "3.IH" [of w b1 d1] 1 w by (cases w) (auto simp: returns_iff)
qed (auto simp: returns_iff)

lemma Run_returns: "holds_good d \<Longrightarrow> returns (Run env ws d)"
  using loop_returns [of "setState InverterStateDisconnected None (doStartupAggregation env d)"]
  by (auto simp: Run_def doStartupAggregation_def intro: returns_iff [THEN iffD2])

end

interpretation tcp_inverter: inverter_iface "et_inverter order" "over (tcp_transport net)"
  for order :: "blockType \<Rightarrow> string list" and net :: "'w network"
  by unfold_locales
    (use tcp.Connect_ok tcp.Close_ok tcp.GetInfo_ok tcp.GetSensors_ok in \<open>fastforce simp: et_inverter_def\<close>)+

interpretation dtls_inverter: inverter_iface "et_inverter order" "over (dtls_transport net)"
  for order :: "blockType \<Rightarrow> string list" and net :: "'w network"
  by unfold_locales
    (use dtls.Connect_ok dtls.Close_ok dtls.GetInfo_ok dtls.GetSensors_ok in \<open>fastforce simp: et_inverter_def\<close>)+

section \<open>The identity check\<close>

text \<open>\<open>db'\<close> holds the same voltage tables and no sample that \<open>db\<close> does not hold.\<close>

definition shrinks :: "db \<Rightarrow> db \<Rightarrow> bool" where
  "shrinks db db' \<longleftrightarrow> set (db_samples db') \<subseteq> set (db_samples db) \<and> db_events db' = db_events db \<and>
     db_event_seq db' = db_event_seq db \<and> db_cursor db' = db_cursor db \<and> db_faults db' = db_faults db"

lemma shrinks_refl [simp]: "shrinks db db"
  by (simp add: shrinks_def)

lemma shrinks_trans [trans]: "shrinks a b \<Longrightarrow> shrinks b c \<Longrightarrow> shrinks a c"
  by (auto simp: shrinks_def)

lemma shrinks_ops:
  "GetInverterIdentity db = (r1, db1) \<Longrightarrow> shrinks db db1"
  "store_identity now i db = (r2, db2) \<Longrightarrow> shrinks db db2"
  "PurgeBadSamples rated db = (r3, db3) \<Longrightarrow> shrinks db db3"
proof -
  show "GetInverterIdentity db = (r1, db1) \<Longrightarrow> shrinks db db1"
    using identity_frame [of db r1 db1] by (simp add: shrinks_def apart_from_samples_def)
  show "store_identity now i db = (r2, db2) \<Longrightarrow> shrinks db db2"
    unfolding store_identity_def using set_identity_frame by (simp add: shrinks_def)
  show "PurgeBadSamples rated db = (r3, db3) \<Longrightarrow> shrinks db db3"
    using purge_frame [of rated db r3 db3] by (simp add: shrinks_def apart_from_samples_def)
qed

definition first_serial :: "db \<Rightarrow> string option" where
  "first_serial db = (case db_identity db of [] \<Rightarrow> None | x # _ \<Rightarrow> Some (id_Serial x))"

lemma identity_read:
  "GetInverterIdentity db = (Inr x, db1) \<Longrightarrow> map_option id_Serial x = first_serial db"
  by (auto simp: GetInverterIdentity_def statement_simps first_serial_def split: list.splits)

lemma first_serial_kept:
  "GetInverterIdentity db = (r1, db1) \<Longrightarrow> first_serial db1 = first_serial db"
  "PurgeBadSamples rated db = (r3, db3) \<Longrightarrow> first_serial db3 = first_serial db"
  using identity_frame(1) [of db r1 db1] purge_frame(1) [of rated db r3 db3]
  by (auto simp: first_serial_def apart_from_samples_def)

lemma first_serial_stored:
  "store_identity now i db = (Inr u, db2) \<Longrightarrow> first_serial db = None \<or> first_serial db = Some (in_SerialNumber i) \<Longrightarrow>
   first_serial db2 = Some (in_SerialNumber i)"
  "store_identity now i db = (Inl e, db2) \<Longrightarrow> first_serial db2 = first_serial db"
  by (auto simp: store_identity_def SetInverterIdentity_def statement_simps first_serial_def split: list.splits)

lemma check_identity_spec:
  assumes "check_identity now i db d = (e, d')" "dm_verificationErr d = None"
  shows "\<exists>db'. dm_store d' = Some db' \<and> shrinks db db' \<and> dm_inverter d' = dm_inverter d \<and>
    (case dm_verificationErr d' of
       None \<Rightarrow> e = None \<longrightarrow> first_serial db' = Some (in_SerialNumber i)
     | Some v \<Rightarrow> e = None \<and> db_samples db' = db_samples db \<and>
         (\<exists>sn. first_serial db = Some sn \<and> sn \<noteq> in_SerialNumber i \<and> v = mismatch sn (in_SerialNumber i)))"
proof (cases "GetInverterIdentity db")
  case (Pair r db1)
  note sh1 = shrinks_ops(1) [OF Pair] and fs1 = first_serial_kept(1) [OF Pair]
  show ?thesis
  proof (cases r)
    case (Inl err)
    with assms Pair sh1 show ?thesis by (auto simp: check_identity_def)
  next
    case (Inr x)
    with Pair have read: "map_option id_Serial x = first_serial db" by (simp add: identity_read)
    obtain r2 db2 where st: "store_identity now i db1 = (r2, db2)" by force
    obtain r3 db3 where pg: "PurgeBadSamples (in_RatedPower i) db2 = (r3, db3)" by force
    have sh2: "shrinks db db2" using sh1 shrinks_ops(2) [OF st] by (rule shrinks_trans)
    have sh3: "shrinks db db3" using sh2 shrinks_ops(3) [OF pg] by (rule shrinks_trans)
    have fs3: "first_serial db3 = first_serial db2" by (rule first_serial_kept(2) [OF pg])
    show ?thesis
    proof (cases x)
      case None
      with assms Pair Inr st pg sh2 sh3 fs1 fs3 read first_serial_stored [of now i db1] show ?thesis
        by (cases r2) (auto simp: check_identity_def)
    next
      case (Some stored)
      show ?thesis
      proof (cases "id_Serial stored = in_SerialNumber i")
        case True
        have "first_serial db2 = Some (in_SerialNumber i)"
          using first_serial_stored [of now i db1] st fs1 read Some True by (cases r2) auto
        with assms Pair Inr Some True st pg sh3 fs3 show ?thesis
          by (auto simp: check_identity_def Let_def)
      next
        case False
        have "first_serial db = Some (id_Serial stored)" using read Some by simp
        with False assms Pair Inr Some sh1 identity_frame(2) [OF Pair] show ?thesis
          by (auto simp: check_identity_def Let_def)
      qed
    qed
  qed
qed

section \<open>Connecting and polling\<close>

lemma call_inverter_Ret:
  "call_inverter f d = Ret (r, d') \<longleftrightarrow>
   (\<exists>I s s'. dm_inverter d = Some (I, s) \<and> f I s = Ret (r, s') \<and> d' = d\<lparr>dm_inverter := Some (I, s')\<rparr>)"
  by (auto simp: call_inverter_def obind_Ret_iff split: option.splits)

lemma setState_sel [simp]:
  "dm_connState (setState st e d) = st" "dm_connErr (setState st e d) = e"
  "dm_verificationErr (setState st e d) = dm_verificationErr d" "dm_store (setState st e d) = dm_store d"
  "dm_inverter (setState st e d) = dm_inverter d" "dm_pollInterval (setState st e d) = dm_pollInterval d"
  by (simp_all add: setState_def)

lemma closeConnection_Ret:
  "closeConnection d = Ret d' \<Longrightarrow> dm_store d' = dm_store d \<and> dm_verificationErr d' = dm_verificationErr d \<and>
    map_option fst (dm_inverter d') = map_option fst (dm_inverter d)"
  by (auto simp: closeConnection_def obind_Ret_iff call_inverter_Ret)

text \<open>How far the store may move: only shrinking, if there is one.\<close>

definition store_shrinks :: "'s daemon \<Rightarrow> 's daemon \<Rightarrow> bool" where
  "store_shrinks d d' \<longleftrightarrow> (case dm_store d of None \<Rightarrow> dm_store d' = None
     | Some db \<Rightarrow> \<exists>db'. dm_store d' = Some db' \<and> shrinks db db')"

lemma verifyIdentity_spec:
  assumes "verifyIdentity env d = Ret (e, d')" "dm_verificationErr d = None" "dm_inverter d = Some (I, s)"
  shows "\<exists>r s'. io_GetInfo I s = Ret (r, s') \<and> dm_inverter d' = Some (I, s') \<and> store_shrinks d d' \<and>
    (case dm_verificationErr d' of
       None \<Rightarrow> e = None \<longrightarrow> (\<exists>i. r = Inr i \<and>
         (\<forall>db'. dm_store d' = Some db' \<longrightarrow> first_serial db' = Some (in_SerialNumber i)))
     | Some v \<Rightarrow> e = None \<and> (\<exists>i sn db db'. r = Inr i \<and> dm_store d = Some db \<and> dm_store d' = Some db' \<and>
         db_samples db' = db_samples db \<and> first_serial db = Some sn \<and> sn \<noteq> in_SerialNumber i \<and>
         v = mismatch sn (in_SerialNumber i)))"
proof -
  obtain r s' where info: "io_GetInfo I s = Ret (r, s')"
      and call: "call_inverter io_GetInfo d = Ret (r, d\<lparr>dm_inverter := Some (I, s')\<rparr>)"
    using assms(1,3) by (auto simp: verifyIdentity_def obind_Ret_iff call_inverter_Ret)
  show ?thesis
  proof (cases r)
    case (Inl err)
    with info call assms show ?thesis
      by (auto simp: verifyIdentity_def store_shrinks_def split: option.splits)
  next
    case (Inr i)
    show ?thesis
    proof (cases "dm_store d")
      case None
      with info call assms Inr show ?thesis by (auto simp: verifyIdentity_def store_shrinks_def)
    next
      case (Some db)
      then have "check_identity (te_now_identity env) i db (d\<lparr>dm_inverter := Some (I, s')\<rparr>) = (e, d')"
        using call assms(1) Inr by (simp add: verifyIdentity_def)
      from check_identity_spec [OF this] assms(2) info Inr Some show ?thesis
        by (auto simp: store_shrinks_def split: option.splits)
    qed
  qed
qed

lemma doConnect_spec:
  assumes "doConnect env d = Ret d'" "dm_verificationErr d = None" "dm_inverter d = Some (I, s)"
  shows "store_shrinks d d' \<and> map_option fst (dm_inverter d') = Some I \<and>
    ((dm_connState d' = InverterStateDisconnected \<and> dm_connErr d' \<noteq> None \<and> dm_verificationErr d' = None) \<or>
     (\<exists>s1 i s2. io_Connect I s = Ret (None, s1) \<and> io_GetInfo I s1 = Ret (Inr i, s2) \<and> dm_inverter d' = Some (I, s2) \<and>
       ((dm_connState d' = InverterStateConnected \<and> dm_connErr d' = None \<and> dm_verificationErr d' = None \<and>
         (\<forall>db'. dm_store d' = Some db' \<longrightarrow> first_serial db' = Some (in_SerialNumber i))) \<or>
        (\<exists>sn db db'. dm_connState d' = InverterStateFailed \<and> dm_connErr d' = dm_verificationErr d' \<and>
         dm_verificationErr d' = Some (mismatch sn (in_SerialNumber i)) \<and> dm_store d = Some db \<and>
         dm_store d' = Some db' \<and> db_samples db' = db_samples db \<and> first_serial db = Some sn \<and>
         sn \<noteq> in_SerialNumber i))))"
proof -
  obtain e1 s1 where con: "io_Connect I s = Ret (e1, s1)"
    using assms(1,3) by (auto simp: doConnect_def obind_Ret_iff call_inverter_Ret)
  define d1 where "d1 = (setState InverterStateConnecting None d)\<lparr>dm_inverter := Some (I, s1)\<rparr>"
  have call: "call_inverter io_Connect (setState InverterStateConnecting None d) = Ret (e1, d1)"
    using con assms(3) by (simp add: call_inverter_Ret d1_def)
  have d1: "dm_verificationErr d1 = None" "dm_inverter d1 = Some (I, s1)" "dm_store d1 = dm_store d"
    using assms(2) by (simp_all add: d1_def)
  show ?thesis
  proof (cases e1)
    case (Some e)
    with call assms(1) d1 show ?thesis
      by (auto simp: doConnect_def store_shrinks_def split: option.splits)
  next
    case None
    obtain e2 d2 where ver: "verifyIdentity env d1 = Ret (e2, d2)"
      using call None assms(1) by (auto simp: doConnect_def obind_Ret_iff)
    note spec = verifyIdentity_spec [OF ver d1(1,2)]
    show ?thesis
    proof (cases e2)
      case (Some e)
      then obtain d3 where "closeConnection d2 = Ret d3" "d' = setState InverterStateDisconnected (Some e) d3"
        using call None assms(1) ver by (auto simp: doConnect_def obind_Ret_iff)
      with closeConnection_Ret [OF this(1)] spec Some d1(3) show ?thesis
        by (auto simp: store_shrinks_def split: option.splits)
    next
      case none2: None
      show ?thesis
      proof (cases "dm_verificationErr d2")
        case None
        then have "d' = setState InverterStateConnected None d2"
          using call \<open>e1 = None\<close> none2 assms(1) ver by (simp add: doConnect_def)
        with spec None none2 con \<open>e1 = None\<close> d1(3) show ?thesis
          by (auto simp: store_shrinks_def split: option.splits)
      next
        case (Some v)
        then have "d' = setState InverterStateFailed (Some v) d2"
          using call \<open>e1 = None\<close> none2 assms(1) ver by (simp add: doConnect_def)
        with spec Some none2 con \<open>e1 = None\<close> d1(3) show ?thesis
          by (auto simp: store_shrinks_def split: option.splits)
      qed
    qed
  qed
qed

lemma store_sensors_frame:
  "store_sensors names m now k db = (n, db') \<Longrightarrow> apart_from_samples db' = apart_from_samples db \<and> db_hourly db' = db_hourly db"
proof (induction names m now k db rule: store_sensors.induct)
  case (2 name names m now stored db)
  show ?case
  proof (cases "m name")
    case None
    with 2 show ?thesis by simp
  next
    case (Some sv)
    show ?thesis
    proof (cases "sv_Value sv")
      case (VFloat v)
      obtain r db1 where "InsertSample name (sv_Unit sv) now (Some v) None db = (r, db1)" by force
      with 2 Some VFloat insert_frame [OF this] show ?thesis by (cases r) auto
    next
      case (VString t)
      obtain r db1 where "InsertSample name (sv_Unit sv) now None (Some t) db = (r, db1)" by force
      with 2 Some VString insert_frame [OF this] show ?thesis by (cases r) auto
    next
      case (VTime t)
      with 2 Some show ?thesis by simp
    qed
  qed
qed simp

text \<open>What a poll does to the store.\<close>

lemma doPoll_spec:
  assumes "doPoll env d = Ret d'" "dm_inverter d = Some (I, s)"
  shows "\<exists>m err s'. io_GetSensors I (te_ctx env) s = Ret ((m, err), s') \<and>
    dm_verificationErr d' = dm_verificationErr d \<and> map_option fst (dm_inverter d') = Some I \<and>
    (case err of
       Some e \<Rightarrow> dm_connState d' = InverterStateDisconnected \<and> dm_connErr d' = Some e \<and> dm_store d' = dm_store d
     | None \<Rightarrow> dm_connState d' = dm_connState d \<and> dm_connErr d' = dm_connErr d \<and>
         dm_store d' = map_option (\<lambda>db. snd (RunVoltageAnalysis (te_now_analysis env) db_store
           (snd (store_sensors (te_names env) (case m of None \<Rightarrow> Map.empty | Some m \<Rightarrow> m) (te_now_poll env) 0 db))))
           (dm_store d))"
proof -
  obtain m err s' where sens: "io_GetSensors I (te_ctx env) s = Ret ((m, err), s')"
      and call: "call_inverter (\<lambda>I. io_GetSensors I (te_ctx env)) d = Ret ((m, err), d\<lparr>dm_inverter := Some (I, s')\<rparr>)"
    using assms by (auto simp: doPoll_def obind_Ret_iff call_inverter_Ret)
  show ?thesis
  proof (cases err)
    case None
    with sens call assms(1) show ?thesis
      by (auto simp: doPoll_def Let_def split: option.splits prod.splits)
  next
    case (Some e)
    with sens call assms(1) show ?thesis
      by (auto simp: doPoll_def obind_Ret_iff dest!: closeConnection_Ret)
  qed
qed

section \<open>The states of the daemon\<close>

text \<open>
  One step of the running daemon: the timer fires while the connection has not failed, or the
  aggregation job runs. The second component is the backoff.
\<close>

inductive daemon_step :: "'s daemon \<times> int \<Rightarrow> 's daemon \<times> int \<Rightarrow> bool" where
  fires: "dm_connState d \<noteq> InverterStateFailed \<Longrightarrow> on_timer env d = Ret d1 \<Longrightarrow> next_wait d1 b = (w, b1) \<Longrightarrow>
    daemon_step (d, b) (d1, b1)"
| aggregates: "daemon_step (d, b) (doAggregate env d, b)"

inductive_cases daemon_stepE: "daemon_step (d, b) (d1, b1)"

definition backoff_ok :: "int \<Rightarrow> bool" where
  "backoff_ok b \<longleftrightarrow> (\<exists>k. b = min (backoffInitial * 2 ^ k) backoffMax)"

definition daemon_inv :: "'s daemon \<times> int \<Rightarrow> bool" where
  "daemon_inv x \<longleftrightarrow> (case x of (d, b) \<Rightarrow>
     (case dm_connState d of
        InverterStateDisconnected \<Rightarrow> dm_verificationErr d = None
      | InverterStateConnected \<Rightarrow> dm_verificationErr d = None \<and> dm_connErr d = None
      | InverterStateFailed \<Rightarrow> dm_verificationErr d \<noteq> None \<and> dm_connErr d = dm_verificationErr d
      | _ \<Rightarrow> False) \<and> dm_inverter d \<noteq> None \<and> backoff_ok b)"

lemma backoff_next:
  assumes "backoff_ok b"
  shows "backoff_ok (if backoffMax < b * 2 then backoffMax else b * 2)"
proof -
  obtain k where k: "b = min (backoffInitial * 2 ^ k) backoffMax" using assms by (auto simp: backoff_ok_def)
  have "(if backoffMax < b * 2 then backoffMax else b * 2) = min (backoffInitial * 2 ^ Suc k) backoffMax"
    by (auto simp: k min_def backoffMax_def Second_def)
  then show ?thesis unfolding backoff_ok_def by blast
qed

lemma backoff_initial [simp]: "backoff_ok backoffInitial"
  unfolding backoff_ok_def by (rule exI [of _ 0]) (simp add: backoffInitial_def backoffMax_def Second_def)

lemma next_wait_backoff: "backoff_ok b \<Longrightarrow> next_wait d b = (w, b1) \<Longrightarrow> backoff_ok b1"
  using backoff_next [of b] by (auto simp: next_wait_def split: connState.splits)

lemma doAggregate_sel [simp]:
  "dm_connState (doAggregate env d) = dm_connState d" "dm_connErr (doAggregate env d) = dm_connErr d"
  "dm_verificationErr (doAggregate env d) = dm_verificationErr d" "dm_inverter (doAggregate env d) = dm_inverter d"
  "dm_store (doAggregate env d) = map_option (aggregate_db (dm_retentionDays d) env) (dm_store d)"
  by (simp_all add: doAggregate_def)

lemma call_inverter_some: "call_inverter f d = Ret (r, d') \<Longrightarrow> dm_inverter d' \<noteq> None"
  by (auto simp: call_inverter_Ret)

text \<open>The ways the timer can fire.\<close>

lemma on_timer_cases:
  assumes "on_timer env d = Ret d'"
  obtains (connect) "dm_connState d = InverterStateDisconnected" "doConnect env d = Ret d'"
      "dm_connState d' \<noteq> InverterStateConnected"
    | (connect_poll) d1 where "dm_connState d = InverterStateDisconnected" "doConnect env d = Ret d1"
      "dm_connState d1 = InverterStateConnected" "doPoll env d1 = Ret d'"
    | (poll) "dm_connState d = InverterStateConnected" "doPoll env d = Ret d'"
    | (idle) "dm_connState d \<notin> {InverterStateDisconnected, InverterStateConnected}" "d' = d"
  using assms
  by (cases "dm_connState d") (auto simp: on_timer_def obind_Ret_iff split: if_splits)

lemma on_timer_inv:
  assumes "on_timer env d = Ret d'" "daemon_inv (d, b)"
  shows "daemon_inv (d', b)"
proof -
  obtain I s where I: "dm_inverter d = Some (I, s)" using assms(2) by (auto simp: daemon_inv_def)
  have poll: "daemon_inv (e', b)" if "doPoll env e = Ret e'" "daemon_inv (e, b)"
      "dm_connState e = InverterStateConnected" for e e'
  proof -
    obtain J u where "dm_inverter e = Some (J, u)" using \<open>daemon_inv (e, b)\<close> by (auto simp: daemon_inv_def)
    from doPoll_spec [OF that(1) this] that(2,3) show ?thesis
      by (auto simp: daemon_inv_def split: option.splits)
  qed
  have con: "daemon_inv (e', b)" if "doConnect env d = Ret e'" "dm_connState d = InverterStateDisconnected" for e'
  proof -
    have "dm_verificationErr d = None" using assms(2) that(2) by (simp add: daemon_inv_def)
    from doConnect_spec [OF that(1) this I] assms(2) show ?thesis
      by (auto simp: daemon_inv_def)
  qed
  from assms(1) show ?thesis
  proof (cases rule: on_timer_cases)
    case (connect_poll d1)
    from poll [OF connect_poll(4) con [OF connect_poll(2,1)] connect_poll(3)] show ?thesis .
  qed (use con poll assms(2) in auto)
qed

lemma daemon_step_inv: "daemon_step x y \<Longrightarrow> daemon_inv x \<Longrightarrow> daemon_inv y"
proof (induction rule: daemon_step.induct)
  case (fires d env d1 b w b1)
  have "backoff_ok b1" using fires.hyps(3) fires.prems next_wait_backoff by (auto simp: daemon_inv_def)
  with on_timer_inv [OF fires.hyps(2) fires.prems] show ?case by (simp add: daemon_inv_def)
qed (simp add: daemon_inv_def cong: connState.case_cong)

text \<open>The state in which the loop of \<open>Run\<close> starts.\<close>

definition started :: "agg_env \<Rightarrow> 's daemon \<Rightarrow> 's daemon \<times> int" where
  "started env d = (setState InverterStateDisconnected None (doStartupAggregation env d), backoffInitial)"

lemma started_inv: "daemon_inv (started env (NewDaemon (Some iv) store ip poll agg days))"
  by (simp add: started_def daemon_inv_def doStartupAggregation_def NewDaemon_def)

lemma reach_inv: "daemon_step\<^sup>*\<^sup>* x y \<Longrightarrow> daemon_inv x \<Longrightarrow> daemon_inv y"
  by (induction rule: rtranclp_induct) (auto intro: daemon_step_inv)


text \<open>An inverter that never answers.\<close>

definition dead_inverter :: "unit inverterOps" where
  "dead_inverter = \<lparr>io_Connect = (\<lambda>s. Ret (Some (Errorf ''timeout''), s)), io_Close = (\<lambda>s. Ret (None, s)),
     io_GetInfo = (\<lambda>s. Ret (Inl (Errorf ''timeout''), s)),
     io_GetSensors = (\<lambda>ctx s. Ret ((None, Some (Errorf ''timeout'')), s)),
     io_ReadSensor = (\<lambda>n s. Ret (Inl (Errorf ''timeout''), s))\<rparr>"

definition demo_env :: tick_env where
  "demo_env = \<lparr>te_ctx = \<lparr>ctx_left = None, ctx_err = Errorf ''''\<rparr>, te_names = [], te_now_identity = 0,
     te_now_poll = 0, te_now_analysis = 0\<rparr>"

definition demo_agg :: agg_env where
  "demo_agg = (let c = \<lparr>ctx_left = None, ctx_err = Errorf ''''\<rparr> in
     \<lparr>ae_now = 0, ae_ctx_hourly = c, ae_ctx_daily = c, ae_ctx_prune = c, ae_ctx_prune_hourly = c\<rparr>)"


section \<open>Backoff\<close>

lemma failed_connect:
  assumes "\<forall>s. \<exists>e s'. io_Connect I s = Ret (Some e, s')" "dm_inverter d = Some (I, s)"
    and "dm_connState d = InverterStateDisconnected"
  shows "\<exists>d' s'. on_timer env d = Ret d' \<and> dm_inverter d' = Some (I, s') \<and>
    dm_connState d' = InverterStateDisconnected"
proof -
  obtain e s' where "io_Connect I s = Ret (Some e, s')" using assms(1) by blast
  then show ?thesis
    using assms(2,3) by (simp add: on_timer_def doConnect_def call_inverter_def setState_def)
qed

lemma backoff_waits:
  assumes "\<forall>s. \<exists>e s'. io_Connect I s = Ret (Some e, s')" "dm_inverter d = Some (I, s)"
    and "dm_connState d = InverterStateDisconnected"
    and "b = min (backoffInitial * 2 ^ k) backoffMax"
  shows "\<exists>d'. poll_loop (map Fires envs) d b waits =
    Ret (d', waits @ map (\<lambda>j. min (backoffInitial * 2 ^ (k + j)) backoffMax) [0..<length envs], False)"
  using assms(2-4)
proof (induction envs arbitrary: d s b k waits)
  case (Cons env envs)
  obtain d' s' where d': "on_timer env d = Ret d'" "dm_inverter d' = Some (I, s')"
      "dm_connState d' = InverterStateDisconnected"
    using failed_connect [OF assms(1) Cons.prems(1,2)] by blast
  define b' where "b' = (if backoffMax < b * 2 then backoffMax else b * 2)"
  have b': "b' = min (backoffInitial * 2 ^ Suc k) backoffMax"
    using Cons.prems(3) by (auto simp: b'_def min_def backoffMax_def Second_def)
  have w: "next_wait d' b = (WaitFor b, b')" using d'(3) by (simp add: next_wait_def b'_def)
  have upt: "[0..<length (env # envs)] = 0 # map Suc [0..<length envs]"
    by (simp add: upt_conv_Cons map_Suc_upt del: upt_Suc)
  from Cons.IH [OF d'(2,3) b', of "waits @ [b]"] d'(1) w Cons.prems(3)
  show ?case unfolding upt by (simp add: comp_def)
qed simp

text \<open>
  C15: While the inverter refuses every connection, the daemon waits 5, 10, 20, 40, 80, 160 seconds
  between the attempts and 5 minutes from then on; it never gives up.
\<close>

theorem Run_backoff:
  assumes "\<forall>s. \<exists>e s'. io_Connect I s = Ret (Some e, s')" "0 < poll"
  shows "\<exists>d'. Run env (map Fires envs) (NewDaemon (Some (I, s)) store ip poll agg days) =
    Ret (d', map (\<lambda>k. min (5 * 2 ^ k) 300 * Second) [0..<length envs], False)"
proof -
  let ?d = "setState InverterStateDisconnected None
    (doStartupAggregation env (NewDaemon (Some (I, s)) store ip poll agg days))"
  have d: "dm_inverter ?d = Some (I, s)" "dm_connState ?d = InverterStateDisconnected"
    by (simp_all add: doStartupAggregation_def NewDaemon_def)
  have b: "backoffInitial = min (backoffInitial * 2 ^ 0) backoffMax"
    by (simp add: backoffInitial_def backoffMax_def Second_def)
  have "min (backoffInitial * 2 ^ k) backoffMax = min (5 * 2 ^ k) 300 * Second" for k
    by (simp add: backoffInitial_def backoffMax_def Second_def min_def)
  then show ?thesis
    using backoff_waits [OF assms(1) d b, of envs "[]"] assms(2) by (simp add: Run_def NewDaemon_def)
qed

lemma Run_backoff_witness:
  "\<exists>d'. Run demo_agg (map Fires (replicate 8 demo_env)) (NewDaemon (Some (dead_inverter, ())) None ''ip'' Second 0 0) =
    Ret (d', map (\<lambda>s. s * Second) [5, 10, 20, 40, 80, 160, 300, 300], False)"
  using Run_backoff [of dead_inverter Second demo_agg "replicate 8 demo_env" "()" None "''ip''" 0 0]
  by (simp add: dead_inverter_def Second_def upt_rec numeral_eq_Suc)

section \<open>No panic\<close>



section \<open>Only the right inverter is polled\<close>

lemma prune_samples_sub:
  assumes "PruneSamples before batch ctx d = ((n, err), d')" "batch \<noteq> 0"
  shows "set (db_samples d') \<subseteq> set (db_samples d)"
proof -
  obtain r1 d1 where 1: "query (\<lambda>d. remdups (map sr_Name (db_samples d))) d = (r1, d1)" by force
  obtain r2 d2 where 2: "query (\<lambda>d. length (filter (\<lambda>r. at_row r < before) (db_samples d))) d1 = (r2, d2)" by force
  have same: "db_samples d1 = db_samples d" "db_samples d2 = db_samples d"
    using query_frame [OF 1, of db_samples] query_frame [OF 2, of db_samples] by simp_all
  show ?thesis
  proof (cases r1)
    case (Inl e)
    with assms 1 same show ?thesis by (auto simp: PruneSamples_def)
  next
    case (Inr names)
    with assms 1 2 have "prune_sensors names before batch 0 ctx d2 = ((n, err), d')" by (simp add: PruneSamples_def)
    from prune_sensors_spec [OF this assms(2)] same show ?thesis by simp
  qed
qed

lemma aggregate_db_frame:
  "apart_from_samples (aggregate_db days env db) = apart_from_samples db \<and>
   set (db_samples (aggregate_db days env db)) \<subseteq> set (db_samples db)"
proof -
  obtain n1 e1 db1 where 1: "AggregateHourly zero_time (ae_now env) (ae_ctx_hourly env) db = ((n1, e1), db1)"
    by (metis prod.exhaust)
  obtain n2 e2 db2 where 2: "AggregateDaily zero_time (ae_now env) (ae_ctx_daily env) db1 = ((n2, e2), db2)"
    by (metis prod.exhaust)
  obtain n3 e3 db3 where 3: "PruneSamples (days_before (ae_now env) days) 1000 (ae_ctx_prune env) db2 = ((n3, e3), db3)"
    by (metis prod.exhaust)
  obtain r4 db4 where 4: "PruneHourly (days_before (ae_now env) 365) 1000 (ae_ctx_prune_hourly env) db3 = (r4, db4)"
    by (metis prod.exhaust)
  have "set (db_samples db3) \<subseteq> set (db_samples db2)"
    using prune_samples_sub [OF 3] by simp
  then show ?thesis
    using hourly_frame [OF 1] daily_frame [OF 2] prune_frame(1) [OF 3] prune_hourly_frame(1,2) [OF 4]
    by (cases e1; cases e2) (auto simp: aggregate_db_def 1 2 3 4)
qed

lemma aggregate_shrinks: "shrinks db (aggregate_db days env db)"
  using aggregate_db_frame [of days env db] by (simp add: shrinks_def apart_from_samples_def)

lemma failed_final:
  assumes "daemon_step\<^sup>*\<^sup>* x y" "dm_connState (fst x) = InverterStateFailed" "dm_store (fst x) = Some db"
  shows "dm_connState (fst y) = InverterStateFailed \<and> (\<exists>db'. dm_store (fst y) = Some db' \<and> shrinks db db')"
  using assms
proof (induction rule: rtranclp_induct)
  case (step y z)
  then obtain db1 where y: "dm_connState (fst y) = InverterStateFailed" "dm_store (fst y) = Some db1" "shrinks db db1"
    by blast
  from step.hyps(2) y show ?case
  proof (cases rule: daemon_step.cases)
    case (aggregates d b env)
    with y shrinks_trans [OF y(3) aggregate_shrinks] show ?thesis by simp
  qed auto
qed auto

lemma connect_keeps_serial:
  assumes "doConnect env d = Ret d1" "dm_inverter d = Some (I, s)" "dm_store d = Some db"
    and "io_Connect I s = Ret (None, s1)" "io_GetInfo I s1 = Ret (Inr i, s2)" "dm_store d1 = Some db1"
    and "first_serial db = Some sn" "sn \<noteq> in_SerialNumber i"
  shows "first_serial db1 = Some sn"
proof -
  let ?d = "(setState InverterStateConnecting None d)\<lparr>dm_inverter := Some (I, s2)\<rparr>"
  obtain r db2 where rd: "GetInverterIdentity db = (r, db2)" by force
  have fs: "first_serial db2 = first_serial db" by (rule first_serial_kept(1) [OF rd])
  obtain e d2 where chk: "check_identity (te_now_identity env) i db ?d = (e, d2)" by force
  have d2: "dm_store d2 = Some db2"
  proof (cases r)
    case (Inl err)
    with chk rd show ?thesis by (auto simp: check_identity_def)
  next
    case (Inr x)
    with rd identity_read [of db x db2] assms(7) obtain st where "x = Some st" "id_Serial st = sn" by auto
    with chk rd Inr assms(8) show ?thesis by (auto simp: check_identity_def Let_def)
  qed
  have ver: "verifyIdentity env ((setState InverterStateConnecting None d)\<lparr>dm_inverter := Some (I, s1)\<rparr>) = Ret (e, d2)"
    using assms(3,5) chk by (simp add: verifyIdentity_def call_inverter_def setState_def)
  have "dm_store d1 = dm_store d2"
    using assms(1,2,4) ver
    by (auto simp: doConnect_def call_inverter_def setState_def obind_Ret_iff split: option.splits
        dest!: closeConnection_Ret)
  with d2 fs assms(6,7) show ?thesis by simp
qed


definition other_inverter :: "unit inverterOps" where
  "other_inverter = dead_inverter\<lparr>io_Connect := (\<lambda>s. Ret (None, s)),
     io_GetInfo := (\<lambda>s. Ret (Inr \<lparr>in_SerialNumber = ''B'', in_Model = '''', in_Firmware = '''',
       in_RatedPower = 0, in_DSPVersion = '''', in_ARMVersion = ''''\<rparr>, s))\<rparr>"

definition known_db :: db where
  "known_db = empty_db\<lparr>db_identity := [\<lparr>id_Serial = ''A'', id_Model = '''', id_Firmware = '''',
     id_DSPVersion = '''', id_ARMVersion = '''', id_RatedPower = 0, id_FirstSeen = 0, id_LastSeen = 0\<rparr>]\<rparr>"


section \<open>What a poll stores\<close>

text \<open>The row of a sensor value, if it is stored: numbers (NaN as NULL) and texts.\<close>

definition sample_from :: "gotime_ns \<Rightarrow> sensorValue \<Rightarrow> sample option" where
  "sample_from now sv = (case sv_Value sv of
     VFloat v \<Rightarrow> Some \<lparr>sm_Value = sql_real (Some v), sm_ValueText = None, sm_Unit = sv_Unit sv, sm_SampledAt = now\<rparr>
   | VString t \<Rightarrow> Some \<lparr>sm_Value = None, sm_ValueText = Some t, sm_Unit = sv_Unit sv, sm_SampledAt = now\<rparr>
   | VTime _ \<Rightarrow> None)"

definition stored_samples :: "gotime_ns \<Rightarrow> sensor_map \<Rightarrow> string list \<Rightarrow> (string \<times> sample) list" where
  "stored_samples now m names = List.map_filter (\<lambda>n. map_option (Pair n) (Option.bind (m n) (sample_from now))) names"

lemma stored_samples_Cons:
  "stored_samples now m (n # ns) = (case Option.bind (m n) (sample_from now) of
     None \<Rightarrow> stored_samples now m ns | Some x \<Rightarrow> (n, x) # stored_samples now m ns)"
  by (simp add: stored_samples_def List.map_filter_simps split: option.splits)

lemma insert_sound:
  assumes "\<forall>n. db_faults db n = None"
  shows "\<exists>db'. InsertSample name unit now v t db = (Inr (), db') \<and> db_sample_seq db' = db_sample_seq db + 1 \<and>
    db_samples db' = db_samples db @ [\<lparr>sr_ID = db_sample_seq db + 1, sr_Name = name,
      sr_Sample = \<lparr>sm_Value = sql_real v, sm_ValueText = t, sm_Unit = unit, sm_SampledAt = now\<rparr>\<rparr>] \<and>
    db_faults db' = db_faults db"
  using assms by (simp add: InsertSample_def stmt_def failing_def Let_def)

lemma store_sensors_sound:
  assumes "\<forall>n. db_faults db n = None"
  shows "\<exists>rows db'. store_sensors names m now k db = (k + int (length rows), db') \<and>
    db_samples db' = db_samples db @ rows \<and> map (\<lambda>r. (sr_Name r, sr_Sample r)) rows = stored_samples now m names \<and>
    map sr_ID rows = map (\<lambda>j. db_sample_seq db + 1 + int j) [0..<length rows]"
  using assms
proof (induction names arbitrary: k db)
  case Nil
  then show ?case by (simp add: stored_samples_def List.map_filter_simps)
next
  case (Cons n ns)
  show ?case
  proof (cases "Option.bind (m n) (sample_from now)")
    case None
    then have "store_sensors (n # ns) m now k db = store_sensors ns m now k db"
      by (auto simp: sample_from_def split: option.splits sval.splits)
    with Cons.IH [OF Cons.prems, of k] None show ?thesis by (simp add: stored_samples_Cons)
  next
    case (Some x)
    then obtain sv where sv: "m n = Some sv" "sample_from now sv = Some x" by (auto simp: bind_eq_Some_conv)
    obtain db1 where step: "store_sensors (n # ns) m now k db = store_sensors ns m now (k + 1) db1"
        and db1: "db_sample_seq db1 = db_sample_seq db + 1" "db_faults db1 = db_faults db"
          "db_samples db1 = db_samples db @ [\<lparr>sr_ID = db_sample_seq db + 1, sr_Name = n, sr_Sample = x\<rparr>]"
    proof (cases "sv_Value sv")
      case (VFloat v)
      with insert_sound [OF Cons.prems, of n "sv_Unit sv" now "Some v" None] sv that show thesis
        by (auto simp: sample_from_def)
    next
      case (VString t)
      with insert_sound [OF Cons.prems, of n "sv_Unit sv" now None "Some t"] sv that show thesis
        by (auto simp: sample_from_def sql_real_def)
    qed (use sv in \<open>simp add: sample_from_def\<close>)
    obtain rows db' where ih: "store_sensors ns m now (k + 1) db1 = (k + 1 + int (length rows), db')"
        "db_samples db' = db_samples db1 @ rows" "map (\<lambda>r. (sr_Name r, sr_Sample r)) rows = stored_samples now m ns"
        "map sr_ID rows = map (\<lambda>j. db_sample_seq db1 + 1 + int j) [0..<length rows]"
      using Cons.IH [of db1 "k + 1"] db1(2) Cons.prems by auto
    let ?rows = "\<lparr>sr_ID = db_sample_seq db + 1, sr_Name = n, sr_Sample = x\<rparr> # rows"
    have upt: "[0..<length ?rows] = 0 # map Suc [0..<length rows]"
      by (simp add: upt_conv_Cons map_Suc_upt del: upt_Suc)
    have ids: "map sr_ID ?rows = map (\<lambda>j. db_sample_seq db + 1 + int j) [0..<length ?rows]"
      unfolding upt using ih(4) db1(1) by (simp add: comp_def add.assoc)
    show ?thesis
      by (intro exI [of _ ?rows] exI [of _ db'] conjI ids)
        (use step ih db1 Some in \<open>simp_all add: stored_samples_Cons del: store_sensors.simps\<close>)
  qed
qed

text \<open>
  A successful poll over a database without failing statements stores one row for every numeric or
  text value that was read, in the order of the map iteration, with consecutive row ids, its unit
  and the time of the poll, and nothing else; a failed one stores nothing and disconnects.
\<close>

theorem doPoll_stores:
  assumes "dm_inverter d = Some (I, s)" "dm_store d = Some db" "sound_db db"
    and "io_GetSensors I (te_ctx env) s = Ret ((m, err), s1)" "doPoll env d = Ret d'"
  shows "\<exists>rows db'. dm_store d' = Some db' \<and> db_samples db' = db_samples db @ rows \<and>
    (case err of
       Some e \<Rightarrow> rows = [] \<and> dm_connState d' = InverterStateDisconnected \<and> dm_connErr d' = Some e
     | None \<Rightarrow> dm_connState d' = dm_connState d \<and>
         map (\<lambda>r. (sr_Name r, sr_Sample r)) rows =
           stored_samples (te_now_poll env) (case m of None \<Rightarrow> Map.empty | Some m \<Rightarrow> m) (te_names env) \<and>
         map sr_ID rows = map (\<lambda>k. db_sample_seq db + 1 + int k) [0..<length rows])"
proof (cases err)
  case None
  let ?m = "case m of None \<Rightarrow> Map.empty | Some m \<Rightarrow> m"
  obtain rows db1 where ins: "store_sensors (te_names env) ?m (te_now_poll env) 0 db = (0 + int (length rows), db1)"
      "db_samples db1 = db_samples db @ rows"
      "map (\<lambda>r. (sr_Name r, sr_Sample r)) rows = stored_samples (te_now_poll env) ?m (te_names env)"
      "map sr_ID rows = map (\<lambda>k. db_sample_seq db + 1 + int k) [0..<length rows]"
    using store_sensors_sound [of db "te_names env" ?m "te_now_poll env" 0] assms(3) by (auto simp: sound_db_def)
  have "sound_db db1"
    using store_sensors_frame [OF ins(1)] assms(3) by (simp add: sound_db_def apart_from_samples_def)
  then obtain db2 where run: "RunVoltageAnalysis (te_now_analysis env) db_store db1 = (None, db2)"
    using db_reliable.run_succeeds by blast
  have "db_samples db2 = db_samples db1"
    using db_voltage.run_rows [OF run] by simp
  with doPoll_spec [OF assms(5,1)] assms(2,4) None ins run show ?thesis by auto
next
  case (Some e)
  with doPoll_spec [OF assms(5,1)] assms(2,4) show ?thesis by auto
qed

lemma doPoll_stores_witness:
  "\<exists>d' db'. doPoll (demo_env\<lparr>te_names := [''v'', ''label'', ''t'']\<rparr>)
       (NewDaemon (Some (other_inverter\<lparr>io_GetSensors := (\<lambda>ctx s. Ret ((Some
         [''v'' \<mapsto> \<lparr>sv_Value = VFloat (Fin 7), sv_Unit = ''V'', sv_Name = ''V''\<rparr>,
          ''t'' \<mapsto> \<lparr>sv_Value = VTime TimeZero, sv_Unit = '''', sv_Name = ''T''\<rparr>,
          ''label'' \<mapsto> \<lparr>sv_Value = VString ''on'', sv_Unit = '''', sv_Name = ''L''\<rparr>], None), s))\<rparr>, ()))
         (Some (volt_db [])) ''ip'' Second 0 0) = Ret d' \<and>
     dm_store d' = Some db' \<and> map sr_Name (db_samples db') = [''v'', ''label'']"
proof -
  let ?m = "[''v'' \<mapsto> \<lparr>sv_Value = VFloat (Fin 7), sv_Unit = ''V'', sv_Name = ''V''\<rparr>,
          ''t'' \<mapsto> \<lparr>sv_Value = VTime TimeZero, sv_Unit = '''', sv_Name = ''T''\<rparr>,
          ''label'' \<mapsto> \<lparr>sv_Value = VString ''on'', sv_Unit = '''', sv_Name = ''L''\<rparr>]"
  let ?I = "other_inverter\<lparr>io_GetSensors := (\<lambda>ctx s. Ret ((Some ?m, None), s))\<rparr>"
  let ?env = "demo_env\<lparr>te_names := [''v'', ''label'', ''t'']\<rparr>"
  let ?d = "NewDaemon (Some (?I, ())) (Some (volt_db [])) ''ip'' Second 0 0"
  have iface: "inverter_iface ?I (\<lambda>_. True)"
    by unfold_locales (simp_all add: other_inverter_def dead_inverter_def)
  have "inverter_iface.holds_good ?I (\<lambda>_. True) ?d"
    unfolding inverter_iface.holds_good_def [OF iface] by (simp add: NewDaemon_def)
  then obtain d' where d': "doPoll ?env ?d = Ret d'"
    using inverter_iface.poll_returns [OF iface] by blast
  obtain rows db' where "dm_store d' = Some db'" "db_samples db' = [] @ rows"
      "map (\<lambda>r. (sr_Name r, sr_Sample r)) rows = stored_samples 0 ?m [''v'', ''label'', ''t'']"
    using doPoll_stores [OF _ _ volt_db_sound(1) _ d', of ?I "()" "[]" "Some ?m" None "()"]
    by (auto simp: NewDaemon_def demo_env_def volt_db_def empty_db_def)
  moreover have "map fst (stored_samples 0 ?m [''v'', ''label'', ''t'']) = [''v'', ''label'']"
    by (simp add: stored_samples_def List.map_filter_simps sample_from_def)
  moreover have "map sr_Name rows = map fst (map (\<lambda>r. (sr_Name r, sr_Sample r)) rows)" by (simp add: comp_def)
  ultimately show ?thesis using d' by auto
qed

section \<open>Consistency of the database\<close>

lemma voltage_ok_cong:
  assumes "db_events db' = db_events db" "db_event_seq db' = db_event_seq db" "db_cursor db' = db_cursor db"
  shows "voltage_ok (db_view db') = voltage_ok (db_view db)"
  using assms by (simp add: voltage_ok_def unique_ids_def known_ids_def phase_ok_def [abs_def] intervals_def
      phase_events_def)

definition store_ok :: "'s daemon \<Rightarrow> bool" where
  "store_ok d \<longleftrightarrow> (\<forall>db. dm_store d = Some db \<longrightarrow> sound_db db \<and> voltage_ok (db_view db))"

lemma shrinks_ok: "shrinks db db' \<Longrightarrow> sound_db db \<and> voltage_ok (db_view db) \<Longrightarrow> sound_db db' \<and> voltage_ok (db_view db')"
  using voltage_ok_cong [of db' db] by (auto simp: shrinks_def sound_db_def)

lemma doPoll_ok:
  assumes "doPoll env d = Ret d'" "store_ok d"
  shows "store_ok d'"
proof -
  obtain I s where I: "dm_inverter d = Some (I, s)"
    using assms(1) by (auto simp: doPoll_def call_inverter_def split: option.splits)
  have poll: "sound_db db2 \<and> voltage_ok (db_view db2)"
    if "dm_store d = Some db" "store_sensors ns m now 0 db = (n, db1)" "RunVoltageAnalysis t db_store db1 = (e, db2)"
    for db ns m now n db1 t e db2
  proof -
    have db: "sound_db db" "voltage_ok (db_view db)" using that(1) assms(2) by (auto simp: store_ok_def)
    have f: "apart_from_samples db1 = apart_from_samples db" using store_sensors_frame [OF that(2)] by simp
    have 1: "sound_db db1" using db f by (simp add: sound_db_def apart_from_samples_def)
    have 2: "voltage_ok (db_view db1)" using db(2) voltage_ok_cong [of db1 db] f by (simp add: apart_from_samples_def)
    obtain db3 where "RunVoltageAnalysis t db_store db1 = (None, db3)" "sound_db db3"
      using db_reliable.run_succeeds [OF 1] by blast
    with that(3) have run: "RunVoltageAnalysis t db_store db1 = (None, db2)" "sound_db db2" by auto
    obtain c where "db_cursor db1 = Some c" using 1 by (auto simp: sound_db_def)
    with run_detect [OF conjunct1 [OF db_voltage.run_refines [OF run(1)]] 2, of c "''meter_voltage1''"] 2
    have "voltage_ok (db_view db2)" by (simp add: meter_sensors_def voltage_ok_def unique_ids_def)
    with run(2) show ?thesis by simp
  qed
  obtain m err s' where spec: "(case err of
       Some e \<Rightarrow> dm_connState d' = InverterStateDisconnected \<and> dm_connErr d' = Some e \<and> dm_store d' = dm_store d
     | None \<Rightarrow> dm_connState d' = dm_connState d \<and> dm_connErr d' = dm_connErr d \<and>
         dm_store d' = map_option (\<lambda>db. snd (RunVoltageAnalysis (te_now_analysis env) db_store
           (snd (store_sensors (te_names env) (case m of None \<Rightarrow> Map.empty | Some m \<Rightarrow> m) (te_now_poll env) 0 db))))
           (dm_store d))"
    using doPoll_spec [OF assms(1) I] by blast
  show ?thesis
  proof (cases err)
    case None
    show ?thesis unfolding store_ok_def
    proof (intro allI impI)
      fix db2
      assume db2: "dm_store d' = Some db2"
      with spec None obtain db where db: "dm_store d = Some db" "db2 = snd (RunVoltageAnalysis (te_now_analysis env) db_store
           (snd (store_sensors (te_names env) (case m of None \<Rightarrow> Map.empty | Some m \<Rightarrow> m) (te_now_poll env) 0 db)))"
        by (cases "dm_store d") auto
      show "sound_db db2 \<and> voltage_ok (db_view db2)"
        unfolding db(2) by (rule poll [OF db(1) prod.collapse [symmetric] prod.collapse [symmetric]])
    qed
  qed (use spec assms(2) in \<open>simp add: store_ok_def\<close>)
qed

lemma doConnect_ok:
  assumes "doConnect env d = Ret d'" "store_ok d" "dm_verificationErr d = None"
  shows "store_ok d'"
proof -
  obtain I s where I: "dm_inverter d = Some (I, s)"
    using assms(1) by (auto simp: doConnect_def call_inverter_def setState_def split: option.splits)
  have "store_shrinks d d'" using doConnect_spec [OF assms(1,3) I] by blast
  then show ?thesis
    using assms(2) shrinks_ok by (auto simp: store_ok_def store_shrinks_def split: option.splits)
qed

lemma step_ok:
  assumes "daemon_step x y" "daemon_inv x" "store_ok (fst x)"
  shows "store_ok (fst y)"
  using assms(1)
proof (cases rule: daemon_step.cases)
  case (fires d env d1 b w b1)
  have v: "dm_verificationErr d = None" if "dm_connState d = InverterStateDisconnected"
    using assms(2) fires that by (simp add: daemon_inv_def)
  have ok: "store_ok d" using assms(3) fires by simp
  from fires(4) have "store_ok d1"
    by (cases rule: on_timer_cases) (use ok v doConnect_ok doPoll_ok in blast)+
  then show ?thesis by (simp add: fires)
next
  case (aggregates d b env)
  then show ?thesis
    using assms(3) shrinks_ok [OF aggregate_shrinks] by (auto simp: store_ok_def)
qed

text \<open>
  Over a database without failing statements, everything the running daemon does keeps the voltage
  events consistent: unique ids, at most the last event of each phase open, and the cursor naming it.
\<close>

theorem daemon_keeps_voltage_ok:
  assumes "daemon_step\<^sup>*\<^sup>* (started env0 (NewDaemon (Some iv) (Some db0) ip poll agg days)) (d, b)"
    and "sound_db db0" "voltage_ok (db_view db0)" "dm_store d = Some db"
  shows "sound_db db \<and> voltage_ok (db_view db)"
proof -
  have "daemon_inv y \<and> store_ok (fst y)" if "daemon_step\<^sup>*\<^sup>* x y" "daemon_inv x" "store_ok (fst x)" for x y :: "'a daemon \<times> int"
    using that by (induction rule: rtranclp_induct) (auto intro: daemon_step_inv step_ok)
  moreover have "store_ok (fst (started env0 (NewDaemon (Some iv) (Some db0) ip poll agg days)))"
    using shrinks_ok [OF aggregate_shrinks] assms(2,3)
    by (simp add: store_ok_def started_def doStartupAggregation_def NewDaemon_def)
  ultimately have "store_ok d" using assms(1) started_inv by fastforce
  with assms(4) show ?thesis by (simp add: store_ok_def)
qed

lemma daemon_keeps_voltage_ok_witness:
  "\<exists>db. dm_store (fst (started demo_agg (NewDaemon (Some (dead_inverter, ())) (Some (volt_db [])) ''ip'' Second 0 0)))
     = Some db \<and> voltage_ok (db_view db)"
  using daemon_keeps_voltage_ok [of demo_agg "(dead_inverter, ())" "volt_db []" "''ip''" Second 0 0
      "fst (started demo_agg (NewDaemon (Some (dead_inverter, ())) (Some (volt_db [])) ''ip'' Second 0 0))"
      "snd (started demo_agg (NewDaemon (Some (dead_inverter, ())) (Some (volt_db [])) ''ip'' Second 0 0))"]
    volt_db_sound(1) volt_db_ok
  by (simp add: started_def doStartupAggregation_def NewDaemon_def)

end
