(* ===== verification/Retention.thy ===== *)
theory Retention
  imports Daemon_Correct
begin

text \<open>
  What the aggregation job of the daemon promises: it may delete samples, but not before their hour is
  summarised. The summary of a sample is the row of its sensor and hour, whose minimum and maximum
  enclose the sample's value.
\<close>

definition hour_of :: "sampleRow \<Rightarrow> gotime_ns" where
  "hour_of r = Truncate Hour (at_row r)"

definition encloses :: "aggregatedSample \<Rightarrow> f64 \<Rightarrow> bool" where
  "encloses a v =
     (case (ag_ValueMin a, ag_ValueMax a) of
        (Some lo, Some hi) \<Rightarrow> \<not> f_less v lo \<and> \<not> f_less hi v
      | _ \<Rightarrow> False)"

definition summary_of :: "aggregatedSample list \<Rightarrow> sampleRow \<Rightarrow> bool" where
  "summary_of tbl r =
     (case (row_of tbl (sr_Name r) (hour_of r), sm_Value (sr_Sample r)) of
        (Some a, Some v) \<Rightarrow> encloses a v
      | _ \<Rightarrow> False)"

text \<open>Every sample from some hour up to the last summarised hour is summarised.\<close>

definition has_value :: "sampleRow \<Rightarrow> bool" where
  "has_value r \<longleftrightarrow> sm_Value (sr_Sample r) \<noteq> None"

definition summarised :: "gotime_ns \<Rightarrow> db \<Rightarrow> bool" where
  "summarised lo db \<longleftrightarrow> (\<forall>r \<in> set (db_samples db).
     has_value r \<and> lo \<le> hour_of r \<and> hour_of r \<le> max_bucket (db_hourly db) \<longrightarrow> summary_of (db_hourly db) r)"

section \<open>Minimum and maximum\<close>

lemma f_less_trans: "f_less a b \<Longrightarrow> f_less b c \<Longrightarrow> f_less a c"
  by (cases a; cases b; cases c) (auto simp: f_less_def)

lemma f_less_irrefl [simp]: "\<not> f_less a a"
  by (cases a) (auto simp: f_less_def)

text \<open>A fold that keeps the smaller value ends in one below which no value lies, whatever the order.\<close>

lemma fold_extreme:
  assumes "\<And>a b c. L a b \<Longrightarrow> L b c \<Longrightarrow> L a c" "\<And>a. \<not> L a a"
  shows "let m = foldl (\<lambda>a v. if L v a then v else a) x vs in
    (m = x \<or> L m x) \<and> (\<forall>v \<in> set (x # vs). \<not> L v m)"
proof (induction vs arbitrary: x)
  case (Cons v vs)
  let ?m = "foldl (\<lambda>a v. if L v a then v else a) (if L v x then v else x) vs"
  have m: "?m = (if L v x then v else x) \<or> L ?m (if L v x then v else x)"
    "\<forall>u \<in> set ((if L v x then v else x) # vs). \<not> L u ?m"
    using Cons.IH [of "if L v x then v else x", unfolded Let_def] by (fact conjunct1, fact conjunct2)
  have "(?m = x \<or> L ?m x) \<and> \<not> L x ?m \<and> \<not> L v ?m"
  proof (cases "L v x")
    case True
    then have "?m = v \<or> L ?m v" "\<not> L v ?m" using m by auto
    with True show ?thesis
      using assms(1) [of ?m v x] assms(1) [of x ?m x] assms(2) by auto
  next
    case False
    then have "?m = x \<or> L ?m x" "\<not> L x ?m" using m by auto
    with False show ?thesis using assms(1) [of v ?m x] by auto
  qed
  with m(2) show ?case by (simp add: Let_def)
qed (simp add: assms(2))

lemma sql_extremes:
  assumes "v \<in> set vs"
  obtains lo hi where "sql_min vs = Some lo" "sql_max vs = Some hi" "\<not> f_less v lo" "\<not> f_less hi v"
proof -
  obtain x xs where vs: "vs = x # xs" using assms by (cases vs) auto
  from fold_extreme [of f_less x xs, OF f_less_trans f_less_irrefl]
    fold_extreme [of "\<lambda>a b. f_less b a" x xs, OF f_less_trans f_less_irrefl]
  show thesis using assms that by (auto simp: vs sql_min_def sql_max_def Let_def)
qed

section \<open>One run of the hourly aggregation\<close>

lemma hour_of_bucket: "hour_of r \<le> at_row r" "at_row r < hour_of r + Hour" "hour_of r mod Hour = 0"
  by (simp_all add: hour_of_def Truncate_def hour_pos)

lemma value_in_bucket:
  assumes "r \<in> set (db_samples db)" "sm_Value (sr_Sample r) = Some v"
  shows "v \<in> set (bucket_values db (sr_Name r) (hour_of r) (hour_of r + Hour))"
  using assms hour_of_bucket [of r]
  by (force simp: bucket_values_def List.map_filter_def image_iff)

lemma hourly_row_summary:
  assumes "r \<in> set (db_samples db)" "has_value r"
    and "row_of tbl (sr_Name r) (hour_of r) = Some (hourly_row db (hour_of r) (sr_Name r))"
  shows "summary_of tbl r"
proof -
  obtain v where v: "sm_Value (sr_Sample r) = Some v" using assms(2) by (auto simp: has_value_def)
  obtain lo hi where "sql_min (bucket_values db (sr_Name r) (hour_of r) (hour_of r + Hour)) = Some lo"
    "sql_max (bucket_values db (sr_Name r) (hour_of r) (hour_of r + Hour)) = Some hi"
    "\<not> f_less v lo" "\<not> f_less hi v"
    by (rule sql_extremes [OF value_in_bucket [OF assms(1) v]])
  then show ?thesis
    by (simp add: assms(3) v summary_of_def encloses_def hourly_row_def Let_def)
qed

text \<open>The first bucket of a run is the one after the last summarised hour.\<close>

lemma after_cursor:
  assumes "t mod Hour = 0" "Hour \<le> t" "m < t"
  shows "first_bucket Hour m zero_time \<le> t"
proof -
  have t: "Truncate Hour t = t" using assms(1) by (simp add: Truncate_def)
  have "(if m + Hour < zero_time then zero_time else m + Hour) < t + Hour"
    using assms(2,3) hour_pos by (auto simp: zero_time_def)
  moreover have "Truncate Hour x \<le> t" if "x < t + Hour" for x
  proof (rule ccontr)
    assume "\<not> Truncate Hour x \<le> t"
    then have "0 < Truncate Hour x - t" by simp
    moreover have "(Truncate Hour x - t) mod Hour = 0" using assms(1) by (simp add: aligned)
    ultimately have "Hour \<le> Truncate Hour x - t" by (simp add: zdvd_imp_le mod_0_imp_dvd)
    with that Truncate_le [OF hour_pos, of x] show False by simp
  qed
  ultimately show ?thesis by (simp add: first_bucket_def Let_def)
qed

lemma hourly_summarises:
  assumes run: "AggregateHourly zero_time until ctx db = ((n, e), db1)"
    and sum: "summarised lo db" and lo: "Hour \<le> lo"
  shows "summarised lo db1"
    and "\<lbrakk>e = None; r \<in> set (db_samples db); has_value r; lo \<le> hour_of r; hour_of r < Truncate Hour until\<rbrakk>
      \<Longrightarrow> summary_of (db_hourly db1) r"
    and "max_bucket (db_hourly db1) \<le> max (max_bucket (db_hourly db)) (Truncate Hour until - 1) \<or> db_hourly db1 = []"
proof -
  let ?m = "max_bucket (db_hourly db)"
  obtain stop where stop: "stop \<le> Truncate Hour until" "e = None \<longrightarrow> stop = Truncate Hour until"
    and rows: "\<And>name t. row_of (db_hourly db1) name t =
      (if in_buckets Hour (first_bucket Hour ?m zero_time) stop t \<and> bucket_values db name t (t + Hour) \<noteq> []
       then Some (hourly_row db t name) else row_of (db_hourly db) name t)"
    and same: "db_samples db1 = db_samples db"
    using hourly.agg_rows_upto [OF run] by blast
  have key: "summary_of (db_hourly db1) r"
    if r: "r \<in> set (db_samples db)" "has_value r" "lo \<le> hour_of r" "hour_of r \<le> ?m \<or> hour_of r < stop" for r
  proof (cases "in_buckets Hour (first_bucket Hour ?m zero_time) stop (hour_of r)")
    case True
    obtain v where "sm_Value (sr_Sample r) = Some v" using r(2) by (auto simp: has_value_def)
    from value_in_bucket [OF r(1) this] True
    have "row_of (db_hourly db1) (sr_Name r) (hour_of r) = Some (hourly_row db (hour_of r) (sr_Name r))"
      by (auto simp: rows)
    from hourly_row_summary [OF r(1,2) this] show ?thesis .
  next
    case False
    have "hour_of r \<le> ?m"
    proof (rule ccontr)
      assume "\<not> hour_of r \<le> ?m"
      with after_cursor [of "hour_of r" ?m] r(3,4) lo False hour_of_bucket(3) [of r] show False
        by (auto simp: in_buckets_def aligned)
    qed
    with sum r have "summary_of (db_hourly db) r" by (auto simp: summarised_def)
    with False show ?thesis by (simp add: summary_of_def rows)
  qed
  have last: "t \<le> ?m \<or> t < stop" if t: "t = max_bucket (db_hourly db1)" "db_hourly db1 \<noteq> []" for t
  proof -
    obtain a where "a \<in> set (db_hourly db1)" "ag_BucketStart a = t"
      using hourly.max_bucket_row [OF t(2)] t(1) by blast
    then have "row_of (db_hourly db1) (ag_SensorName a) t \<noteq> None" using hourly.row_of_bucket(2) by blast
    then have "in_buckets Hour (first_bucket Hour ?m zero_time) stop t \<or> row_of (db_hourly db) (ag_SensorName a) t \<noteq> None"
      by (auto simp: rows split: if_splits)
    then show ?thesis
    proof
      assume "row_of (db_hourly db) (ag_SensorName a) t \<noteq> None"
      then obtain b where b: "b \<in> set (db_hourly db)" "ag_BucketStart b = t" using hourly.row_of_bucket(1) by blast
      then have "t \<le> ?m" by (auto simp: max_bucket_def)
      then show ?thesis ..
    qed (simp add: in_buckets_def)
  qed
  show "summarised lo db1"
    unfolding summarised_def same
  proof (intro ballI impI)
    fix r assume r: "r \<in> set (db_samples db)"
      "has_value r \<and> lo \<le> hour_of r \<and> hour_of r \<le> max_bucket (db_hourly db1)"
    then have "db_hourly db1 \<noteq> []" using lo hour_pos by (auto simp: max_bucket_def)
    with last r(2) have "hour_of r \<le> ?m \<or> hour_of r < stop" by force
    with key r show "summary_of (db_hourly db1) r" by simp
  qed
  show "summary_of (db_hourly db1) r"
    if "e = None" "r \<in> set (db_samples db)" "has_value r" "lo \<le> hour_of r" "hour_of r < Truncate Hour until"
    using key [of r] that stop(2) by simp
  show "max_bucket (db_hourly db1) \<le> max ?m (Truncate Hour until - 1) \<or> db_hourly db1 = []"
    using last stop(1) by force
qed

section \<open>One job\<close>

lemma row_of_filtered: "lo \<le> t \<Longrightarrow> row_of (filter (\<lambda>a. lo \<le> ag_BucketStart a) tbl) n t = row_of tbl n t"
  unfolding row_of_def by (rule find_filter_other) (auto simp: ag_key_def)

lemma summary_of_cong:
  "filter (\<lambda>a. lo \<le> ag_BucketStart a) tbl' = filter (\<lambda>a. lo \<le> ag_BucketStart a) tbl \<Longrightarrow> lo \<le> hour_of r \<Longrightarrow>
   summary_of tbl' r = summary_of tbl r"
  using row_of_filtered [of lo "hour_of r" tbl] row_of_filtered [of lo "hour_of r" tbl'] by (simp add: summary_of_def)

text \<open>The steps of a job after the hourly aggregation.\<close>

lemma aggregate_db_after:
  assumes "AggregateHourly zero_time (ae_now env) (ae_ctx_hourly env) db = ((n, e), db1)"
  obtains (same) "db_hourly (aggregate_db days env db) = db_hourly db1"
      "db_samples (aggregate_db days env db) = db_samples db"
    | (pruned) "e = None" "0 < days"
      "filter (\<lambda>a. days_before (ae_now env) 365 \<le> ag_BucketStart a) (db_hourly (aggregate_db days env db)) =
         filter (\<lambda>a. days_before (ae_now env) 365 \<le> ag_BucketStart a) (db_hourly db1)"
      "filter (\<lambda>r. days_before (ae_now env) days \<le> at_row r) (db_samples (aggregate_db days env db)) =
         filter (\<lambda>r. days_before (ae_now env) days \<le> at_row r) (db_samples db)"
      "set (db_samples (aggregate_db days env db)) \<subseteq> set (db_samples db)"
proof -
  obtain n2 e2 db2 where 2: "AggregateDaily zero_time (ae_now env) (ae_ctx_daily env) db1 = ((n2, e2), db2)"
    by (metis prod.exhaust)
  obtain n3 e3 db3 where 3: "PruneSamples (days_before (ae_now env) days) 1000 (ae_ctx_prune env) db2 = ((n3, e3), db3)"
    by (metis prod.exhaust)
  obtain r4 db4 where 4: "PruneHourly (days_before (ae_now env) 365) 1000 (ae_ctx_prune_hourly env) db3 = (r4, db4)"
    by (metis prod.exhaust)
  note frames = hourly_frame [OF assms] daily_frame [OF 2] prune_frame [OF 3] prune_hourly_frame [OF 4]
  show thesis
  proof (cases "e = None \<and> e2 = None \<and> 0 < days")
    case False
    then show thesis
      using same frames assms 2 by (cases e; cases e2) (auto simp: aggregate_db_def)
  next
    case True
    then have "aggregate_db days env db = db4" using assms 2 3 4 by (simp add: aggregate_db_def)
    moreover note PruneSamples_spec [OF 3] prune_samples_sub [OF 3]
    ultimately show thesis using pruned True frames by (simp add: not_less)
  qed
qed

text \<open>
  A job keeps the summaries, closes only hours that have passed, and deletes no sample with a value
  from the last 365 days whose hour it has not summarised.
\<close>

lemma job_summarises:
  assumes sum: "summarised lo db" "Hour \<le> lo"
    and db': "db' = aggregate_db days env db"
  shows "summarised (max lo (days_before (ae_now env) 365)) db'"
    and "\<lbrakk>r \<in> set (db_samples db); r \<notin> set (db_samples db'); has_value r; lo \<le> hour_of r;
          days_before (ae_now env) 365 \<le> hour_of r\<rbrakk> \<Longrightarrow> summary_of (db_hourly db') r"
    and "max_bucket (db_hourly db) < Truncate Hour (ae_now env) \<Longrightarrow> Hour \<le> ae_now env \<Longrightarrow>
         max_bucket (db_hourly db') < Truncate Hour (ae_now env)"
proof -
  let ?cut = "days_before (ae_now env) 365"
  obtain n e db1 where 1: "AggregateHourly zero_time (ae_now env) (ae_ctx_hourly env) db = ((n, e), db1)"
    by (metis prod.exhaust)
  note hourly = hourly_summarises [OF 1 sum]
  have samples: "db_samples db1 = db_samples db" using hourly_frame [OF 1] by simp
  have sub: "set (db_samples db') \<subseteq> set (db_samples db)" unfolding db' using aggregate_db_frame by blast
  have rows: "filter (\<lambda>a. ?cut \<le> ag_BucketStart a) (db_hourly db') = filter (\<lambda>a. ?cut \<le> ag_BucketStart a) (db_hourly db1)"
    unfolding db' by (rule aggregate_db_after [OF 1, of days]) auto
  have last: "max_bucket (db_hourly db') \<le> max_bucket (db_hourly db1) \<or> max_bucket (db_hourly db') < ?cut \<or> db_hourly db' = []"
  proof (cases "db_hourly db' = []")
    case False
    then obtain a where a: "a \<in> set (db_hourly db')" "ag_BucketStart a = max_bucket (db_hourly db')"
      using hourly.max_bucket_row by blast
    show ?thesis
    proof (cases "?cut \<le> ag_BucketStart a")
      case True
      with a(1) have "a \<in> set (filter (\<lambda>a. ?cut \<le> ag_BucketStart a) (db_hourly db1))"
        unfolding rows [symmetric] by simp
      then have "a \<in> set (db_hourly db1)" by simp
      then have "ag_BucketStart a \<le> max_bucket (db_hourly db1)" by (auto simp: max_bucket_def)
      then show ?thesis using a(2) by simp
    qed (simp add: a(2))
  qed simp
  show "summarised (max lo ?cut) db'"
    unfolding summarised_def
  proof (intro ballI impI)
    fix r assume r: "r \<in> set (db_samples db')"
      "has_value r \<and> max lo ?cut \<le> hour_of r \<and> hour_of r \<le> max_bucket (db_hourly db')"
    then have "max_bucket (db_hourly db') \<noteq> 0" using sum(2) hour_pos by auto
    then have "hour_of r \<le> max_bucket (db_hourly db1)" using last r(2) by (auto simp: max_bucket_def)
    then have "summary_of (db_hourly db1) r"
      using hourly(1) r sub by (auto simp: summarised_def samples)
    then show "summary_of (db_hourly db') r" using summary_of_cong [OF rows] r(2) by simp
  qed
  show "summary_of (db_hourly db') r"
    if r: "r \<in> set (db_samples db)" "r \<notin> set (db_samples db')" "has_value r" "lo \<le> hour_of r" "?cut \<le> hour_of r"
  proof (rule aggregate_db_after [OF 1, of days])
    assume "db_samples (aggregate_db days env db) = db_samples db"
    with r(1,2) show ?thesis by (simp add: db')
  next
    assume p: "e = None" "0 < days"
      "filter (\<lambda>r. days_before (ae_now env) days \<le> at_row r) (db_samples (aggregate_db days env db)) =
         filter (\<lambda>r. days_before (ae_now env) days \<le> at_row r) (db_samples db)"
    have "at_row r < days_before (ae_now env) days"
    proof (rule ccontr)
      assume "\<not> at_row r < days_before (ae_now env) days"
      with r(1) have "r \<in> set (filter (\<lambda>r. days_before (ae_now env) days \<le> at_row r) (db_samples db))" by simp
      with r(2) show False unfolding p(3) [symmetric] db' by simp
    qed
    moreover have "1 * Day \<le> days * Day" using p(2) day_pos by (intro mult_right_mono) simp_all
    moreover have "Hour < Day" by (simp add: Day_def hour_pos)
    ultimately have "hour_of r < ae_now env - Hour"
      using hour_of_bucket(1) [of r] unfolding days_before_def by linarith
    then have "hour_of r < Truncate Hour (ae_now env)"
      using pos_mod_bound [OF hour_pos, of "ae_now env"] by (simp add: Truncate_def)
    from hourly(2) [OF p(1) r(1,3,4) this] show ?thesis using summary_of_cong [OF rows] r(5) by simp
  qed
  show "max_bucket (db_hourly db') < Truncate Hour (ae_now env)"
    if "max_bucket (db_hourly db) < Truncate Hour (ae_now env)" "Hour \<le> ae_now env"
  proof -
    have pos: "Hour \<le> Truncate Hour (ae_now env)"
      using Truncate_mono [OF hour_pos that(2)] by (simp add: Truncate_def)
    have "?cut < Truncate Hour (ae_now env)"
      using pos_mod_bound [OF hour_pos, of "ae_now env"] hour_pos unfolding Truncate_def days_before_def Day_def by linarith
    then show ?thesis
      using last hourly(3) that pos hour_pos by (auto simp: max_bucket_def [of "[]"])
  qed
qed

section \<open>What the voltage analysis leaves alone\<close>

text \<open>A part of the store that none of its seven operations changes is not changed by a run.\<close>

locale untouched =
  fixes S :: "'s voltageStore" and part :: "'s \<Rightarrow> 'p"
  assumes kept: "vs_GetVoltageAnalysisCursor S s = (r0, s') \<Longrightarrow> part s' = part s"
    "vs_SaveVoltageAnalysisCursor S c s = (r1, s') \<Longrightarrow> part s' = part s"
    "vs_InsertVoltageEvent S p i t lo hi avg s = (r2, s') \<Longrightarrow> part s' = part s"
    "vs_CloseVoltageEvent S eid i t n s = (r3, s') \<Longrightarrow> part s' = part s"
    "vs_UpdateVoltageEvent S eid lo hi avg s = (r4, s') \<Longrightarrow> part s' = part s"
    "vs_GetVoltageEvent S eid s = (r5, s') \<Longrightarrow> part s' = part s"
    "vs_GetNewVoltageSampleRows S p n s = (r6, s') \<Longrightarrow> part s' = part s"
begin

lemma step_kept:
  "out_step S p t v st s = (r, s') \<Longrightarrow> part s' = part s"
  "in_step S t st s = (r', s') \<Longrightarrow> part s' = part s"
  by (auto simp: out_step_def in_step_def Let_def split: option.splits prod.splits sum.splits dest!: kept)

lemma loop_kept: "phase_loop S p rs st m s = (r, s') \<Longrightarrow> part s' = part s"
proof (induction rs arbitrary: st m s)
  case (Cons r0 rs)
  then show ?case
    by (auto simp: Let_def split: option.splits prod.splits sum.splits if_splits dest!: step_kept)
qed simp

lemma phase_kept: "analyse_phase S since p og m s = (r, s') \<Longrightarrow> part s' = part s"
  by (auto simp: analyse_phase_def resume_phase_def split: option.splits prod.splits sum.splits
      dest!: kept loop_kept)

lemma phases_kept: "analyse_phases S since ps m s = (r, s') \<Longrightarrow> part s' = part s"
proof (induction ps arbitrary: m s r)
  case (Cons q ps)
  then show ?case
    by (cases q) (auto split: prod.splits sum.splits dest!: phase_kept)
qed simp

lemma run_kept: "RunVoltageAnalysis now S s = (r, s') \<Longrightarrow> part s' = part s"
  by (auto simp: RunVoltageAnalysis_def split: prod.splits sum.splits dest!: kept phases_kept)

end

interpretation analysis_frame: untouched db_store "\<lambda>d. (db_samples d, db_hourly d)"
  by unfold_locales
    (auto simp: db_store_def GetVoltageAnalysisCursor_def SaveVoltageAnalysisCursor_def InsertVoltageEvent_def
      CloseVoltageEvent_def UpdateVoltageEvent_def GetVoltageEvent_def GetNewVoltageSampleRows_def
      update_event_def query_def stmt_def failing_def Let_def split: option.splits sum.splits prod.splits)

section \<open>What connecting and polling do to samples and summaries\<close>

text \<open>The summaries stay, and every sample that is new has the given time.\<close>

definition arrivals :: "gotime_ns \<Rightarrow> db \<Rightarrow> db \<Rightarrow> bool" where
  "arrivals now db db' \<longleftrightarrow> db_hourly db' = db_hourly db \<and>
     (\<forall>r \<in> set (db_samples db'). r \<in> set (db_samples db) \<or> at_row r = now)"

lemma arrivals_refl [simp]: "arrivals now db db"
  by (simp add: arrivals_def)

lemma arrivals_trans [trans]: "arrivals now a b \<Longrightarrow> arrivals now b c \<Longrightarrow> arrivals now a c"
  by (auto simp: arrivals_def)

definition store_arrivals :: "gotime_ns \<Rightarrow> 's daemon \<Rightarrow> 's daemon \<Rightarrow> bool" where
  "store_arrivals now d d' \<longleftrightarrow> dm_retentionDays d' = dm_retentionDays d \<and>
     (\<forall>db'. dm_store d' = Some db' \<longrightarrow> (\<exists>db. dm_store d = Some db \<and> arrivals now db db'))"

lemma arrivals_ops:
  "GetInverterIdentity db = (r1, db1) \<Longrightarrow> arrivals now db db1"
  "store_identity t i db = (r2, db2) \<Longrightarrow> arrivals now db db2"
  "PurgeBadSamples rated db = (r3, db3) \<Longrightarrow> arrivals now db db3"
  "InsertSample name unit now v txt db = (r4, db4) \<Longrightarrow> arrivals now db db4"
  "RunVoltageAnalysis t db_store db = (r5, db5) \<Longrightarrow> arrivals now db db5"
proof -
  show "GetInverterIdentity db = (r1, db1) \<Longrightarrow> arrivals now db db1"
    using identity_frame [of db r1 db1] by (simp add: arrivals_def)
  show "store_identity t i db = (r2, db2) \<Longrightarrow> arrivals now db db2"
    unfolding store_identity_def using set_identity_frame by (simp add: arrivals_def)
  show "PurgeBadSamples rated db = (r3, db3) \<Longrightarrow> arrivals now db db3"
    using purge_frame(2,3) [of rated db r3 db3] by (auto simp: arrivals_def)
  show "InsertSample name unit now v txt db = (r4, db4) \<Longrightarrow> arrivals now db db4"
    by (cases r4) (auto simp: InsertSample_def statement_simps arrivals_def Let_def at_row_def)
  show "RunVoltageAnalysis t db_store db = (r5, db5) \<Longrightarrow> arrivals now db db5"
    using analysis_frame.run_kept by (simp add: arrivals_def)
qed

lemma store_sensors_arrivals: "store_sensors names m now k db = (n, db') \<Longrightarrow> arrivals now db db'"
proof (induction names arbitrary: k db)
  case (Cons name names)
  show ?case
    using Cons.prems
    by (auto split: option.splits sval.splits prod.splits sum.splits
        dest!: arrivals_ops(4) Cons.IH intro: arrivals_trans)
qed simp

lemma verify_arrivals: "verifyIdentity env d = Ret (e, d') \<Longrightarrow> store_arrivals now d d'"
proof -
  have "store_arrivals now d (snd (check_identity t i db d))" if "dm_store d = Some db" for t i db and d :: "'a daemon"
  proof -
    obtain r1 db1 where 1: "GetInverterIdentity db = (r1, db1)" by force
    obtain r2 db2 where 2: "store_identity t i db1 = (r2, db2)" by force
    obtain r3 db3 where 3: "PurgeBadSamples (in_RatedPower i) db2 = (r3, db3)" by force
    have a: "arrivals now db db1" "arrivals now db1 db2" "arrivals now db2 db3"
      using arrivals_ops(1) [OF 1] arrivals_ops(2) [OF 2] arrivals_ops(3) [OF 3] by blast+
    then have "arrivals now db db2" "arrivals now db db3" by (blast intro: arrivals_trans)+
    with a(1) that 1 2 3 show ?thesis
      by (cases r1; cases r2) (auto simp: check_identity_def store_arrivals_def Let_def split: option.splits)
  qed
  note check = this
  assume "verifyIdentity env d = Ret (e, d')"
  then obtain r d1 where call: "call_inverter io_GetInfo d = Ret (r, d1)"
    and rest: "(case r of Inl err \<Rightarrow> Ret (Some (wrap ''get inverter info'' err), d1)
      | Inr i \<Rightarrow> (case dm_store d1 of None \<Rightarrow> Ret (None, d1)
         | Some db \<Rightarrow> Ret (check_identity (te_now_identity env) i db d1))) = Ret (e, d')"
    by (auto simp: verifyIdentity_def obind_Ret_iff)
  have d1: "dm_store d1 = dm_store d" "dm_retentionDays d1 = dm_retentionDays d"
    using call by (auto simp: call_inverter_Ret)
  show "store_arrivals now d d'"
  proof (cases "\<exists>i db. r = Inr i \<and> dm_store d1 = Some db")
    case True
    then obtain i db where i: "r = Inr i" "dm_store d1 = Some db" by blast
    with rest have "d' = snd (check_identity (te_now_identity env) i db d1)" by (auto dest: arg_cong [where f = snd])
    with check [OF i(2), of "te_now_identity env" i] d1 show ?thesis by (simp add: store_arrivals_def)
  next
    case False
    with rest have "d' = d1" by (cases r; cases "dm_store d1") auto
    with d1 show ?thesis by (simp add: store_arrivals_def)
  qed
qed

lemma closing_keeps:
  "closeConnection d = Ret d' \<Longrightarrow> dm_store d' = dm_store d \<and> dm_retentionDays d' = dm_retentionDays d"
  by (auto simp: closeConnection_def obind_Ret_iff call_inverter_Ret)

lemma connect_arrivals:
  assumes "doConnect env d = Ret d'"
  shows "store_arrivals now d d'"
proof -
  obtain e1 d1 where 1: "call_inverter io_Connect (setState InverterStateConnecting None d) = Ret (e1, d1)"
    using assms by (auto simp: doConnect_def obind_Ret_iff)
  have d1: "dm_store d1 = dm_store d" "dm_retentionDays d1 = dm_retentionDays d"
    using 1 by (auto simp: call_inverter_Ret setState_def)
  show ?thesis
  proof (cases e1)
    case (Some e)
    with assms 1 d1 show ?thesis by (auto simp: doConnect_def store_arrivals_def setState_def)
  next
    case None
    then obtain e2 d2 where 2: "verifyIdentity env d1 = Ret (e2, d2)"
      using assms 1 by (auto simp: doConnect_def obind_Ret_iff)
    have "dm_store d' = dm_store d2 \<and> dm_retentionDays d' = dm_retentionDays d2"
      using assms 1 2 None
      by (auto simp: doConnect_def obind_Ret_iff setState_def split: option.splits dest!: closing_keeps)
    with verify_arrivals [OF 2, of now] d1 show ?thesis by (simp add: store_arrivals_def)
  qed
qed

lemma poll_arrivals:
  assumes "doPoll env d = Ret d'"
  shows "store_arrivals (te_now_poll env) d d'"
proof -
  obtain m err d1 where 1: "call_inverter (\<lambda>I. io_GetSensors I (te_ctx env)) d = Ret ((m, err), d1)"
    using assms by (auto simp: doPoll_def obind_Ret_iff)
  have d1: "dm_store d1 = dm_store d" "dm_retentionDays d1 = dm_retentionDays d"
    using 1 by (auto simp: call_inverter_Ret)
  have step: "arrivals (te_now_poll env) db (snd (RunVoltageAnalysis t db_store (snd (store_sensors ns sm (te_now_poll env) k db))))"
    for db t ns sm k
    using store_sensors_arrivals arrivals_ops(5) arrivals_trans by (metis prod.collapse)
  show ?thesis
  proof (cases err)
    case (Some e)
    with assms 1 d1 show ?thesis
      by (auto simp: doPoll_def obind_Ret_iff store_arrivals_def setState_def dest!: closing_keeps)
  next
    case None
    with assms 1 d1 show ?thesis
      using step by (auto simp: doPoll_def store_arrivals_def Let_def split: option.splits prod.splits)
        (metis snd_conv)+
  qed
qed

lemma arrivals_chain: "store_arrivals now d d1 \<Longrightarrow> store_arrivals now d1 d2 \<Longrightarrow> store_arrivals now d d2"
  unfolding store_arrivals_def by (metis arrivals_trans)

lemma timer_arrivals:
  assumes "on_timer env d = Ret d'"
  shows "store_arrivals (te_now_poll env) d d'"
  using assms
proof (cases rule: on_timer_cases)
  case (connect_poll d1)
  from connect_arrivals [OF connect_poll(2)] poll_arrivals [OF connect_poll(4)] show ?thesis
    by (rule arrivals_chain)
next
  case idle
  then show ?thesis by (simp add: store_arrivals_def)
qed (simp_all add: connect_arrivals poll_arrivals)

section \<open>The running daemon\<close>

text \<open>
  The steps of the running daemon with the clock they read, which never goes back: a timer that
  fires, or the aggregation job.
\<close>

inductive clocked_step :: "gotime_ns \<times> 's daemon \<Rightarrow> gotime_ns \<times> 's daemon \<Rightarrow> bool" where
  fires: "dm_connState d \<noteq> InverterStateFailed \<Longrightarrow> on_timer env d = Ret d1 \<Longrightarrow> t \<le> te_now_poll env \<Longrightarrow>
    clocked_step (t, d) (te_now_poll env, d1)"
| aggregates: "t \<le> ae_now env \<Longrightarrow> clocked_step (t, d) (ae_now env, doAggregate env d)"

inductive_cases clocked_stepE: "clocked_step x y"

text \<open>All samples of the last 365 days in summarised hours have their summary, and no such hour is to come.\<close>

definition retained :: "gotime_ns \<times> 's daemon \<Rightarrow> bool" where
  "retained x \<longleftrightarrow> Hour \<le> fst x \<and> (\<forall>db. dm_store (snd x) = Some db \<longrightarrow>
     summarised (max Hour (days_before (fst x) 365)) db \<and> max_bucket (db_hourly db) < Truncate Hour (fst x))"

lemma summarised_mono: "summarised lo db \<Longrightarrow> lo \<le> lo' \<Longrightarrow> summarised lo' db"
  by (auto simp: summarised_def)

lemma summarised_arrivals:
  assumes "summarised lo db" "arrivals now db db'" "max_bucket (db_hourly db) < Truncate Hour now"
  shows "summarised lo db'"
  using assms by (auto simp: summarised_def arrivals_def hour_of_def)

lemma clocked_retained:
  assumes "clocked_step x y" "retained x"
  shows "retained y"
  using assms(1)
proof (cases rule: clocked_step.cases)
  case (fires d env d1 t)
  have later: "Truncate Hour t \<le> Truncate Hour (te_now_poll env)" "days_before t 365 \<le> days_before (te_now_poll env) 365"
    using Truncate_mono [OF hour_pos fires(5)] fires(5) by (simp_all add: days_before_def)
  show ?thesis
    unfolding retained_def
  proof (intro conjI allI impI)
    show "Hour \<le> fst y" using assms(2) fires by (simp add: retained_def)
    fix db' assume "dm_store (snd y) = Some db'"
    with timer_arrivals [OF fires(4)] fires(2) obtain db where db: "dm_store d = Some db" "arrivals (te_now_poll env) db db'"
      by (auto simp: store_arrivals_def)
    with assms(2) fires(1) have ok: "summarised (max Hour (days_before t 365)) db" "max_bucket (db_hourly db) < Truncate Hour t"
      by (auto simp: retained_def)
    from ok(2) later(1) have closed: "max_bucket (db_hourly db) < Truncate Hour (te_now_poll env)" by simp
    show "max_bucket (db_hourly db') < Truncate Hour (fst y)" using closed db(2) fires(2) by (simp add: arrivals_def)
    have "summarised (max Hour (days_before t 365)) db'" by (rule summarised_arrivals [OF ok(1) db(2) closed])
    then show "summarised (max Hour (days_before (fst y) 365)) db'"
      using later(2) fires(2) by (auto elim: summarised_mono)
  qed
next
  case (aggregates t env d)
  have later: "Truncate Hour t \<le> Truncate Hour (ae_now env)" "days_before t 365 \<le> days_before (ae_now env) 365"
    using Truncate_mono [OF hour_pos aggregates(3)] aggregates(3) by (simp_all add: days_before_def)
  show ?thesis
    unfolding retained_def
  proof (intro conjI allI impI)
    show now: "Hour \<le> fst y" using assms(2) aggregates by (simp add: retained_def)
    fix db' assume "dm_store (snd y) = Some db'"
    then obtain db where db: "dm_store d = Some db" "db' = aggregate_db (dm_retentionDays d) env db"
      using aggregates(2) by (auto simp: doAggregate_def)
    with assms(2) aggregates(1) have ok: "summarised (max Hour (days_before t 365)) db" "max_bucket (db_hourly db) < Truncate Hour t"
      by (auto simp: retained_def)
    note job = job_summarises [OF ok(1) _ db(2)]
    show "max_bucket (db_hourly db') < Truncate Hour (fst y)"
      using job(3) ok(2) later(1) now aggregates(2) by simp
    have "max (max Hour (days_before t 365)) (days_before (ae_now env) 365) = max Hour (days_before (ae_now env) 365)"
      using later(2) by simp
    with job(1) show "summarised (max Hour (days_before (fst y) 365)) db'" using aggregates(2) by simp
  qed
qed

lemma clocked_reach: "clocked_step\<^sup>*\<^sup>* x y \<Longrightarrow> retained x \<Longrightarrow> retained y \<and> fst x \<le> fst y"
  by (induction rule: rtranclp_induct) (auto intro: clocked_retained elim: clocked_stepE)


section \<open>Jobs that nothing disturbs\<close>

definition no_faults :: "db \<Rightarrow> bool" where
  "no_faults db \<longleftrightarrow> (\<forall>n. db_faults db n = None)"

lemma no_faults_frame: "apart_from_samples db' = apart_from_samples db \<Longrightarrow> no_faults db' = no_faults db"
  by (simp add: no_faults_def apart_from_samples_def)

lemma stmt_sound: "no_faults db \<Longrightarrow> stmt f db = (Inr (fst (f (db\<lparr>db_stmts := Suc (db_stmts db)\<rparr>))), snd (f (db\<lparr>db_stmts := Suc (db_stmts db)\<rparr>)))"
  by (simp add: stmt_def no_faults_def split: prod.splits)

lemma query_sound: "no_faults db \<Longrightarrow> query f db = (Inr (f (db\<lparr>db_stmts := Suc (db_stmts db)\<rparr>)), db\<lparr>db_stmts := Suc (db_stmts db)\<rparr>)"
  by (simp add: query_def stmt_sound)

lemma no_faults_count [simp]: "no_faults (db\<lparr>db_stmts := k\<rparr>) = no_faults db"
  by (simp add: no_faults_def)

lemma loop_succeeds:
  assumes "no_faults db" "ctx_left ctx = None" "\<And>t db. no_faults (snd (run t db)) = no_faults db"
  shows "\<exists>n db'. aggregate_loop step run what t hi tot ctx db = ((n, None), db') \<and> no_faults db'"
  using assms(1)
proof (induction "nat (hi - t)" arbitrary: t tot db rule: less_induct)
  case less
  show ?case
  proof (cases "0 < step \<and> t < hi")
    case True
    then have "nat (hi - (t + step)) < nat (hi - t)" by simp
    from less.hyps [OF this, of "snd (run t (db\<lparr>db_stmts := Suc (db_stmts db)\<rparr>))"] True less.prems assms(2,3) show ?thesis
      by (simp add: aggregate_loop.simps [of step run what t] stmt_sound ctx_done_def)
  qed (use less.prems in \<open>auto simp: aggregate_loop.simps [of step run what t]\<close>)
qed

lemma aggregates_succeed:
  assumes "no_faults db" "ctx_left ctx = None"
  shows "\<exists>n db'. AggregateHourly since until ctx db = ((n, None), db') \<and> no_faults db'"
    and "\<exists>n db'. AggregateDaily since until ctx db = ((n, None), db') \<and> no_faults db'"
proof -
  have "no_faults (snd (hourly_stmt t db)) = no_faults db" "no_faults (snd (daily_stmt t db)) = no_faults db" for t db
    by (simp_all add: no_faults_def hourly_stmt_def daily_stmt_def Let_def)
  note loops = loop_succeeds [of _ ctx hourly_stmt, OF _ assms(2) this(1)]
    loop_succeeds [of _ ctx daily_stmt, OF _ assms(2) this(2)]
  show "\<exists>n db'. AggregateHourly since until ctx db = ((n, None), db') \<and> no_faults db'"
    using loops(1) assms(1) by (auto simp: AggregateHourly_def query_sound Let_def split: list.splits)
  show "\<exists>n db'. AggregateDaily since until ctx db = ((n, None), db') \<and> no_faults db'"
    using loops(2) assms(1) by (auto simp: AggregateDaily_def query_sound Let_def split: list.splits)
qed

lemma prune_sensor_succeeds:
  "no_faults db \<Longrightarrow> \<exists>n db'. prune_sensor name before batch tot db = ((n, None), db') \<and> no_faults db'"
proof (induction name before batch tot db rule: prune_sensor.induct)
  case (1 name before batch tot db)
  let ?r = "prune_stmt name before batch (db\<lparr>db_stmts := Suc (db_stmts db)\<rparr>)"
  have nf: "no_faults (snd ?r)" using "1.prems" by (simp add: prune_stmt_def Let_def no_faults_def)
  show ?case
  proof (cases "fst ?r = 0")
    case True
    with "1.prems" nf show ?thesis by (simp add: prune_sensor.simps [of name _ _ _ db] stmt_sound)
  next
    case False
    from "1.IH" [OF stmt_sound [OF "1.prems", symmetric] refl this nf] False "1.prems" show ?thesis
      by (simp add: prune_sensor.simps [of name _ _ _ db] stmt_sound)
  qed
qed

lemma prune_succeeds:
  assumes "no_faults db" "ctx_left ctx = None"
  shows "\<exists>n db'. PruneSamples before batch ctx db = ((n, None), db')"
proof -
  have "\<exists>n db'. prune_sensors names before batch tot ctx db = ((n, None), db')" if "no_faults db" for names tot db
    using that
  proof (induction names arbitrary: tot db)
    case (Cons name names)
    obtain n db1 where "prune_sensor name before batch tot db = ((n, None), db1)" "no_faults db1"
      using prune_sensor_succeeds [OF Cons.prems] by blast
    with Cons.IH [of db1 n] assms(2) show ?case by (simp add: ctx_done_def)
  qed simp
  then show ?thesis using assms(1) by (simp add: PruneSamples_def query_sound)
qed

text \<open>Then a job leaves exactly the samples within the retention time.\<close>

lemma job_prunes:
  assumes "no_faults db" "0 < days" "ctx_left (ae_ctx_hourly env) = None" "ctx_left (ae_ctx_daily env) = None"
    "ctx_left (ae_ctx_prune env) = None"
  shows "db_samples (aggregate_db days env db) =
    filter (\<lambda>r. days_before (ae_now env) days \<le> at_row r) (db_samples db)"
proof -
  obtain n1 db1 where 1: "AggregateHourly zero_time (ae_now env) (ae_ctx_hourly env) db = ((n1, None), db1)" "no_faults db1"
    using aggregates_succeed(1) [OF assms(1,3)] by blast
  obtain n2 db2 where 2: "AggregateDaily zero_time (ae_now env) (ae_ctx_daily env) db1 = ((n2, None), db2)" "no_faults db2"
    using aggregates_succeed(2) [OF 1(2) assms(4)] by blast
  obtain n3 db3 where 3: "PruneSamples (days_before (ae_now env) days) 1000 (ae_ctx_prune env) db2 = ((n3, None), db3)"
    using prune_succeeds [OF 2(2) assms(5)] by blast
  obtain r4 db4 where 4: "PruneHourly (days_before (ae_now env) 365) 1000 (ae_ctx_prune_hourly env) db3 = (r4, db4)"
    by (metis prod.exhaust)
  show ?thesis
    using PruneSamples_spec [OF 3] hourly_frame(2) [OF 1(1)] daily_frame(2) [OF 2(1)] prune_hourly_frame(2) [OF 4]
    by (simp add: aggregate_db_def 1 2 3 4 assms(2) not_less)
qed

text \<open>A sample of the last nanosecond of the first day, and a job a day later that keeps one day.\<close>

definition old_sample :: sampleRow where
  "old_sample = \<lparr>sr_ID = 1, sr_Name = ''v'', sr_Sample = demo_sample (Day - 1)\<rparr>"

definition old_db :: db where
  "old_db = empty_db\<lparr>db_sample_seq := 1, db_samples := [old_sample]\<rparr>"

definition late_agg :: agg_env where
  "late_agg = demo_agg\<lparr>ae_now := 2 * Day\<rparr>"


end
