(* ===== verification/Commands.thy ===== *)
theory Commands
  imports Retention
begin

text \<open>
  The one-shot modes of the daemon's program, \<open>cmd/goodwe-daemon/main.go\<close>: offline analysis,
  aggregation and pruning of the database, with the exit status. Opening the database, the
  HTTP server and the signals are in the theory Serve; parsing the flags and logging are left out.
  \<open>time.Now()\<close> is an argument for each call.
\<close>

section \<open>The modes\<close>

definition minPollInterval :: int where "minPollInterval = 5 * Second"

definition Background :: goctx where
  "Background = \<lparr>ctx_left = None, ctx_err = Errorf ''''\<rparr>"

definition Vacuum :: "db \<Rightarrow> (goerror + unit) \<times> db" where
  "Vacuum = failing ''vacuum'' \<circ> stmt (\<lambda>d. ((), d))"

definition offline_analyze :: "gotime_ns \<Rightarrow> db \<Rightarrow> int \<times> db" where
  "offline_analyze now db =
     (case RunVoltageAnalysis now db_store db of
        (Some err, db1) \<Rightarrow> (1, db1)
      | (None, db1) \<Rightarrow> (0, snd (GetVoltageAnalysisCursor db1)))"

definition one_shot_aggregate :: "bool \<Rightarrow> gotime_ns \<Rightarrow> gotime_ns \<Rightarrow> db \<Rightarrow> int \<times> db" where
  "one_shot_aggregate aggregate now1 now2 db =
     (let since = (if aggregate then now1 - 48 * Hour else zero_time); until = now2 in
      case AggregateHourly since until Background db of
        ((_, Some err), db1) \<Rightarrow> (1, db1)
      | ((_, None), db1) \<Rightarrow>
     (case AggregateDaily since until Background db1 of
        ((_, Some err), db2) \<Rightarrow> (1, db2)
      | ((_, None), db2) \<Rightarrow> (0, db2)))"

definition one_shot_prune :: "int \<Rightarrow> bool \<Rightarrow> gotime_ns \<Rightarrow> gotime_ns \<Rightarrow> db \<Rightarrow> int \<times> db" where
  "one_shot_prune retentionDays noVacuum now1 now2 db =
     (let rawCutoff = days_before now1 retentionDays; hourlyCutoff = days_before now2 365 in
      case PruneSamples rawCutoff 1000 Background db of
        ((_, Some err), db1) \<Rightarrow> (1, db1)
      | ((deleted, None), db1) \<Rightarrow>
     (case PruneHourly hourlyCutoff 1000 Background db1 of
        ((_, Some err), db2) \<Rightarrow> (1, db2)
      | ((deletedHourly, None), db2) \<Rightarrow>
          (0, if \<not> noVacuum \<and> (0 < deleted \<or> 0 < deletedHourly) then snd (Vacuum db2) else db2)))"

text \<open>The flags that choose a mode, in the order in which the program looks at them.\<close>

record flags =
  fl_pollInterval :: int
  fl_offlineAnalyze :: bool
  fl_aggregate :: bool
  fl_aggregateBackfill :: bool
  fl_prune :: bool
  fl_retentionDays :: int
  fl_noVacuum :: bool

text \<open>The exit status and the database, or nothing when the program goes on to serve.\<close>

definition one_shot :: "flags \<Rightarrow> gotime_ns \<Rightarrow> gotime_ns \<Rightarrow> db \<Rightarrow> (int \<times> db) option" where
  "one_shot f now1 now2 db =
     (if 0 < fl_pollInterval f \<and> fl_pollInterval f < minPollInterval then Some (1, db)
      else if fl_offlineAnalyze f then Some (offline_analyze now1 db)
      else if fl_aggregate f \<or> fl_aggregateBackfill f then Some (one_shot_aggregate (fl_aggregate f) now1 now2 db)
      else if fl_prune f then Some (one_shot_prune (fl_retentionDays f) (fl_noVacuum f) now1 now2 db)
      else None)"

section \<open>Pruning\<close>

lemma nothing_old:
  assumes "prune_hourly_stmt before batch d = (0, e)" "batch \<noteq> 0"
  shows "\<forall>a \<in> set (db_hourly d). before \<le> ag_BucketStart a"
proof (rule ccontr)
  let ?old = "sort_key ag_BucketStart (filter (\<lambda>a. ag_BucketStart a < before) (db_hourly d))"
  let ?keys = "oldest_keys before batch (db_hourly d)"
  assume "\<not> ?thesis"
  then have "?old \<noteq> []" by (metis (no_types, lifting) filter_empty_conv length_0_conv length_sort linorder_not_le)
  then obtain a as where a: "?old = a # as" by (cases ?old) auto
  then have "a \<in> set ?old" by simp
  then have mem: "a \<in> set (db_hourly d)" by simp
  have key: "ag_key a \<in> set ?keys"
    using a assms(2) by (auto simp: oldest_keys_def limit_to_def take_Cons' simp del: set_sort)
  have "length (filter (\<lambda>a. ag_key a \<notin> set ?keys) (db_hourly d)) < length (db_hourly d)"
    by (rule length_filter_less [OF mem]) (simp add: key)
  with assms(1) show False by (simp add: prune_hourly_stmt_def Let_def)
qed

lemma prune_hourly_done:
  assumes "prune_hourly_loop before batch tot ctx d = ((n, None), d')" "batch \<noteq> 0"
  shows "\<forall>a \<in> set (db_hourly d'). before \<le> ag_BucketStart a"
  using assms
proof (induction before batch tot ctx d rule: prune_hourly_loop.induct)
  case (1 before batch tot ctx d)
  obtain r d1 where stmt: "stmt (prune_hourly_stmt before batch) d = (r, d1)" by force
  show ?case
  proof (cases r)
    case (Inl e)
    with stmt "1.prems" show ?thesis by (simp add: prune_hourly_loop.simps [of before])
  next
    case (Inr k)
    show ?thesis
    proof (cases "k = 0")
      case True
      have "prune_hourly_stmt before batch (d\<lparr>db_stmts := Suc (db_stmts d)\<rparr>) = (0, d1)"
        using stmt Inr True by (simp add: stmt_ok)
      from nothing_old [OF this "1.prems"(2)] have "\<forall>a \<in> set (db_hourly d). before \<le> ag_BucketStart a" by simp
      moreover have "set (db_hourly d1) \<subseteq> set (db_hourly d)"
        using stmt Inr by (auto simp: stmt_ok prune_hourly_stmt_def Let_def)
      moreover have "d' = d1"
        using "1.prems"(1) stmt Inr True by (simp add: prune_hourly_loop.simps [of before _ _ _ d])
      ultimately show ?thesis by blast
    next
      case False
      obtain b ctx1 where ctx: "ctx_done ctx = (b, ctx1)" by force
      have "prune_hourly_loop before batch (tot + k) ctx1 d1 = ((n, None), d')" "b = False"
        using "1.prems"(1) stmt Inr False ctx by (auto simp: prune_hourly_loop.simps [of before _ _ _ d] split: bool.splits)
      with "1.IH" [OF stmt [symmetric] Inr False ctx [symmetric]] "1.prems"(2) show ?thesis by simp
    qed
  qed
qed

lemma PruneHourly_spec:
  assumes "PruneHourly before batch ctx d = ((n, None), d')" "batch \<noteq> 0"
  shows "db_hourly d' = filter (\<lambda>a. before \<le> ag_BucketStart a) (db_hourly d)"
proof -
  have "\<forall>a \<in> set (db_hourly d'). before \<le> ag_BucketStart a"
    using assms by (auto simp: PruneHourly_def split: prod.splits dest!: prune_hourly_done)
  then have "db_hourly d' = filter (\<lambda>a. before \<le> ag_BucketStart a) (db_hourly d')" by simp
  then show ?thesis using prune_hourly_frame(5) [OF assms(1)] by simp
qed

lemma prune_hourly_succeeds:
  assumes "no_faults db" "ctx_left ctx = None"
  shows "\<exists>n db'. PruneHourly before batch ctx db = ((n, None), db')"
proof -
  have "\<exists>n db'. prune_hourly_loop before batch tot ctx db = ((n, None), db')" if "no_faults db" for tot db
    using that assms(2)
  proof (induction before batch tot ctx db rule: prune_hourly_loop.induct)
    case (1 before batch tot ctx db)
    let ?r = "prune_hourly_stmt before batch (db\<lparr>db_stmts := Suc (db_stmts db)\<rparr>)"
    have nf: "no_faults (snd ?r)" using "1.prems"(1) by (simp add: prune_hourly_stmt_def Let_def no_faults_def)
    show ?case
    proof (cases "fst ?r = 0")
      case True
      with "1.prems" show ?thesis by (simp add: prune_hourly_loop.simps [of before _ _ _ db] stmt_sound)
    next
      case False
      have ctx: "ctx_done ctx = (False, ctx)" using "1.prems"(2) by (simp add: ctx_done_def)
      from "1.IH" [OF stmt_sound [OF "1.prems"(1), symmetric] refl False ctx [symmetric] refl nf "1.prems"(2)] show ?thesis
        using False "1.prems"(1) by (simp add: prune_hourly_loop.simps [of before _ _ _ db] stmt_sound ctx)
    qed
  qed
  then show ?thesis using assms by (simp add: PruneHourly_def query_sound)
qed

text \<open>
  The one-shot pruning of a database without failing statements exits with status 0 and leaves
  exactly the samples of the retention time and the hourly rows of the last 365 days; everything
  else stays, and whether the file is compacted afterwards makes no difference to the tables.
\<close>

theorem one_shot_prune_exact:
  assumes "no_faults db"
  shows "\<exists>db'. one_shot_prune days noVacuum now1 now2 db = (0, db') \<and>
    db_samples db' = filter (\<lambda>r. days_before now1 days \<le> at_row r) (db_samples db) \<and>
    db_hourly db' = filter (\<lambda>a. days_before now2 365 \<le> ag_BucketStart a) (db_hourly db) \<and>
    db_daily db' = db_daily db \<and> apart_from_samples db' = apart_from_samples db"
proof -
  have ctx: "ctx_left Background = None" by (simp add: Background_def)
  obtain n1 db1 where 1: "PruneSamples (days_before now1 days) 1000 Background db = ((n1, None), db1)"
    using prune_succeeds [OF assms ctx] by blast
  have "no_faults db1" using assms prune_frame(1) [OF 1] no_faults_frame by blast
  then obtain n2 db2 where 2: "PruneHourly (days_before now2 365) 1000 Background db1 = ((n2, None), db2)"
    using prune_hourly_succeeds [OF _ ctx] by blast
  let ?db' = "if \<not> noVacuum \<and> (0 < n1 \<or> 0 < n2) then snd (Vacuum db2) else db2"
  have vac: "db_samples (snd (Vacuum db2)) = db_samples db2 \<and> db_hourly (snd (Vacuum db2)) = db_hourly db2 \<and>
      db_daily (snd (Vacuum db2)) = db_daily db2 \<and> apart_from_samples (snd (Vacuum db2)) = apart_from_samples db2"
    by (cases "db_faults db2 (db_stmts db2)")
      (simp_all add: Vacuum_def failing_def stmt_def apart_from_samples_def Let_def)
  have "one_shot_prune days noVacuum now1 now2 db = (0, ?db')"
    by (simp add: one_shot_prune_def Let_def 1 2)
  then show ?thesis
    using vac PruneSamples_spec [OF 1] PruneHourly_spec [OF 2] prune_frame [OF 1] prune_hourly_frame [OF 2]
    by (intro exI [of _ ?db']) (auto simp: not_less)
qed

lemma one_shot_prune_exact_witness:
  "\<exists>db'. one_shot_prune 1 False (2 * Day) (2 * Day) old_db = (0, db') \<and> db_samples db' = []"
proof -
  have "no_faults old_db" by (simp add: no_faults_def old_db_def empty_db_def)
  from one_shot_prune_exact [OF this, of 1 False "2 * Day" "2 * Day"] show ?thesis
    by (auto simp: old_db_def old_sample_def demo_sample_def at_row_def days_before_def Day_def Hour_def)
qed

section \<open>Aggregating\<close>

lemma prune_hourly_loop_sub:
  "prune_hourly_loop before batch tot ctx d = (r, d') \<Longrightarrow> set (db_hourly d') \<subseteq> set (db_hourly d)"
proof (induction before batch tot ctx d rule: prune_hourly_loop.induct)
  case (1 before batch tot ctx d)
  obtain q d1 where stmt: "stmt (prune_hourly_stmt before batch) d = (q, d1)" by force
  then have sub: "set (db_hourly d1) \<subseteq> set (db_hourly d)"
    by (cases q) (auto simp: stmt_ok stmt_err prune_hourly_stmt_def Let_def)
  obtain b ctx1 where ctx: "ctx_done ctx = (b, ctx1)" by force
  show ?case
  proof (cases "\<exists>k. q = Inr k \<and> k \<noteq> 0 \<and> \<not> b")
    case True
    then obtain k where k: "q = Inr k" "k \<noteq> 0" "b = False" by blast
    with "1.prems" stmt ctx have "prune_hourly_loop before batch (tot + k) ctx1 d1 = (r, d')"
      by (simp add: prune_hourly_loop.simps [of before _ _ _ d])
    with "1.IH" [OF stmt [symmetric] k(1,2) ctx [symmetric] k(3)] sub show ?thesis by blast
  next
    case False
    with "1.prems" stmt ctx have "d' = d1"
      by (cases q) (auto simp: prune_hourly_loop.simps [of before _ _ _ d] split: if_splits bool.splits)
    with sub show ?thesis by simp
  qed
qed

lemma job_hourly_sub:
  assumes "AggregateHourly zero_time (ae_now env) (ae_ctx_hourly env) db = ((n, e), db1)"
  shows "set (db_hourly (aggregate_db days env db)) \<subseteq> set (db_hourly db1)"
proof -
  obtain n2 e2 db2 where 2: "AggregateDaily zero_time (ae_now env) (ae_ctx_daily env) db1 = ((n2, e2), db2)"
    by (metis prod.exhaust)
  obtain r3 db3 where 3: "PruneSamples (days_before (ae_now env) days) 1000 (ae_ctx_prune env) db2 = (r3, db3)"
    by (metis prod.exhaust)
  obtain r4 db4 where 4: "PruneHourly (days_before (ae_now env) 365) 1000 (ae_ctx_prune_hourly env) db3 = (r4, db4)"
    by (metis prod.exhaust)
  have "set (db_hourly db4) \<subseteq> set (db_hourly db3)"
    using 4 by (auto simp: PruneHourly_def query_def split: prod.splits dest!: prune_hourly_loop_sub query_frame [where g = db_hourly, unfolded query_def])
  then show ?thesis
    using assms 2 3 4 daily_frame(3) [OF 2] prune_frame(2) [OF 3]
    by (cases e; cases e2) (auto simp: aggregate_db_def)
qed

text \<open>An hour without rows before the last summarised hour stays without rows.\<close>

lemma hour_skipped:
  assumes "AggregateHourly zero_time until ctx db = ((n, e), db1)"
    and "t < max_bucket (db_hourly db)" "t mod Hour = 0" "row_of (db_hourly db) name t = None"
  shows "row_of (db_hourly db1) name t = None"
proof -
  have "t < first_bucket Hour (max_bucket (db_hourly db)) zero_time"
  proof -
    have "Truncate Hour (t + Hour) = t + Hour" using assms(3) by (simp add: Truncate_def)
    moreover have "Truncate Hour (t + Hour) \<le> Truncate Hour (max zero_time (max_bucket (db_hourly db) + Hour))"
      using assms(2) by (intro Truncate_mono [OF hour_pos]) simp
    moreover have "first_bucket Hour (max_bucket (db_hourly db)) zero_time = Truncate Hour (max zero_time (max_bucket (db_hourly db) + Hour))"
      by (simp add: first_bucket_def Let_def max_def)
    ultimately show ?thesis using hour_pos by simp
  qed
  then have "\<not> in_buckets Hour (first_bucket Hour (max_bucket (db_hourly db)) zero_time) stop t" for stop
    by (simp add: in_buckets_def)
  then show ?thesis using hourly.agg_rows_upto [OF assms(1)] assms(4) by auto
qed


text \<open>A sample of the first hours, and one of the hundredth hour, when \<open>-aggregate\<close> runs.\<close>

definition gap_db :: db where
  "gap_db = empty_db\<lparr>db_sample_seq := 2, db_samples :=
     [\<lparr>sr_ID = 1, sr_Name = ''v'', sr_Sample = demo_sample (Hour + 5)\<rparr>,
      \<lparr>sr_ID = 2, sr_Name = ''v'', sr_Sample = demo_sample (99 * Hour + 5)\<rparr>]\<rparr>"


end
