(* ===== verification/Go_Path.thy ===== *)
theory Go_Path
  imports Go_Strings
begin

text \<open>
  Paths: the functions of Go's packages \<open>path\<close> and \<open>path/filepath\<close> that the opening of the
  database and the request router use, and what they do to a path that is clean already.
\<close>

text \<open>
  The functions of \<open>path\<close> and, on Unix, \<open>path/filepath\<close>. \<open>Clean\<close> drops empty elements and \<open>.\<close>, resolves
  \<open>..\<close> against the element before it, and drops a leading \<open>..\<close> of a rooted path.
\<close>

fun clean_elems :: "bool \<Rightarrow> string list \<Rightarrow> string list \<Rightarrow> string list" where
  "clean_elems rooted acc [] = rev acc"
| "clean_elems rooted acc (e # es) =
     (if e = '''' \<or> e = ''.'' then clean_elems rooted acc es
      else if e = ''..'' then
        (case acc of
           [] \<Rightarrow> clean_elems rooted (if rooted then [] else [''..'']) es
         | a # as \<Rightarrow> clean_elems rooted (if a = ''..'' then ''..'' # acc else as) es)
      else clean_elems rooted (e # acc) es)"

fun join_path :: "string list \<Rightarrow> string" where
  "join_path [] = ''''"
| "join_path [e] = e"
| "join_path (e # es) = e @ ''/'' @ join_path es"

definition Clean :: "string \<Rightarrow> string" where
  "Clean p =
     (let rooted = has_prefix ''/'' p;
          q = (if rooted then ''/'' else '''') @ join_path (clean_elems rooted [] (Split p ''/''))
      in if q = '''' then ''.'' else q)"

definition Join :: "string \<Rightarrow> string \<Rightarrow> string" where
  "Join a b =
     (if a \<noteq> '''' then Clean (a @ ''/'' @ b) else if b \<noteq> '''' then Clean b else '''')"

definition Dir :: "string \<Rightarrow> string" where
  "Dir p = Clean (rev (dropWhile (\<lambda>c. c \<noteq> CHR ''/'') (rev p)))"

section \<open>Clean paths\<close>

definition proper_elem :: "string \<Rightarrow> bool" where
  "proper_elem e \<longleftrightarrow> e \<noteq> '''' \<and> e \<noteq> ''.'' \<and> e \<noteq> ''..'' \<and> CHR ''/'' \<notin> set e"

lemma clean_elems_proper:
  "list_all proper_elem es \<Longrightarrow> clean_elems rooted acc es = rev acc @ es"
  by (induction es arbitrary: acc) (simp_all add: proper_elem_def)

lemma cut_at_slash: "CHR ''/'' \<notin> set e \<Longrightarrow> cut_at ''/'' (e @ CHR ''/'' # s) = Some (e, s)"
  by (induction e) auto

lemma cut_at_none: "CHR ''/'' \<notin> set e \<Longrightarrow> cut_at ''/'' e = None"
  by (induction e) auto

lemma SplitN_join:
  "\<lbrakk>es \<noteq> []; \<forall>e \<in> set es. CHR ''/'' \<notin> set e; length es \<le> n\<rbrakk> \<Longrightarrow> SplitN (join_path es) ''/'' n = es"
proof (induction es arbitrary: n rule: join_path.induct)
  case (2 e)
  then obtain k where "n = Suc k" by (cases n) auto
  with 2 show ?case by (cases k) (simp_all add: cut_at_none)
next
  case (3 e f es)
  from "3.prems"(3) obtain k where n: "n = Suc (Suc k)" by (metis Suc_le_D length_Cons Suc_le_mono)
  with 3 show ?case by (simp add: cut_at_slash)
qed simp

lemma length_join: "length es \<le> Suc (length (join_path es))"
  by (induction es rule: join_path.induct) auto

lemma Split_join:
  "\<lbrakk>es \<noteq> []; \<forall>e \<in> set es. CHR ''/'' \<notin> set e\<rbrakk> \<Longrightarrow> Split (join_path es) ''/'' = es"
  unfolding Split_def by (rule SplitN_join) (simp_all add: length_join)

lemma Split_rooted:
  "\<lbrakk>es \<noteq> []; \<forall>e \<in> set es. CHR ''/'' \<notin> set e\<rbrakk> \<Longrightarrow> Split (''/'' @ join_path es) ''/'' = [] # es"
  using Split_join [of "[] # es"] by (cases es) simp_all

lemma Clean_proper:
  assumes "es \<noteq> []" "list_all proper_elem es"
  shows "Clean (''/'' @ join_path es) = ''/'' @ join_path es"
proof -
  have "\<forall>e \<in> set es. CHR ''/'' \<notin> set e" using assms(2) by (auto simp: list_all_iff proper_elem_def)
  from Split_rooted [OF assms(1) this] clean_elems_proper [OF assms(2), of True "[]"]
  show ?thesis by (simp add: Clean_def Let_def)
qed

end
