(* ===== verification/Migration.thy ===== *)
theory Migration
  imports Retention Go_Path
begin

text \<open>
  Opening the database, \<open>Open\<close>, \<open>migrate\<close> and \<open>parseDSN\<close> of \<open>pkg/db/store.go\<close>. The state is the
  schema of the file (its version, tables with their columns, indexes) and the rows in it, a \<open>db\<close>.
  The definition statements are data, with the effect that SQL gives them; each may fail like the
  other statements, and a call of \<open>Exec\<close> with several statements stops at the first that fails and
  keeps the effect of those before it. The home directory, the creation of directories and the
  files are parameters of \<open>Open\<close>.
\<close>

section \<open>Schemas\<close>

record column =
  co_Name :: string
  co_Decl :: string

record tableDef =
  tb_Columns :: "column list"
  tb_Constraint :: string

record indexDef =
  ix_Table :: string
  ix_Columns :: "(string \<times> string) list"

record schema =
  sc_version :: int
  sc_journal :: string
  sc_tables :: "string \<rightharpoonup> tableDef"
  sc_indexes :: "string \<rightharpoonup> indexDef"
  sc_db :: db

definition col :: "string \<Rightarrow> string \<Rightarrow> column" where
  "col name decl = \<lparr>co_Name = name, co_Decl = decl\<rparr>"

definition sql_text :: "string \<Rightarrow> string" where
  "sql_text s = CHR 0x27 # s @ [CHR 0x27]"

definition column_names :: "tableDef \<Rightarrow> string set" where
  "column_names t = set (map co_Name (tb_Columns t))"

section \<open>Statements\<close>

datatype sql =
    CreateTable string "column list" string
  | CreateIndex string string "(string \<times> string) list"
  | AddColumn string column
  | DropTable string
  | InsertCursor
  | SetVersion int
  | JournalMode string

text \<open>Dropping a table loses its rows, and the counter of its row ids.\<close>

definition drop_rows :: "string \<Rightarrow> db \<Rightarrow> db" where
  "drop_rows n d =
     (if n = ''inverter_identity'' then d\<lparr>db_identity := []\<rparr>
      else if n = ''sensor_samples'' then d\<lparr>db_samples := [], db_sample_seq := 0\<rparr>
      else if n = ''sensor_samples_hourly'' then d\<lparr>db_hourly := []\<rparr>
      else if n = ''sensor_samples_daily'' then d\<lparr>db_daily := []\<rparr>
      else if n = ''voltage_events'' then d\<lparr>db_events := [], db_event_seq := 0\<rparr>
      else if n = ''voltage_analysis_cursor'' then d\<lparr>db_cursor := None\<rparr>
      else d)"

definition zero_cursor :: voltageCursor where
  "zero_cursor = \<lparr>vc_LastProcessedSampleID = 0, vc_OngoingL1 = None, vc_OngoingL2 = None,
     vc_OngoingL3 = None, vc_LastRunAt = 0\<rparr>"

definition no_table :: "string \<Rightarrow> goerror" where
  "no_table n = Errorf (''no such table: '' @ n)"

text \<open>
  \<open>CREATE \<dots> IF NOT EXISTS\<close>, \<open>ALTER TABLE \<dots> ADD COLUMN\<close>, \<open>DROP TABLE IF EXISTS\<close>,
  \<open>INSERT OR IGNORE\<close> of the cursor's row, and the two pragmas.
\<close>

fun sql_effect :: "sql \<Rightarrow> schema \<Rightarrow> goerror + schema" where
  "sql_effect (CreateTable n cs constr) s =
     Inr (case sc_tables s n of
       Some _ \<Rightarrow> s
     | None \<Rightarrow> s\<lparr>sc_tables := (sc_tables s)(n \<mapsto> \<lparr>tb_Columns = cs, tb_Constraint = constr\<rparr>)\<rparr>)"
| "sql_effect (CreateIndex i n cs) s =
     (case sc_tables s n of
        None \<Rightarrow> Inl (no_table n)
      | Some t \<Rightarrow>
          if sc_indexes s i \<noteq> None then Inr s
          else if \<not> set (map fst cs) \<subseteq> column_names t then Inl (Errorf ''no such column'')
          else Inr (s\<lparr>sc_indexes := (sc_indexes s)(i \<mapsto> \<lparr>ix_Table = n, ix_Columns = cs\<rparr>)\<rparr>))"
| "sql_effect (AddColumn n c) s =
     (case sc_tables s n of
        None \<Rightarrow> Inl (no_table n)
      | Some t \<Rightarrow>
          if co_Name c \<in> column_names t then Inl (Errorf (''duplicate column name: '' @ co_Name c))
          else Inr (s\<lparr>sc_tables := (sc_tables s)(n \<mapsto> t\<lparr>tb_Columns := tb_Columns t @ [c]\<rparr>)\<rparr>))"
| "sql_effect (DropTable n) s =
     Inr (s\<lparr>sc_tables := (sc_tables s)(n := None),
            sc_indexes := (\<lambda>i. case sc_indexes s i of None \<Rightarrow> None
              | Some x \<Rightarrow> if ix_Table x = n then None else Some x),
            sc_db := drop_rows n (sc_db s)\<rparr>)"
| "sql_effect InsertCursor s =
     (case sc_tables s ''voltage_analysis_cursor'' of
        None \<Rightarrow> Inl (no_table ''voltage_analysis_cursor'')
      | Some t \<Rightarrow>
          if \<not> {''id'', ''last_processed_sample_id'', ''last_run_at''} \<subseteq> column_names t
          then Inl (Errorf ''no such column'')
          else Inr (case db_cursor (sc_db s) of
            Some _ \<Rightarrow> s
          | None \<Rightarrow> s\<lparr>sc_db := (sc_db s)\<lparr>db_cursor := Some zero_cursor\<rparr>\<rparr>))"
| "sql_effect (SetVersion v) s = Inr (s\<lparr>sc_version := v\<rparr>)"
| "sql_effect (JournalMode m) s = Inr (s\<lparr>sc_journal := m\<rparr>)"

definition tick :: "schema \<Rightarrow> schema" where
  "tick s = s\<lparr>sc_db := (sc_db s)\<lparr>db_stmts := Suc (db_stmts (sc_db s))\<rparr>\<rparr>"

definition fault :: "schema \<Rightarrow> goerror option" where
  "fault s = db_faults (sc_db s) (db_stmts (sc_db s))"

text \<open>\<open>db.Exec\<close>: the statements of its text, up to the first that fails.\<close>

fun Exec :: "sql list \<Rightarrow> schema \<Rightarrow> goerror option \<times> schema" where
  "Exec [] s = (None, s)"
| "Exec (q # qs) s =
     (case fault s of
        Some err \<Rightarrow> (Some err, tick s)
      | None \<Rightarrow>
          (case sql_effect q (tick s) of
             Inl err \<Rightarrow> (Some err, tick s)
           | Inr s1 \<Rightarrow> Exec qs s1))"

text \<open>\<open>_, _ = db.Exec(\<dots>)\<close>.\<close>

definition Exec_ignored :: "sql list \<Rightarrow> schema \<Rightarrow> schema" where
  "Exec_ignored qs s = snd (Exec qs s)"

text \<open>\<open>_ = db.QueryRow(`PRAGMA user_version`).Scan(&v)\<close>: the variable stays 0 when the query fails.\<close>

definition SchemaVersion :: "schema \<Rightarrow> int \<times> schema" where
  "SchemaVersion s = ((case fault s of None \<Rightarrow> sc_version s | Some _ \<Rightarrow> 0), tick s)"

section \<open>The migrations\<close>

definition base_schema :: "sql list" where
  "base_schema =
     [CreateTable ''inverter_identity''
        [col ''serial'' ''TEXT PRIMARY KEY'',
         col ''model'' (''TEXT NOT NULL DEFAULT '' @ sql_text ''''),
         col ''rated_power'' ''INTEGER NOT NULL DEFAULT 0'',
         col ''first_seen'' ''TIMESTAMP NOT NULL DEFAULT CURRENT_TIMESTAMP'',
         col ''last_seen'' ''TIMESTAMP NOT NULL DEFAULT CURRENT_TIMESTAMP''] '''',
      CreateTable ''sensor_samples''
        [col ''id'' ''INTEGER PRIMARY KEY AUTOINCREMENT'',
         col ''sensor_name'' ''TEXT NOT NULL'',
         col ''value'' ''REAL'',
         col ''value_text'' ''TEXT'',
         col ''unit'' (''TEXT NOT NULL DEFAULT '' @ sql_text ''''),
         col ''sampled_at'' ''TIMESTAMP NOT NULL DEFAULT CURRENT_TIMESTAMP''] '''',
      CreateIndex ''idx_samples_name_time'' ''sensor_samples'' [(''sensor_name'', ''''), (''sampled_at'', '''')]]"

text \<open>The columns added since, each by a statement of its own that fails when the column is there.\<close>

definition added_columns :: "column list" where
  "added_columns =
     [col ''rated_power'' ''INTEGER NOT NULL DEFAULT 0'',
      col ''firmware'' (''TEXT NOT NULL DEFAULT '' @ sql_text ''''),
      col ''dsp_version'' (''TEXT NOT NULL DEFAULT '' @ sql_text ''''),
      col ''arm_version'' (''TEXT NOT NULL DEFAULT '' @ sql_text '''')]"

definition add_columns :: "schema \<Rightarrow> schema" where
  "add_columns s = foldl (\<lambda>s c. Exec_ignored [AddColumn ''inverter_identity'' c] s) s added_columns"

definition cursor_columns :: "column list" where
  "cursor_columns =
     [col ''id'' ''INTEGER PRIMARY KEY CHECK (id = 1)'',
      col ''last_processed_sample_id'' ''INTEGER NOT NULL DEFAULT 0'',
      col ''ongoing_l1_event_id'' ''INTEGER'',
      col ''ongoing_l2_event_id'' ''INTEGER'',
      col ''ongoing_l3_event_id'' ''INTEGER'',
      col ''last_run_at'' (''TIMESTAMP NOT NULL DEFAULT '' @ sql_text ''1970-01-01 00:00:00'')]"

definition events_columns :: "column list" where
  "events_columns =
     [col ''id'' ''INTEGER PRIMARY KEY AUTOINCREMENT'',
      col ''phase'' ''TEXT NOT NULL'',
      col ''start_sample_id'' ''INTEGER NOT NULL DEFAULT 0'',
      col ''start_time'' ''TIMESTAMP NOT NULL'',
      col ''end_sample_id'' ''INTEGER'',
      col ''end_time'' ''TIMESTAMP'',
      col ''min_voltage'' ''REAL NOT NULL'',
      col ''max_voltage'' ''REAL NOT NULL'',
      col ''avg_voltage'' ''REAL NOT NULL'',
      col ''duration_seconds'' ''INTEGER'']"

definition upgrade_v2 :: "schema \<Rightarrow> schema" where
  "upgrade_v2 s =
     (let s1 = Exec_ignored [DropTable ''voltage_analysis_cursor''] s;
          s2 = Exec_ignored [DropTable ''voltage_events''] s1;
          s3 = Exec_ignored
            [CreateTable ''voltage_analysis_cursor'' cursor_columns '''',
             InsertCursor,
             CreateTable ''voltage_events'' events_columns '''',
             CreateIndex ''idx_voltage_events_phase_start'' ''voltage_events''
               [(''phase'', ''''), (''start_time'', ''DESC'')]] s2
      in Exec_ignored [SetVersion 2] s3)"

definition aggregate_columns :: "column list" where
  "aggregate_columns =
     [col ''sensor_name'' ''TEXT NOT NULL'',
      col ''bucket_start'' ''TIMESTAMP NOT NULL'',
      col ''value_min'' ''REAL'',
      col ''value_max'' ''REAL'',
      col ''value_avg'' ''REAL'',
      col ''sample_count'' ''INTEGER NOT NULL DEFAULT 0'']"

definition aggregate_key :: string where
  "aggregate_key = ''PRIMARY KEY (sensor_name, bucket_start) WITHOUT ROWID''"

definition upgrade_v3 :: "schema \<Rightarrow> schema" where
  "upgrade_v3 s =
     Exec_ignored [SetVersion 3] (Exec_ignored
       [CreateTable ''sensor_samples_hourly'' aggregate_columns aggregate_key,
        CreateTable ''sensor_samples_daily'' aggregate_columns aggregate_key] s)"

definition upgrade_v4 :: "schema \<Rightarrow> schema" where
  "upgrade_v4 s =
     Exec_ignored [SetVersion 4] (Exec_ignored
       [CreateIndex ''idx_samples_time'' ''sensor_samples'' [(''sampled_at'', '''')]] s)"

text \<open>The version is read once, at the start; the last query only feeds the log.\<close>

definition migrate :: "schema \<Rightarrow> goerror option \<times> schema" where
  "migrate s =
     (case SchemaVersion s of (schemaVersion, s0) \<Rightarrow>
      case Exec base_schema s0 of
        (Some err, s1) \<Rightarrow> (Some err, s1)
      | (None, s1) \<Rightarrow>
          let s2 = add_columns s1;
              s3 = (if schemaVersion < 2 then upgrade_v2 s2 else s2);
              s4 = (if schemaVersion < 3 then upgrade_v3 s3 else s3);
              s5 = (if schemaVersion < 4 then upgrade_v4 s4 else s4)
          in (None, snd (SchemaVersion s5)))"

section \<open>Opening\<close>

text \<open>The machine: \<open>os.UserHomeDir\<close>, \<open>os.MkdirAll\<close>, \<open>sql.Open\<close> and the file at a path.\<close>

record machine =
  mc_UserHomeDir :: "goerror + string"
  mc_MkdirAll :: "string \<Rightarrow> goerror option"
  mc_sqlOpen :: "string \<Rightarrow> goerror + schema"

definition parseDSN :: "machine \<Rightarrow> string \<Rightarrow> goerror + string" where
  "parseDSN mc dsn =
     (if \<not> has_prefix ''sqlite://'' dsn then Inl (Errorf ''unsupported scheme (expected sqlite://)'')
      else
        let path = drop 9 dsn in
        if path = '''' then Inl (Errorf ''empty path in DSN'')
        else
          case (if has_prefix ''~/'' path
                then (case mc_UserHomeDir mc of
                        Inl err \<Rightarrow> Inl (wrap ''cannot expand ~'' err)
                      | Inr home \<Rightarrow> Inr (Join home (drop 2 path)))
                else Inr path) of
            Inl err \<Rightarrow> Inl err
          | Inr path \<Rightarrow>
              (case mc_MkdirAll mc (Dir path) of
                 Some err \<Rightarrow> Inl (wrap (''cannot create directory '' @ quoted (Dir path)) err)
               | None \<Rightarrow> Inr path))"

text \<open>The result is the open database, or the error with the file as the failed call left it.\<close>

definition Open :: "machine \<Rightarrow> string \<Rightarrow> (goerror + unit) \<times> schema option" where
  "Open mc dsn =
     (case parseDSN mc dsn of
        Inl err \<Rightarrow> (Inl (wrap (''invalid DSN '' @ quoted dsn) err), None)
      | Inr path \<Rightarrow>
     (case mc_sqlOpen mc path of
        Inl err \<Rightarrow> (Inl (wrap (''failed to open database '' @ quoted path) err), None)
      | Inr s \<Rightarrow>
     (case Exec [JournalMode ''WAL''] s of
        (Some err, s1) \<Rightarrow> (Inl (wrap ''failed to enable WAL mode'' err), Some s1)
      | (None, s1) \<Rightarrow>
     (case migrate s1 of
        (Some err, s2) \<Rightarrow> (Inl (wrap ''migration failed'' err), Some s2)
      | (None, s2) \<Rightarrow> (Inr (), Some s2)))))"

section \<open>What a migration never touches\<close>

text \<open>The rows outside the voltage analysis, the faults and the average; then the analysis itself.\<close>

definition measured :: "schema \<Rightarrow> inverterIdentity list \<times> sampleRow list \<times> int \<times> aggregatedSample list
    \<times> aggregatedSample list \<times> (f64 list \<Rightarrow> f64) \<times> (nat \<Rightarrow> goerror option)" where
  "measured s = (let d = sc_db s in
     (db_identity d, db_samples d, db_sample_seq d, db_hourly d, db_daily d, db_avg d, db_faults d))"

definition analysed :: "schema \<Rightarrow> voltageEvent list \<times> int \<times> voltageCursor option" where
  "analysed s = (db_events (sc_db s), db_event_seq (sc_db s), db_cursor (sc_db s))"

lemma tick_simps [simp]:
  "measured (tick s) = measured s" "analysed (tick s) = analysed s" "sc_version (tick s) = sc_version s"
  "sc_tables (tick s) = sc_tables s" "sc_indexes (tick s) = sc_indexes s"
  "db_faults (sc_db (tick s)) = db_faults (sc_db s)" "db_cursor (sc_db (tick s)) = db_cursor (sc_db s)"
  by (simp_all add: tick_def measured_def analysed_def Let_def)

lemma Exec_frame:
  assumes "\<And>q s s'. q \<in> set qs \<Longrightarrow> sql_effect q s = Inr s' \<Longrightarrow> g s' = g s" "\<And>s. g (tick s) = g s"
  shows "g (snd (Exec qs s)) = g s"
  using assms(1)
proof (induction qs arbitrary: s)
  case (Cons q qs)
  show ?case
  proof (cases "fault s = None")
    case True
    show ?thesis
    proof (cases "sql_effect q (tick s)")
      case (Inr s1)
      have "g s1 = g s" using Cons.prems [OF _ Inr] assms(2) by simp
      moreover have "g (snd (Exec qs s1)) = g s1" by (rule Cons.IH) (use Cons.prems in auto)
      ultimately show ?thesis using True Inr by simp
    qed (use True assms(2) in simp)
  qed (use assms(2) in auto)
qed simp

lemma effect_measured:
  assumes "sql_effect q s = Inr s'" "\<forall>n. q = DropTable n \<longrightarrow> n \<in> {''voltage_analysis_cursor'', ''voltage_events''}"
  shows "measured s' = measured s"
  using assms by (cases q) (auto simp: measured_def drop_rows_def Let_def split: option.splits if_splits)

lemma effect_analysed:
  assumes "sql_effect q s = Inr s'" "\<forall>n. q \<noteq> DropTable n" "q \<noteq> InsertCursor"
  shows "analysed s' = analysed s"
  using assms by (cases q) (auto simp: analysed_def split: option.splits if_splits)

lemma Exec_measured:
  assumes "\<forall>n. DropTable n \<in> set qs \<longrightarrow> n \<in> {''voltage_analysis_cursor'', ''voltage_events''}"
  shows "measured (snd (Exec qs s)) = measured s"
proof (rule Exec_frame)
  show "measured t' = measured t" if "q \<in> set qs" "sql_effect q t = Inr t'" for q t t'
    using effect_measured [OF that(2)] that(1) assms by auto
qed simp

lemma Exec_analysed:
  assumes "\<forall>n. DropTable n \<notin> set qs" "InsertCursor \<notin> set qs"
  shows "analysed (snd (Exec qs s)) = analysed s"
proof (rule Exec_frame)
  show "analysed t' = analysed t" if "q \<in> set qs" "sql_effect q t = Inr t'" for q t t'
    using effect_analysed [OF that(2)] that(1) assms by auto
qed simp

lemma add_columns_frame:
  "measured (add_columns s) = measured s" "analysed (add_columns s) = analysed s"
  by (simp_all add: add_columns_def added_columns_def Exec_ignored_def Exec_measured Exec_analysed del: Exec.simps)

lemma upgrades_frame:
  "measured (upgrade_v2 s) = measured s" "measured (upgrade_v3 s) = measured s" "measured (upgrade_v4 s) = measured s"
  "analysed (upgrade_v3 s) = analysed s" "analysed (upgrade_v4 s) = analysed s"
  by (simp_all add: upgrade_v2_def upgrade_v3_def upgrade_v4_def Exec_ignored_def Let_def Exec_measured Exec_analysed
    del: Exec.simps)

lemma base_frame:
  assumes "Exec base_schema s = (r, s')"
  shows "measured s' = measured s" "analysed s' = analysed s"
  using Exec_measured [of base_schema s] Exec_analysed [of base_schema s] assms
  by (simp_all add: base_schema_def del: Exec.simps)

lemma SchemaVersion_frame [simp]:
  "measured (snd (SchemaVersion s)) = measured s" "analysed (snd (SchemaVersion s)) = analysed s"
  by (simp_all add: SchemaVersion_def)

lemma migrate_keeps:
  assumes "migrate s = (r, s')"
  shows "measured s' = measured s \<and> (fault s = None \<and> 2 \<le> sc_version s \<longrightarrow> analysed s' = analysed s)"
proof (cases "Exec base_schema (snd (SchemaVersion s))")
  case (Pair r1 s1)
  note base = base_frame [OF Pair]
  show ?thesis
  proof (cases r1)
    case None
    with assms Pair base show ?thesis
      by (auto simp: migrate_def Let_def upgrades_frame add_columns_frame SchemaVersion_def split: prod.splits)
  qed (use assms Pair base in \<open>auto simp: migrate_def split: prod.splits\<close>)
qed

text \<open>
  Whatever fails during a migration, the measured data survive: identity, samples, hourly and daily
  rows, and the counter of row ids. The voltage events and the cursor of the analysis survive too
  when the version has been read and is at least 2.
\<close>

theorem migrate_keeps_data:
  assumes "migrate s = (r, s')"
  shows "measured s' = measured s \<and> (fault s = None \<and> 2 \<le> sc_version s \<longrightarrow> analysed s' = analysed s)"
  by (rule migrate_keeps [OF assms])

lemma migrate_keeps_data_witness:
  "\<exists>s'. migrate \<lparr>sc_version = 2, sc_journal = '''', sc_tables = Map.empty, sc_indexes = Map.empty,
       sc_db = empty_db\<lparr>db_faults := (\<lambda>n. if n = 7 then Some ErrUnsupported else None), db_event_seq := 5\<rparr>\<rparr>
       = (fst (migrate \<lparr>sc_version = 2, sc_journal = '''', sc_tables = Map.empty, sc_indexes = Map.empty,
       sc_db = empty_db\<lparr>db_faults := (\<lambda>n. if n = 7 then Some ErrUnsupported else None), db_event_seq := 5\<rparr>\<rparr>), s') \<and>
     db_event_seq (sc_db s') = 5 \<and> db_samples (sc_db s') = []"
proof -
  let ?s = "\<lparr>sc_version = 2, sc_journal = '''', sc_tables = Map.empty, sc_indexes = Map.empty,
       sc_db = empty_db\<lparr>db_faults := (\<lambda>n. if n = 7 then Some ErrUnsupported else None), db_event_seq := 5\<rparr>\<rparr>"
  obtain r s' where "migrate ?s = (r, s')" by force
  from migrate_keeps_data [OF this] this show ?thesis
    by (auto simp: measured_def analysed_def Let_def fault_def empty_db_def)
qed

section \<open>What a migration establishes\<close>

definition has_columns :: "schema \<Rightarrow> string \<Rightarrow> string list \<Rightarrow> bool" where
  "has_columns s n cs = (case sc_tables s n of None \<Rightarrow> False | Some t \<Rightarrow> set cs \<subseteq> column_names t)"

definition if_table :: "schema \<Rightarrow> string \<Rightarrow> string list \<Rightarrow> bool" where
  "if_table s n cs \<longleftrightarrow> sc_tables s n = None \<or> has_columns s n cs"

definition is_index :: "schema \<Rightarrow> string \<Rightarrow> string \<Rightarrow> (string \<times> string) list \<Rightarrow> bool" where
  "is_index s i n cs \<longleftrightarrow> sc_indexes s i = Some \<lparr>ix_Table = n, ix_Columns = cs\<rparr>"

definition if_index :: "schema \<Rightarrow> string \<Rightarrow> string \<Rightarrow> (string \<times> string) list \<Rightarrow> bool" where
  "if_index s i n cs \<longleftrightarrow> sc_indexes s i = None \<or> is_index s i n cs"

definition first_identity_names :: "string list" where
  "first_identity_names = [''serial'', ''model'', ''first_seen'', ''last_seen'']"

definition identity_names :: "string list" where
  "identity_names = first_identity_names @ [''rated_power'', ''firmware'', ''dsp_version'', ''arm_version'']"

definition sample_names :: "string list" where
  "sample_names = [''id'', ''sensor_name'', ''value'', ''value_text'', ''unit'', ''sampled_at'']"

text \<open>What every statement of the code needs of the two groups of tables.\<close>

definition voltage_ready :: "schema \<Rightarrow> bool" where
  "voltage_ready s \<longleftrightarrow>
     has_columns s ''voltage_analysis_cursor'' (map co_Name cursor_columns) \<and>
     has_columns s ''voltage_events'' (map co_Name events_columns) \<and>
     is_index s ''idx_voltage_events_phase_start'' ''voltage_events'' [(''phase'', ''''), (''start_time'', ''DESC'')] \<and>
     db_cursor (sc_db s) \<noteq> None"

definition aggregates_ready :: "schema \<Rightarrow> bool" where
  "aggregates_ready s \<longleftrightarrow>
     has_columns s ''sensor_samples_hourly'' (map co_Name aggregate_columns) \<and>
     has_columns s ''sensor_samples_daily'' (map co_Name aggregate_columns)"

definition samples_ready :: "schema \<Rightarrow> bool" where
  "samples_ready s \<longleftrightarrow>
     has_columns s ''inverter_identity'' identity_names \<and> has_columns s ''sensor_samples'' sample_names \<and>
     is_index s ''idx_samples_name_time'' ''sensor_samples'' [(''sensor_name'', ''''), (''sampled_at'', '''')]"

definition time_index :: "schema \<Rightarrow> bool" where
  "time_index s \<longleftrightarrow> is_index s ''idx_samples_time'' ''sensor_samples'' [(''sampled_at'', '''')]"

text \<open>What the version \<open>k\<close> stands for: each number from 2 on for the tables or the index it brought.\<close>

definition upgraded :: "int \<Rightarrow> schema \<Rightarrow> bool" where
  "upgraded k s \<longleftrightarrow>
     (if 2 \<le> k then voltage_ready s
      else if_index s ''idx_voltage_events_phase_start'' ''voltage_events'' [(''phase'', ''''), (''start_time'', ''DESC'')]) \<and>
     (if 3 \<le> k then aggregates_ready s
      else if_table s ''sensor_samples_hourly'' (map co_Name aggregate_columns) \<and>
           if_table s ''sensor_samples_daily'' (map co_Name aggregate_columns)) \<and>
     (if 4 \<le> k then time_index s
      else if_index s ''idx_samples_time'' ''sensor_samples'' [(''sampled_at'', '''')])"

definition complete :: "schema \<Rightarrow> bool" where
  "complete s \<longleftrightarrow> sc_version s = 4 \<and> samples_ready s \<and> upgraded 4 s"

text \<open>
  A file some release of the program left behind: the first tables may be missing or lack the columns
  added since, the rest is there as the version says.
\<close>

definition layout :: "schema \<Rightarrow> bool" where
  "layout s \<longleftrightarrow>
     sc_version s \<le> 4 \<and>
     if_table s ''inverter_identity'' first_identity_names \<and> if_table s ''sensor_samples'' sample_names \<and>
     if_index s ''idx_samples_name_time'' ''sensor_samples'' [(''sensor_name'', ''''), (''sampled_at'', '''')] \<and>
     upgraded (sc_version s) s"

text \<open>No statement fails from now on.\<close>

definition faultless :: "schema \<Rightarrow> bool" where
  "faultless s \<longleftrightarrow> (\<forall>k \<ge> db_stmts (sc_db s). db_faults (sc_db s) k = None)"

lemma faultless_fault [simp]: "faultless s \<Longrightarrow> fault s = None"
  by (simp add: faultless_def fault_def)

lemma faultless_tick [simp]: "faultless s \<Longrightarrow> faultless (tick s)"
  by (simp add: faultless_def tick_def)

lemma no_faults_faultless: "no_faults (sc_db s) \<Longrightarrow> faultless s"
  by (simp add: faultless_def no_faults_def)

lemma no_faults_measured: "measured s' = measured s \<Longrightarrow> no_faults (sc_db s') = no_faults (sc_db s)"
  by (simp add: measured_def no_faults_def Let_def)

lemma faultless_simps [simp]:
  "faultless (s\<lparr>sc_tables := t\<rparr>) = faultless s"
  "faultless (s\<lparr>sc_indexes := i\<rparr>) = faultless s" "faultless (s\<lparr>sc_version := v\<rparr>) = faultless s"
  "faultless (s\<lparr>sc_db := (sc_db s)\<lparr>db_cursor := c\<rparr>\<rparr>) = faultless s"
  by (simp_all add: faultless_def)

lemma tables_tick [simp]:
  "sc_tables (tick s) = sc_tables s" "sc_indexes (tick s) = sc_indexes s"
  "has_columns (tick s) = has_columns s" "is_index (tick s) = is_index s"
  "if_table (tick s) = if_table s" "if_index (tick s) = if_index s"
  by (simp_all add: fun_eq_iff has_columns_def is_index_def if_table_def if_index_def)

text \<open>Without a fault a creation succeeds; it changes nothing but the missing object.\<close>

definition created :: "string \<Rightarrow> column list \<Rightarrow> string \<Rightarrow> schema \<Rightarrow> schema" where
  "created n cs constr s = (case sc_tables s n of Some _ \<Rightarrow> tick s
     | None \<Rightarrow> (tick s)\<lparr>sc_tables := (sc_tables s)(n \<mapsto> \<lparr>tb_Columns = cs, tb_Constraint = constr\<rparr>)\<rparr>)"

definition indexed :: "string \<Rightarrow> string \<Rightarrow> (string \<times> string) list \<Rightarrow> schema \<Rightarrow> schema" where
  "indexed i n cs s = (case sc_indexes s i of Some _ \<Rightarrow> tick s
     | None \<Rightarrow> (tick s)\<lparr>sc_indexes := (sc_indexes s)(i \<mapsto> \<lparr>ix_Table = n, ix_Columns = cs\<rparr>)\<rparr>)"

lemma Exec_create: "faultless s \<Longrightarrow> Exec (CreateTable n cs constr # qs) s = Exec qs (created n cs constr s)"
  by (simp add: created_def split: option.splits)

lemma Exec_index:
  "faultless s \<Longrightarrow> has_columns s n names \<Longrightarrow> set (map fst cs) \<subseteq> set names \<Longrightarrow>
   Exec (CreateIndex i n cs # qs) s = Exec qs (indexed i n cs s)"
  by (auto simp: indexed_def has_columns_def split: option.splits)

lemma created_simps [simp]:
  "m \<noteq> n \<Longrightarrow> sc_tables (created n cs constr s) m = sc_tables s m"
  "m \<noteq> n \<Longrightarrow> has_columns (created n cs constr s) m = has_columns s m"
  "m \<noteq> n \<Longrightarrow> if_table (created n cs constr s) m = if_table s m"
  "sc_indexes (created n cs constr s) = sc_indexes s" "is_index (created n cs constr s) = is_index s"
  "if_index (created n cs constr s) = if_index s" "sc_version (created n cs constr s) = sc_version s"
  "faultless s \<Longrightarrow> faultless (created n cs constr s)" "analysed (created n cs constr s) = analysed s"
  by (simp_all add: created_def has_columns_def if_table_def is_index_def if_index_def fun_eq_iff analysed_def tick_def
    faultless_def split: option.splits)

lemma created_has:
  "if_table s n names \<Longrightarrow> set names \<subseteq> co_Name ` set cs \<Longrightarrow> has_columns (created n cs constr s) n names"
  by (auto simp: created_def if_table_def has_columns_def column_names_def split: option.splits)

lemma indexed_simps [simp]:
  "sc_tables (indexed i n cs s) = sc_tables s" "has_columns (indexed i n cs s) = has_columns s"
  "j \<noteq> i \<Longrightarrow> sc_indexes (indexed i n cs s) j = sc_indexes s j"
  "j \<noteq> i \<Longrightarrow> is_index (indexed i n cs s) j = is_index s j"
  "j \<noteq> i \<Longrightarrow> if_index (indexed i n cs s) j = if_index s j" "sc_version (indexed i n cs s) = sc_version s"
  "faultless s \<Longrightarrow> faultless (indexed i n cs s)" "analysed (indexed i n cs s) = analysed s"
  by (simp_all add: indexed_def has_columns_def is_index_def if_index_def fun_eq_iff analysed_def tick_def
    faultless_def split: option.splits)

lemma indexed_is: "if_index s i n cs \<Longrightarrow> is_index (indexed i n cs s) i n cs"
  by (auto simp: indexed_def if_index_def is_index_def split: option.splits)

lemma Exec_cursor:
  assumes "faultless s" "has_columns s ''voltage_analysis_cursor'' (map co_Name cursor_columns)" "db_cursor (sc_db s) = None"
  shows "Exec (InsertCursor # qs) s = Exec qs ((tick s)\<lparr>sc_db := (sc_db (tick s))\<lparr>db_cursor := Some zero_cursor\<rparr>\<rparr>)"
proof -
  obtain t where t: "sc_tables s ''voltage_analysis_cursor'' = Some t" "co_Name ` set cursor_columns \<subseteq> column_names t"
    using assms(2) by (auto simp: has_columns_def split: option.splits)
  then have "{''id'', ''last_processed_sample_id'', ''last_run_at''} \<subseteq> column_names t"
    by (simp add: cursor_columns_def col_def)
  with t(1) assms(1,3) show ?thesis by simp
qed

text \<open>The state of tables and indexes behind each upgrade.\<close>

definition keeps_tables :: "string set \<Rightarrow> schema \<Rightarrow> schema \<Rightarrow> bool" where
  "keeps_tables ns s s' \<longleftrightarrow> (\<forall>m. m \<notin> ns \<longrightarrow> sc_tables s' m = sc_tables s m)"

definition keeps_indexes :: "string set \<Rightarrow> string set \<Rightarrow> schema \<Rightarrow> schema \<Rightarrow> bool" where
  "keeps_indexes is ns s s' \<longleftrightarrow> (\<forall>i n cs. i \<notin> is \<longrightarrow> n \<notin> ns \<longrightarrow>
     (is_index s i n cs \<longrightarrow> is_index s' i n cs) \<and> (if_index s i n cs \<longrightarrow> if_index s' i n cs))"

lemma keeps_columns:
  "keeps_tables ns s s' \<Longrightarrow> m \<notin> ns \<Longrightarrow> has_columns s' m = has_columns s m"
  "keeps_tables ns s s' \<Longrightarrow> m \<notin> ns \<Longrightarrow> if_table s' m = if_table s m"
  by (simp_all add: keeps_tables_def has_columns_def if_table_def fun_eq_iff)

lemma keeps_index:
  "keeps_indexes is ns s s' \<Longrightarrow> i \<notin> is \<Longrightarrow> n \<notin> ns \<Longrightarrow> is_index s i n cs \<Longrightarrow> is_index s' i n cs"
  "keeps_indexes is ns s s' \<Longrightarrow> i \<notin> is \<Longrightarrow> n \<notin> ns \<Longrightarrow> if_index s i n cs \<Longrightarrow> if_index s' i n cs"
  by (simp_all add: keeps_indexes_def)

lemma Exec_version: "faultless s \<Longrightarrow> Exec_ignored [SetVersion v] s = (tick s)\<lparr>sc_version := v\<rparr>"
  by (simp add: Exec_ignored_def)

lemma Exec_drop:
  "faultless s \<Longrightarrow> Exec_ignored [DropTable n] s = (tick s)\<lparr>sc_tables := (sc_tables s)(n := None),
     sc_indexes := (\<lambda>i. case sc_indexes s i of None \<Rightarrow> None | Some x \<Rightarrow> if ix_Table x = n then None else Some x),
     sc_db := drop_rows n (sc_db (tick s))\<rparr>"
  by (simp add: Exec_ignored_def)

abbreviation voltage_tables :: "string set" where
  "voltage_tables \<equiv> {''voltage_analysis_cursor'', ''voltage_events''}"

abbreviation events_index :: string where
  "events_index \<equiv> ''idx_voltage_events_phase_start''"

lemma dropped:
  assumes "faultless s"
    and "if_index s events_index ''voltage_events'' [(''phase'', ''''), (''start_time'', ''DESC'')]"
  defines "s2 \<equiv> Exec_ignored [DropTable ''voltage_events''] (Exec_ignored [DropTable ''voltage_analysis_cursor''] s)"
  shows "faultless s2" "analysed s2 = ([], 0, None)"
    "sc_tables s2 = (sc_tables s)(''voltage_analysis_cursor'' := None, ''voltage_events'' := None)"
    "sc_indexes s2 events_index = None" "keeps_indexes {} voltage_tables s s2" "sc_version s2 = sc_version s"
  using assms(1,2)
  by (auto simp: s2_def Exec_drop faultless_def drop_rows_def analysed_def if_index_def is_index_def tick_def
    keeps_indexes_def split: option.splits)

lemma upgrade_v2_ready:
  assumes "faultless s"
    and "if_index s events_index ''voltage_events'' [(''phase'', ''''), (''start_time'', ''DESC'')]"
  shows "voltage_ready (upgrade_v2 s)" "sc_version (upgrade_v2 s) = 2" "faultless (upgrade_v2 s)"
    "analysed (upgrade_v2 s) = ([], 0, Some zero_cursor)"
    "keeps_tables voltage_tables s (upgrade_v2 s)" "keeps_indexes {events_index} voltage_tables s (upgrade_v2 s)"
proof -
  let ?cs = "[(''phase'', ''''), (''start_time'', ''DESC'')]"
  define s2 where "s2 = Exec_ignored [DropTable ''voltage_events''] (Exec_ignored [DropTable ''voltage_analysis_cursor''] s)"
  note d = dropped [OF assms, folded s2_def]
  define s3 where "s3 = created ''voltage_analysis_cursor'' cursor_columns '''' s2"
  define s4 where "s4 = (tick s3)\<lparr>sc_db := (sc_db (tick s3))\<lparr>db_cursor := Some zero_cursor\<rparr>\<rparr>"
  define s5 where "s5 = created ''voltage_events'' events_columns '''' s4"
  define s6 where "s6 = indexed events_index ''voltage_events'' ?cs s5"
  have ok: "faultless s2" "faultless s3" "faultless s4" "faultless s5" "faultless s6"
    by (simp_all add: s3_def s4_def s5_def s6_def d)
  have same: "sc_tables s4 = sc_tables s3" "sc_indexes s4 = sc_indexes s3" by (simp_all add: s4_def)
  then have c3: "has_columns s4 = has_columns s3" "if_table s4 = if_table s3"
    by (simp_all add: has_columns_def if_table_def fun_eq_iff)
  have cursor: "has_columns s3 ''voltage_analysis_cursor'' (map co_Name cursor_columns)"
    unfolding s3_def by (rule created_has) (simp_all add: if_table_def d(3))
  have events: "has_columns s5 ''voltage_events'' (map co_Name events_columns)"
    unfolding s5_def by (rule created_has) (simp_all add: c3 s3_def if_table_def d(3))
  have index: "is_index s6 events_index ''voltage_events'' ?cs"
    unfolding s6_def by (rule indexed_is) (simp add: if_index_def s5_def same s3_def d(4))
  have a3: "analysed s3 = ([], 0, None)" by (simp add: s3_def d(2))
  then have a: "analysed s6 = ([], 0, Some zero_cursor)"
    by (simp add: s6_def s5_def) (simp add: s4_def analysed_def tick_def)
  have step: "Exec [CreateIndex events_index ''voltage_events'' ?cs] s5 = (None, s6)"
    using Exec_index [OF ok(4) events, of ?cs events_index "[]"] by (simp add: s6_def events_columns_def col_def del: Exec.simps(2))
  have "Exec [CreateTable ''voltage_analysis_cursor'' cursor_columns '''', InsertCursor,
      CreateTable ''voltage_events'' events_columns '''', CreateIndex events_index ''voltage_events'' ?cs] s2 = (None, s6)"
    using a3 step by (simp add: Exec_create Exec_cursor ok cursor s3_def [symmetric] s4_def [symmetric] s5_def [symmetric]
      analysed_def del: Exec.simps(2))
  then have res: "upgrade_v2 s = (tick s6)\<lparr>sc_version := 2\<rparr>"
    using Exec_version [OF ok(5)]
    by (simp add: upgrade_v2_def Let_def s2_def [symmetric] Exec_ignored_def [of "_ # _ # _"] del: Exec.simps(2))
  then have st: "sc_tables (upgrade_v2 s) = sc_tables s5" "sc_indexes (upgrade_v2 s) = sc_indexes s6"
      "analysed (upgrade_v2 s) = analysed s6"
    by (simp_all add: s6_def analysed_def tick_def)
  then show "analysed (upgrade_v2 s) = ([], 0, Some zero_cursor)" using a by simp
  moreover have "has_columns (upgrade_v2 s) ''voltage_analysis_cursor'' (map co_Name cursor_columns)"
      "has_columns (upgrade_v2 s) ''voltage_events'' (map co_Name events_columns)"
    using cursor events by (simp_all add: has_columns_def st s5_def same)
  ultimately show "voltage_ready (upgrade_v2 s)"
    using index st(2) by (simp add: voltage_ready_def analysed_def is_index_def)
  show "sc_version (upgrade_v2 s) = 2" "faultless (upgrade_v2 s)" using ok(5) by (simp_all add: res)
  show "keeps_tables voltage_tables s (upgrade_v2 s)"
    by (simp add: keeps_tables_def st s5_def same s3_def d(3))
  show "keeps_indexes {events_index} voltage_tables s (upgrade_v2 s)"
    using d(5) by (auto simp: keeps_indexes_def is_index_def if_index_def st s6_def s5_def same s3_def)
qed

abbreviation aggregate_tables :: "string set" where
  "aggregate_tables \<equiv> {''sensor_samples_hourly'', ''sensor_samples_daily''}"

lemma upgrade_v3_ready:
  assumes "faultless s"
    and "if_table s ''sensor_samples_hourly'' (map co_Name aggregate_columns)"
    and "if_table s ''sensor_samples_daily'' (map co_Name aggregate_columns)"
  shows "aggregates_ready (upgrade_v3 s)" "sc_version (upgrade_v3 s) = 3" "faultless (upgrade_v3 s)"
    "analysed (upgrade_v3 s) = analysed s"
    "keeps_tables aggregate_tables s (upgrade_v3 s)" "sc_indexes (upgrade_v3 s) = sc_indexes s"
proof -
  define s1 where "s1 = created ''sensor_samples_hourly'' aggregate_columns aggregate_key s"
  define s2 where "s2 = created ''sensor_samples_daily'' aggregate_columns aggregate_key s1"
  have ok: "faultless s1" "faultless s2" by (simp_all add: s1_def s2_def assms(1))
  have "has_columns s1 ''sensor_samples_hourly'' (map co_Name aggregate_columns)"
    unfolding s1_def by (rule created_has) (simp_all add: assms(2))
  then have ready: "has_columns s2 ''sensor_samples_hourly'' (map co_Name aggregate_columns)"
    "has_columns s2 ''sensor_samples_daily'' (map co_Name aggregate_columns)"
    unfolding s2_def by (simp, intro created_has) (simp_all add: s1_def assms(3))
  have res: "upgrade_v3 s = (tick s2)\<lparr>sc_version := 3\<rparr>"
    using Exec_version [OF ok(2)]
    by (simp add: upgrade_v3_def Exec_ignored_def [of "_ # _ # _"] Exec_create assms(1) ok s1_def [symmetric] s2_def [symmetric]
      del: Exec.simps(2))
  show "aggregates_ready (upgrade_v3 s)" using ready by (simp add: aggregates_ready_def res has_columns_def)
  show "keeps_tables aggregate_tables s (upgrade_v3 s)" by (simp add: keeps_tables_def res s2_def s1_def)
  show "sc_version (upgrade_v3 s) = 3" "faultless (upgrade_v3 s)" "sc_indexes (upgrade_v3 s) = sc_indexes s"
    using assms(1) by (simp_all add: res s2_def s1_def)
qed (simp add: upgrades_frame)

lemma upgrade_v4_ready:
  assumes "faultless s" "has_columns s ''sensor_samples'' sample_names"
    and "if_index s ''idx_samples_time'' ''sensor_samples'' [(''sampled_at'', '''')]"
  shows "upgrade_v4 s = (tick (indexed ''idx_samples_time'' ''sensor_samples'' [(''sampled_at'', '''')] s))\<lparr>sc_version := 4\<rparr>"
    "time_index (upgrade_v4 s)"
proof -
  let ?s1 = "indexed ''idx_samples_time'' ''sensor_samples'' [(''sampled_at'', '''')] s"
  have "Exec [CreateIndex ''idx_samples_time'' ''sensor_samples'' [(''sampled_at'', '''')]] s = (None, ?s1)"
    using Exec_index [OF assms(1,2), of "[(''sampled_at'', '''')]" _ "[]"] by (simp add: sample_names_def del: Exec.simps(2))
  then show res: "upgrade_v4 s = (tick ?s1)\<lparr>sc_version := 4\<rparr>"
    using Exec_version [of ?s1] assms(1) by (simp add: upgrade_v4_def Exec_ignored_def [of "[CreateIndex _ _ _]"] del: Exec.simps(2))
  show "time_index (upgrade_v4 s)" using indexed_is [OF assms(3)] by (simp add: time_index_def res is_index_def)
qed

text \<open>The base statements and the added columns.\<close>

lemma base_ready:
  assumes "faultless s" "if_table s ''inverter_identity'' first_identity_names" "if_table s ''sensor_samples'' sample_names"
    and "if_index s ''idx_samples_name_time'' ''sensor_samples'' [(''sensor_name'', ''''), (''sampled_at'', '''')]"
  obtains s1 where "Exec base_schema s = (None, s1)" "faultless s1"
    "has_columns s1 ''inverter_identity'' first_identity_names" "has_columns s1 ''sensor_samples'' sample_names"
    "is_index s1 ''idx_samples_name_time'' ''sensor_samples'' [(''sensor_name'', ''''), (''sampled_at'', '''')]"
    "keeps_tables {''inverter_identity'', ''sensor_samples''} s s1" "keeps_indexes {''idx_samples_name_time''} {} s s1"
    "sc_version s1 = sc_version s"
proof -
  obtain cs1 cs2 cs3 where base: "base_schema = [CreateTable ''inverter_identity'' cs1 '''', CreateTable ''sensor_samples'' cs2 '''',
      CreateIndex ''idx_samples_name_time'' ''sensor_samples'' cs3]" "set first_identity_names \<subseteq> co_Name ` set cs1"
      "set sample_names \<subseteq> co_Name ` set cs2" "cs3 = [(''sensor_name'', ''''), (''sampled_at'', '''')]"
    by (simp add: base_schema_def first_identity_names_def sample_names_def col_def)
  define s1 where "s1 = created ''inverter_identity'' cs1 '''' s"
  define s2 where "s2 = created ''sensor_samples'' cs2 '''' s1"
  define s3 where "s3 = indexed ''idx_samples_name_time'' ''sensor_samples'' cs3 s2"
  have ok: "faultless s1" "faultless s2" "faultless s3" by (simp_all add: s1_def s2_def s3_def assms(1))
  have 1: "has_columns s1 ''inverter_identity'' first_identity_names"
    unfolding s1_def by (rule created_has) (use assms(2) base(2) in simp_all)
  have 2: "has_columns s2 ''sensor_samples'' sample_names"
    unfolding s2_def by (rule created_has) (use assms(3) base(3) in \<open>simp_all add: s1_def\<close>)
  have step: "Exec [CreateIndex ''idx_samples_name_time'' ''sensor_samples'' cs3] s2 = (None, s3)"
    using Exec_index [OF ok(2) 2, of cs3 _ "[]"] by (simp add: s3_def base(4) sample_names_def del: Exec.simps(2))
  have run: "Exec base_schema s = (None, s3)"
    by (simp add: base(1) Exec_create assms(1) ok s1_def [symmetric] s2_def [symmetric] step del: Exec.simps(2))
  have ix: "is_index s3 ''idx_samples_name_time'' ''sensor_samples'' cs3"
    unfolding s3_def by (rule indexed_is) (use assms(4) in \<open>simp add: s2_def s1_def base(4)\<close>)
  show ?thesis
    by (rule that [OF run ok(3)])
      (use 1 2 ix in \<open>simp_all add: s3_def s2_def s1_def base(4) keeps_tables_def keeps_indexes_def\<close>)
qed

lemma add_column_has:
  fixes c
  assumes "faultless s" "has_columns s n names"
  defines "s' \<equiv> Exec_ignored [AddColumn n c] s"
  shows "has_columns s' n (co_Name c # names)" "faultless s'" "keeps_tables {n} s s'" "sc_indexes s' = sc_indexes s"
    "sc_version s' = sc_version s"
  using assms by (auto simp: s'_def Exec_ignored_def has_columns_def column_names_def keeps_tables_def split: option.splits)

lemma add_columns_ready:
  assumes "faultless s" "has_columns s ''inverter_identity'' first_identity_names"
  shows "has_columns (add_columns s) ''inverter_identity'' identity_names" "faultless (add_columns s)"
    "keeps_tables {''inverter_identity''} s (add_columns s)" "sc_indexes (add_columns s) = sc_indexes s"
    "sc_version (add_columns s) = sc_version s"
proof -
  have "faultless s' \<and> has_columns s' ''inverter_identity'' (rev (map co_Name cs) @ names) \<and>
      keeps_tables {''inverter_identity''} s s' \<and> sc_indexes s' = sc_indexes s \<and> sc_version s' = sc_version s"
    if "s' = foldl (\<lambda>s c. Exec_ignored [AddColumn ''inverter_identity'' c] s) s cs"
      "faultless s" "has_columns s ''inverter_identity'' names" for cs s s' names
    using that
  proof (induction cs arbitrary: s names)
    case (Cons c cs)
    from Cons.IH [OF _ add_column_has(2,1) [OF Cons.prems(2,3), of c]] add_column_has(3-5) [OF Cons.prems(2,3), of c]
    show ?case using Cons.prems(1) by (simp add: keeps_tables_def)
  qed (simp add: keeps_tables_def)
  from this [OF refl assms, of added_columns] show
    "has_columns (add_columns s) ''inverter_identity'' identity_names" "faultless (add_columns s)"
    "keeps_tables {''inverter_identity''} s (add_columns s)" "sc_indexes (add_columns s) = sc_indexes s"
    "sc_version (add_columns s) = sc_version s"
    by (auto simp: add_columns_def has_columns_def added_columns_def identity_names_def col_def split: option.splits)
qed

section \<open>A migration completes the schema\<close>

definition ready :: "int \<Rightarrow> schema \<Rightarrow> bool" where
  "ready k s \<longleftrightarrow> faultless s \<and> samples_ready s \<and> upgraded k s"

lemma ready_base:
  assumes "layout s" "faultless (tick s)"
  obtains s1 where "Exec base_schema (tick s) = (None, s1)" "ready (sc_version s) (add_columns s1)"
    "sc_version (add_columns s1) = sc_version s"
proof -
  obtain s1 where b: "Exec base_schema (tick s) = (None, s1)" "faultless s1"
    "has_columns s1 ''inverter_identity'' first_identity_names" "has_columns s1 ''sensor_samples'' sample_names"
    "is_index s1 ''idx_samples_name_time'' ''sensor_samples'' [(''sensor_name'', ''''), (''sampled_at'', '''')]"
    "keeps_tables {''inverter_identity'', ''sensor_samples''} s s1" "keeps_indexes {''idx_samples_name_time''} {} s s1"
    "sc_version s1 = sc_version s"
    using base_ready [of "tick s"] assms by (auto simp: layout_def keeps_tables_def keeps_indexes_def)
  note c = add_columns_ready [OF b(2,3)]
  have an: "analysed (add_columns s1) = analysed s" using base_frame(2) [OF b(1)] add_columns_frame(2) by simp
  have keep: "has_columns (add_columns s1) n = has_columns s n" "if_table (add_columns s1) n = if_table s n"
    if "n \<notin> {''inverter_identity'', ''sensor_samples''}" for n
    using keeps_columns [OF b(6) that] keeps_columns [OF c(3), of n] that by simp_all
  have ix: "is_index (add_columns s1) = is_index s1" "if_index (add_columns s1) = if_index s1"
    by (simp_all add: is_index_def if_index_def c(4) fun_eq_iff)
  have "samples_ready (add_columns s1)"
    using c(1) b(4,5) keeps_columns [OF c(3), of "''sensor_samples''"] by (simp add: samples_ready_def ix)
  moreover have "upgraded (sc_version s) (add_columns s1)"
    using assms(1) an
    by (auto simp: layout_def upgraded_def keep ix voltage_ready_def aggregates_ready_def time_index_def analysed_def
      intro!: keeps_index [OF b(7)] split: if_splits)
  ultimately show ?thesis using that [OF b(1)] c(2,5) b(8) by (simp add: ready_def)
qed

lemma ready_v2: "ready k s \<Longrightarrow> k < 2 \<Longrightarrow> ready 2 (upgrade_v2 s)"
proof -
  assume r: "ready k s" and k: "k < 2"
  then have "faultless s" "if_index s events_index ''voltage_events'' [(''phase'', ''''), (''start_time'', ''DESC'')]"
    by (simp_all add: ready_def upgraded_def)
  note u = upgrade_v2_ready [OF this]
  have keep: "has_columns (upgrade_v2 s) n = has_columns s n" "if_table (upgrade_v2 s) n = if_table s n"
    if "n \<notin> voltage_tables" for n
    using keeps_columns [OF u(5) that] by simp_all
  from r k u(1,3) show ?thesis
    by (auto simp: ready_def samples_ready_def upgraded_def keep intro: keeps_index [OF u(6)])
qed

lemma ready_v3: "ready 2 s \<Longrightarrow> ready 3 (upgrade_v3 s)"
proof -
  assume r: "ready 2 s"
  then have "faultless s" "if_table s ''sensor_samples_hourly'' (map co_Name aggregate_columns)"
    "if_table s ''sensor_samples_daily'' (map co_Name aggregate_columns)"
    by (simp_all add: ready_def upgraded_def)
  note u = upgrade_v3_ready [OF this]
  have keep: "has_columns (upgrade_v3 s) n = has_columns s n" if "n \<notin> aggregate_tables" for n
    using keeps_columns [OF u(5) that] by simp
  from r u show ?thesis
    by (simp add: ready_def samples_ready_def upgraded_def voltage_ready_def keep is_index_def if_index_def analysed_def)
qed

lemma ready_v4: "ready 3 s \<Longrightarrow> ready 4 (upgrade_v4 s) \<and> sc_version (upgrade_v4 s) = 4"
proof -
  assume r: "ready 3 s"
  then have "faultless s" "has_columns s ''sensor_samples'' sample_names"
    "if_index s ''idx_samples_time'' ''sensor_samples'' [(''sampled_at'', '''')]"
    by (simp_all add: ready_def samples_ready_def upgraded_def)
  note u = upgrade_v4_ready [OF this]
  have "analysed (upgrade_v4 s) = analysed s" by (simp add: upgrades_frame)
  with r u(2) show ?thesis
    by (auto simp: ready_def samples_ready_def upgraded_def voltage_ready_def aggregates_ready_def u(1) has_columns_def
      is_index_def analysed_def)
qed

lemma complete_sound: "complete s \<Longrightarrow> no_faults (sc_db s) \<Longrightarrow> sound_db (sc_db s)"
  by (simp add: complete_def upgraded_def voltage_ready_def no_faults_def sound_db_def)

lemma ready_zero: "ready k s \<Longrightarrow> ready 0 s"
  by (auto simp: ready_def upgraded_def voltage_ready_def aggregates_ready_def time_index_def if_table_def if_index_def
    split: if_splits)

text \<open>The version \<open>v\<close> that has been read is that of the file, or 0 when the query has failed.\<close>

lemma migrate_from:
  assumes "layout s" "faultless (tick s)"
  defines "v \<equiv> fst (SchemaVersion s)"
  shows "\<exists>s'. migrate s = (None, s') \<and> complete s' \<and> measured s' = measured s \<and>
    analysed s' = (if 2 \<le> v then analysed s else ([], 0, Some zero_cursor))"
proof -
  let ?v = v
  have v_cases: "v = sc_version s \<or> v = 0" by (auto simp: v_def SchemaVersion_def split: option.splits)
  obtain s1 where base0: "Exec base_schema (tick s) = (None, s1)" "ready (sc_version s) (add_columns s1)"
      "sc_version (add_columns s1) = sc_version s"
    using ready_base [OF assms(1,2)] by blast
  have base: "Exec base_schema (tick s) = (None, s1)" "ready ?v (add_columns s1)"
    using base0 v_cases ready_zero by auto
  define s2 where "s2 = add_columns s1"
  define s3 where "s3 = (if ?v < 2 then upgrade_v2 s2 else s2)"
  define s4 where "s4 = (if ?v < 3 then upgrade_v3 s3 else s3)"
  define s5 where "s5 = (if ?v < 4 then upgrade_v4 s4 else s4)"
  have v: "?v \<le> 4" using assms(1) v_cases by (auto simp: layout_def)
  have r3: "ready (max ?v 2) s3" using base(2) ready_v2 by (auto simp: s3_def s2_def max_def)
  have r4: "ready (max ?v 3) s4"
  proof (cases "?v < 3")
    case True
    then have "max ?v 2 = 2" "max ?v 3 = 3" by auto
    with r3 ready_v3 True show ?thesis by (simp add: s4_def)
  qed (use r3 in \<open>simp add: s4_def max_def\<close>)
  have r5: "ready 4 s5 \<and> sc_version s5 = 4"
  proof (cases "?v < 4")
    case True
    then have "max ?v 3 = 3" by simp
    with r4 ready_v4 True show ?thesis by (simp add: s5_def)
  next
    case False
    with v v_cases have "?v = 4" "sc_version s = 4" by auto
    with r4 base0(3) show ?thesis by (simp add: s5_def s4_def s3_def s2_def)
  qed
  have "SchemaVersion s = (v, tick s)" by (simp add: v_def SchemaVersion_def)
  then have run: "migrate s = (None, tick s5)"
    using base(1) by (simp add: migrate_def s5_def s4_def s3_def s2_def SchemaVersion_def [of "if _ then _ else _"] Let_def)
  have "complete (tick s5)"
    using r5 by (simp add: complete_def ready_def samples_ready_def upgraded_def voltage_ready_def aggregates_ready_def time_index_def)
  moreover have "measured (tick s5) = measured s"
    using base_frame(1) [OF base(1)] by (simp add: s5_def s4_def s3_def s2_def upgrades_frame add_columns_frame)
  moreover have "analysed (tick s5) = (if 2 \<le> ?v then analysed s else ([], 0, Some zero_cursor))"
  proof (cases "?v < 2")
    case True
    have "faultless s2" "if_index s2 events_index ''voltage_events'' [(''phase'', ''''), (''start_time'', ''DESC'')]"
      using base(2) True by (simp_all add: s2_def ready_def upgraded_def)
    with upgrade_v2_ready(4) True show ?thesis by (simp add: s5_def s4_def s3_def upgrades_frame)
  next
    case False
    with base_frame(2) [OF base(1)] show ?thesis by (simp add: s5_def s4_def s3_def s2_def upgrades_frame add_columns_frame)
  qed
  ultimately show ?thesis using run by blast
qed

lemma journal_layout: "layout ((tick s)\<lparr>sc_journal := m\<rparr>) = layout s"
proof -
  let ?s1 = "(tick s)\<lparr>sc_journal := m\<rparr>"
  have eq: "has_columns ?s1 = has_columns s" "is_index ?s1 = is_index s"
    by (simp_all add: has_columns_def is_index_def fun_eq_iff)
  then have "if_table ?s1 = if_table s" "if_index ?s1 = if_index s"
    by (simp_all add: if_table_def if_index_def fun_eq_iff)
  with eq show ?thesis
    by (simp add: layout_def upgraded_def voltage_ready_def aggregates_ready_def time_index_def)
qed

lemma migrate_ready:
  assumes "layout s" "faultless s"
  shows "\<exists>s'. migrate s = (None, s') \<and> complete s' \<and> measured s' = measured s \<and>
    analysed s' = (if 2 \<le> sc_version s then analysed s else ([], 0, Some zero_cursor))"
  using migrate_from [OF assms(1) faultless_tick [OF assms(2)]] assms(2) by (simp add: SchemaVersion_def)

lemma Open_ready:
  assumes "parseDSN mc dsn = Inr path" "mc_sqlOpen mc path = Inr s" "layout s" "no_faults (sc_db s)"
  shows "\<exists>s'. Open mc dsn = (Inr (), Some s') \<and> complete s' \<and> measured s' = measured s \<and>
    analysed s' = (if 2 \<le> sc_version s then analysed s else ([], 0, Some zero_cursor)) \<and>
    (\<exists>d. RunVoltageAnalysis now db_store (sc_db s') = (None, d))"
proof -
  let ?s1 = "(tick s)\<lparr>sc_journal := ''WAL''\<rparr>"
  have wal: "Exec [JournalMode ''WAL''] s = (None, ?s1)" using no_faults_faultless [OF assms(4)] by simp
  have "layout ?s1" using assms(3) journal_layout by metis
  moreover have ok: "no_faults (sc_db ?s1)" using assms(4) by (simp add: no_faults_def tick_def)
  then have "faultless ?s1" by (rule no_faults_faultless)
  ultimately obtain s' where m: "migrate ?s1 = (None, s')" "complete s'" "measured s' = measured ?s1"
      "analysed s' = (if 2 \<le> sc_version ?s1 then analysed ?s1 else ([], 0, Some zero_cursor))"
    using migrate_ready by blast
  have same: "measured ?s1 = measured s" "analysed ?s1 = analysed s"
    using tick_simps [of s] by (simp_all add: measured_def analysed_def)
  have "no_faults (sc_db s')" by (simp only: no_faults_measured [OF m(3)] ok)
  with m(2) have "sound_db (sc_db s')" by (rule complete_sound)
  then have "\<exists>d. RunVoltageAnalysis now db_store (sc_db s') = (None, d)"
    using db_reliable.run_succeeds by blast
  moreover have "Open mc dsn = (Inr (), Some s')" by (simp only: Open_def assms(1,2) wal m(1) sum.case prod.case option.case)
  moreover have "measured s' = measured s" "analysed s' = (if 2 \<le> sc_version s then analysed s else ([], 0, Some zero_cursor))"
    using m(3,4) by (simp_all add: same)
  ultimately show ?thesis using m(2) by blast
qed

text \<open>
  C8: Opening a database that any release of the program has left behind, without failing statements,
  succeeds and leaves the complete schema of version 4: all tables with all columns, the indexes and
  the row of the analysis cursor. Identity, samples and aggregates are as before. From version 2 on
  the voltage events and the cursor stay, before it the analysis starts over with the first sample.
  The next voltage analysis succeeds.
\<close>

theorem Open_upgrades:
  assumes "parseDSN mc dsn = Inr path" "mc_sqlOpen mc path = Inr s" "layout s" "no_faults (sc_db s)"
  shows "\<exists>s'. Open mc dsn = (Inr (), Some s') \<and> complete s' \<and> measured s' = measured s \<and>
    analysed s' = (if 2 \<le> sc_version s then analysed s else ([], 0, Some zero_cursor)) \<and>
    (\<exists>d. RunVoltageAnalysis now db_store (sc_db s') = (None, d))"
  using assms by (rule Open_ready)

text \<open>The file \<open>sqlite3_open\<close> makes: no tables, version 0.\<close>

definition new_file :: "(nat \<Rightarrow> goerror option) \<Rightarrow> schema" where
  "new_file faults = \<lparr>sc_version = 0, sc_journal = ''DELETE'', sc_tables = Map.empty, sc_indexes = Map.empty,
     sc_db = empty_db\<lparr>db_cursor := None, db_faults := faults\<rparr>\<rparr>"

definition demo_machine :: machine where
  "demo_machine = \<lparr>mc_UserHomeDir = Inr ''/home/u'', mc_MkdirAll = (\<lambda>_. None),
     mc_sqlOpen = (\<lambda>p. if p = ''/home/u/.goodwe/goodwe.db'' then Inr (new_file (\<lambda>_. None)) else Inl ErrUnsupported)\<rparr>"

lemma new_file_layout: "layout (new_file f)" "no_faults (sc_db (new_file (\<lambda>_. None)))"
  by (simp_all add: layout_def new_file_def no_faults_def if_table_def if_index_def upgraded_def)

lemma demo_path: "parseDSN demo_machine ''sqlite://~/.goodwe/goodwe.db'' = Inr ''/home/u/.goodwe/goodwe.db''"
  by code_simp

lemma Open_upgrades_witness:
  "\<exists>s'. Open demo_machine ''sqlite://~/.goodwe/goodwe.db'' = (Inr (), Some s') \<and> sc_version s' = 4"
proof -
  have "mc_sqlOpen demo_machine ''/home/u/.goodwe/goodwe.db'' = Inr (new_file (\<lambda>_. None))"
    by (simp add: demo_machine_def)
  from Open_upgrades [OF demo_path this new_file_layout] show ?thesis by (auto simp: complete_def)
qed

section \<open>Restarting on a complete schema\<close>

lemma created_there: "has_columns s n names \<Longrightarrow> created n cs constr s = tick s"
  by (auto simp: created_def has_columns_def split: option.splits)

lemma indexed_there: "is_index s i n cs \<Longrightarrow> indexed i n' cs' s = tick s"
  by (simp add: indexed_def is_index_def)

lemma add_there:
  "faultless s \<Longrightarrow> has_columns s n names \<Longrightarrow> co_Name c \<in> set names \<Longrightarrow> Exec_ignored [AddColumn n c] s = tick s"
  by (auto simp: Exec_ignored_def has_columns_def split: option.splits)

lemma ticks: "(tick ^^ n) s = s\<lparr>sc_db := (sc_db s)\<lparr>db_stmts := n + db_stmts (sc_db s)\<rparr>\<rparr>"
  by (induction n) (simp_all add: tick_def)

text \<open>
  Opening is idempotent: on a complete schema a migration changes no table, no index, no row and no
  version; it issues nine statements, the four \<open>ALTER TABLE\<close> among them fail as intended.
\<close>

theorem migrate_complete_idle:
  assumes "complete s" "faultless s"
  shows "migrate s = (None, s\<lparr>sc_db := (sc_db s)\<lparr>db_stmts := db_stmts (sc_db s) + 9\<rparr>\<rparr>)"
proof -
  have h: "has_columns s ''inverter_identity'' identity_names" "has_columns s ''sensor_samples'' sample_names"
    "is_index s ''idx_samples_name_time'' ''sensor_samples'' [(''sensor_name'', ''''), (''sampled_at'', '''')]" "sc_version s = 4"
    using assms(1) by (simp_all add: complete_def samples_ready_def)
  have base: "Exec base_schema (tick s) = (None, (tick ^^ 4) s)"
    using h assms(2) Exec_index [where s = "(tick ^^ 3) s" and n = "''sensor_samples''" and names = sample_names and qs = "[]"]
    by (simp add: base_schema_def Exec_create created_there indexed_there numeral_eq_Suc sample_names_def del: Exec.simps(2))
  have "add_columns ((tick ^^ 4) s) = (tick ^^ 8) s"
    using h(1) assms(2)
    by (simp add: add_columns_def added_columns_def add_there [where names = identity_names] numeral_eq_Suc
      identity_names_def col_def)
  then have "migrate s = (None, (tick ^^ 9) s)"
    using base assms(2) h(4) by (simp add: migrate_def SchemaVersion_def numeral_eq_Suc Let_def)
  then show ?thesis by (simp add: ticks add.commute)
qed

lemma migrate_complete_idle_witness:
  "\<exists>s s'. migrate (new_file (\<lambda>_. None)) = (None, s) \<and> migrate s = (None, s') \<and> sc_tables s' = sc_tables s"
proof -
  obtain s where s: "migrate (new_file (\<lambda>_. None)) = (None, s)" "complete s" "measured s = measured (new_file (\<lambda>_. None))"
    using migrate_ready [OF new_file_layout(1) no_faults_faultless [OF new_file_layout(2)]] by blast
  then have "faultless s" using no_faults_measured no_faults_faultless new_file_layout(2) by metis
  from migrate_complete_idle [OF s(2) this] s(1) show ?thesis by auto
qed

section \<open>What goes wrong when a statement fails\<close>

text \<open>
  C35: The error of the query for the version is dropped, and the version then counts as 0: on a
  database of any version, when only that query fails, the migration reports success, but all voltage
  events are gone and the analysis starts over with the first sample.
\<close>

theorem unread_version_drops_events:
  assumes "layout s" "fault s = Some err" "faultless (tick s)"
  shows "\<exists>s'. migrate s = (None, s') \<and> complete s' \<and> db_events (sc_db s') = [] \<and>
    db_cursor (sc_db s') = Some zero_cursor"
  using migrate_from [OF assms(1,3)] assms(2) by (auto simp: SchemaVersion_def analysed_def)

lemma unread_version_drops_events_witness:
  "\<exists>s s'. db_events (sc_db s) \<noteq> [] \<and> migrate s = (None, s') \<and> db_events (sc_db s') = []"
proof -
  let ?e = "\<lparr>ve_ID = 1, ve_Phase = ''L1'', ve_StartSampleID = 1, ve_StartTime = 0, ve_EndSampleID = None, ve_EndTime = None,
    ve_MinVoltage = NaN, ve_MaxVoltage = NaN, ve_AvgVoltage = NaN, ve_DurationSeconds = None\<rparr>"
  let ?f = "\<lambda>k. if k = 0 then Some ErrUnsupported else None"
  let ?s = "(new_file ?f)\<lparr>sc_db := (sc_db (new_file ?f))\<lparr>db_events := [?e]\<rparr>\<rparr>"
  have "layout ?s" by (simp add: layout_def new_file_def if_table_def if_index_def upgraded_def)
  moreover have "fault ?s = Some ErrUnsupported" "faultless (tick ?s)"
    by (simp_all add: fault_def faultless_def tick_def new_file_def empty_db_def)
  ultimately obtain s' where "migrate ?s = (None, s')" "db_events (sc_db s') = []"
    using unread_version_drops_events by blast
  then show ?thesis by (intro exI [of _ ?s] exI [of _ s']) simp
qed

text \<open>A database of version 2 or later without the table of the cursor stays without it.\<close>

definition cursor_lost :: "schema \<Rightarrow> bool" where
  "cursor_lost s \<longleftrightarrow> 2 \<le> sc_version s \<and> db_cursor (sc_db s) = None \<and> no_faults (sc_db s)"

lemma Exec_version_mono:
  assumes "\<forall>v. SetVersion v \<in> set qs \<longrightarrow> 2 \<le> v" "2 \<le> sc_version s"
  shows "2 \<le> sc_version (snd (Exec qs s))"
  using assms
proof (induction qs arbitrary: s)
  case (Cons q qs)
  have "2 \<le> sc_version s1" if "sql_effect q (tick s) = Inr s1" for s1
    using that Cons.prems by (cases q) (auto split: option.splits if_splits)
  with Cons show ?case by (simp split: option.splits sum.splits)
qed simp

lemma lost_stays: "cursor_lost s \<Longrightarrow> cursor_lost (snd (migrate s))"
proof -
  assume lost: "cursor_lost s"
  then have v: "SchemaVersion s = (sc_version s, tick s)" "\<not> sc_version s < 2"
    by (simp_all add: SchemaVersion_def cursor_lost_def fault_def no_faults_def)
  obtain r s' where m: "migrate s = (r, s')" by force
  have "measured s' = measured s" "analysed s' = analysed s"
    using migrate_keeps m lost by (simp_all add: cursor_lost_def fault_def no_faults_def)
  moreover have "2 \<le> sc_version s'"
  proof -
    have e: "2 \<le> sc_version (snd (Exec qs t))" if "\<forall>v. SetVersion v \<in> set qs \<longrightarrow> 2 \<le> v" "2 \<le> sc_version t" for qs t
      using Exec_version_mono that by blast
    have "2 \<le> sc_version (snd (Exec base_schema (tick s)))" by (rule e) (use v(2) in \<open>simp_all add: base_schema_def\<close>)
    moreover have "2 \<le> sc_version t \<Longrightarrow> 2 \<le> sc_version (add_columns t)" "2 \<le> sc_version t \<Longrightarrow> 2 \<le> sc_version (upgrade_v3 t)"
      "2 \<le> sc_version t \<Longrightarrow> 2 \<le> sc_version (upgrade_v4 t)" for t
      by (simp_all add: add_columns_def added_columns_def upgrade_v3_def upgrade_v4_def Exec_ignored_def e del: Exec.simps)
    ultimately show ?thesis using m v
      by (auto simp: migrate_def Let_def SchemaVersion_def [of "if _ then _ else _"] SchemaVersion_def [of "add_columns _"]
        SchemaVersion_def [of "upgrade_v4 _"] split: prod.splits option.splits if_splits)
  qed
  ultimately show "cursor_lost (snd (migrate s))"
    using lost m no_faults_measured [of s' s] by (simp add: cursor_lost_def analysed_def)
qed

lemma lost_forever: "cursor_lost s \<Longrightarrow> cursor_lost (((\<lambda>s. snd (migrate s)) ^^ n) s)"
  by (induction n) (simp_all add: lost_stays)

lemma lost_analysis: "cursor_lost s \<Longrightarrow> fst (RunVoltageAnalysis now db_store (sc_db s)) \<noteq> None"
  by (auto simp: cursor_lost_def RunVoltageAnalysis_def db_store_def GetVoltageAnalysisCursor_def query_sound split: prod.splits)

text \<open>How many statements a call issues.\<close>

lemma Exec_count:
  "fst (Exec qs s) = None \<Longrightarrow> db_stmts (sc_db (snd (Exec qs s))) = db_stmts (sc_db s) + length qs"
proof (induction qs arbitrary: s)
  case (Cons q qs)
  have one: "db_stmts (sc_db s1) = db_stmts (sc_db (tick s))" if "sql_effect q (tick s) = Inr s1" for s1
    using that by (cases q) (auto simp: drop_rows_def split: option.splits if_splits)
  from Cons.prems obtain s1 where s1: "fault s = None" "sql_effect q (tick s) = Inr s1" "fst (Exec qs s1) = None"
    by (auto split: option.splits sum.splits)
  with Cons.IH [OF s1(3)] one show ?case by (simp add: tick_def)
qed simp

lemma Exec_faultless: "faultless s \<Longrightarrow> faultless (snd (Exec qs s))"
proof (induction qs arbitrary: s)
  case (Cons q qs)
  then have t: "faultless (tick s)" by simp
  have "faultless s1" if "sql_effect q (tick s) = Inr s1" for s1
    using that t by (cases q) (auto simp: faultless_def drop_rows_def split: option.splits if_splits)
  with Cons t show ?case by (simp split: sum.splits)
qed simp

lemma add_columns_count: "db_stmts (sc_db (add_columns s)) = db_stmts (sc_db s) + 4"
proof -
  have "db_stmts (sc_db (Exec_ignored [AddColumn n c] s)) = Suc (db_stmts (sc_db s))" for n c s
    by (auto simp: Exec_ignored_def tick_def split: option.splits)
  then show ?thesis by (simp add: add_columns_def added_columns_def)
qed

lemma lost_upgrade:
  assumes "sc_version s < 2" "fst (Exec base_schema (tick s)) = None"
    and "db_faults (sc_db s) = (\<lambda>k. if k = db_stmts (sc_db s) + 10 then Some err else None)"
  obtains s' where "migrate s = (None, s')" "sc_version s' = 4" "db_cursor (sc_db s') = None"
proof -
  let ?n = "db_stmts (sc_db s)"
  define s1 where "s1 = snd (Exec base_schema (tick s))"
  define s2 where "s2 = add_columns s1"
  define s3 where "s3 = upgrade_v2 s2"
  have base: "Exec base_schema (tick s) = (None, s1)" using assms(2) by (simp add: s1_def prod_eq_iff)
  have "measured s2 = measured s" using base_frame(1) [OF base] by (simp add: s2_def add_columns_frame)
  then have f: "db_faults (sc_db s2) = (\<lambda>k. if k = ?n + 10 then Some err else None)"
    using assms(3) by (simp add: measured_def Let_def)
  have "db_stmts (sc_db s1) = ?n + 4" using Exec_count [OF assms(2)] by (simp add: s1_def tick_def base_schema_def del: Exec.simps)
  then have n: "db_stmts (sc_db s2) = ?n + 8" by (simp add: s2_def add_columns_count)
  have 3: "db_cursor (sc_db s3) = None" "db_stmts (sc_db s3) = ?n + 12"
    by (simp_all add: s3_def upgrade_v2_def Exec_ignored_def fault_def tick_def drop_rows_def f n)
  have "measured s3 = measured s2" by (simp add: s3_def upgrades_frame)
  then have "db_faults (sc_db s3) = db_faults (sc_db s2)" by (simp add: measured_def Let_def)
  then have "faultless s3" using f 3(2) by (simp add: faultless_def)
  then have "faultless (upgrade_v3 s3)" by (simp add: upgrade_v3_def Exec_ignored_def Exec_faultless del: Exec.simps)
  then have "sc_version (upgrade_v4 (upgrade_v3 s3)) = 4"
    using Exec_version [OF Exec_faultless] by (simp add: upgrade_v4_def Exec_ignored_def del: Exec.simps)
  moreover have "db_cursor (sc_db (upgrade_v4 (upgrade_v3 s3))) = None"
    using upgrades_frame(4) [of s3] upgrades_frame(5) [of "upgrade_v3 s3"] 3(1) by (simp add: analysed_def)
  moreover have "SchemaVersion s = (sc_version s, tick s)" using assms(3) by (simp add: SchemaVersion_def fault_def)
  then have "migrate s = (None, tick (upgrade_v4 (upgrade_v3 s3)))"
    using base assms(1) by (simp add: migrate_def s2_def s3_def Let_def SchemaVersion_def [of "upgrade_v4 _"])
  ultimately show ?thesis using that by simp
qed

definition mended :: "schema \<Rightarrow> schema" where
  "mended s = s\<lparr>sc_db := (sc_db s)\<lparr>db_faults := (\<lambda>_. None)\<rparr>\<rparr>"

text \<open>
  C36: When the creation of the cursor's table fails in the first start on a file older than version 2
  (and nothing else does), the start reports success and sets version 4 all the same. No later start,
  with nothing failing any more, creates the table, and from then on every voltage analysis fails.
\<close>

theorem failed_upgrade_permanent:
  assumes "sc_version s < 2" "fst (Exec base_schema (tick s)) = None"
    and "db_faults (sc_db s) = (\<lambda>k. if k = db_stmts (sc_db s) + 10 then Some err else None)"
  shows "\<exists>s'. migrate s = (None, s') \<and> sc_version s' = 4 \<and>
    fst (RunVoltageAnalysis now db_store (sc_db (((\<lambda>s. snd (migrate s)) ^^ n) (mended s')))) \<noteq> None"
proof -
  obtain s' where s': "migrate s = (None, s')" "sc_version s' = 4" "db_cursor (sc_db s') = None"
    using lost_upgrade [OF assms] by blast
  then have "cursor_lost (mended s')" by (simp add: cursor_lost_def mended_def no_faults_def)
  with s'(1,2) show ?thesis using lost_analysis [OF lost_forever] by blast
qed

lemma failed_upgrade_permanent_witness:
  "\<exists>s'. migrate (new_file (\<lambda>k. if k = 10 then Some ErrUnsupported else None)) = (None, s') \<and>
     fst (RunVoltageAnalysis 0 db_store (sc_db (((\<lambda>s. snd (migrate s)) ^^ 5) (mended s')))) \<noteq> None"
proof -
  let ?s = "new_file (\<lambda>k. if k = 10 then Some ErrUnsupported else None)"
  have "fst (Exec base_schema (tick ?s)) = None"
    by (simp add: base_schema_def new_file_def tick_def fault_def empty_db_def col_def column_names_def)
  with failed_upgrade_permanent [of ?s ErrUnsupported 0 5] show ?thesis
    by (auto simp: new_file_def empty_db_def)
qed

end
