(* ===== verification/Discovery.thy ===== *)
theory Discovery
  imports Inverter_Correct
begin

text \<open>
  Finding an inverter, \<open>discovery/discover.go\<close>: the UDP probe, the parser of the dongle's answer,
  the model check, \<open>Ping\<close> and \<open>Discover\<close>. The UDP socket is a parameter; \<open>Discover\<close> makes an
  inverter over the DTLS or the TCP transport on the network it is given.
\<close>

section \<open>The probe\<close>

record 'w udp =
  udp_Dial :: "string \<Rightarrow> 'w \<Rightarrow> (goerror + conn) \<times> 'w"
  udp_Close :: "conn \<Rightarrow> 'w \<Rightarrow> goerror option \<times> 'w"
  udp_SetDeadline :: "conn \<Rightarrow> 'w \<Rightarrow> goerror option \<times> 'w"
  udp_Write :: "conn \<Rightarrow> byte list \<Rightarrow> 'w \<Rightarrow> goerror option \<times> 'w"
  udp_Read :: "conn \<Rightarrow> 'w \<Rightarrow> (goerror + byte list) \<times> 'w"

definition probeMsg :: "byte list" where
  "probeMsg = map (\<lambda>c. of_nat (of_char c)) ''WIFIKIT-214028-READ''"

text \<open>The buffer takes 1024 bytes of the answer; the socket is closed on every path after dialling.\<close>

definition probe :: "'w udp \<Rightarrow> string \<Rightarrow> 'w \<Rightarrow> (goerror + string) \<times> 'w" where
  "probe net ip w =
     (case udp_Dial net (ip @ '':'' @ show_nat 48899) w of
        (Inl err, w1) \<Rightarrow> (Inl (wrap ''failed to dial UDP'' err), w1)
      | (Inr c, w1) \<Rightarrow>
     (case udp_SetDeadline net c w1 of (_, w2) \<Rightarrow>
      case udp_Write net c probeMsg w2 of
        (Some err, w3) \<Rightarrow> (Inl (wrap ''failed to write probe'' err), snd (udp_Close net c w3))
      | (None, w3) \<Rightarrow>
     (case udp_Read net c w3 of
        (Inl err, w4) \<Rightarrow> (Inl (wrap ''failed to read probe response'' err), snd (udp_Close net c w4))
      | (Inr bs, w4) \<Rightarrow> (Inr (bytes_string (take 1024 bs)), snd (udp_Close net c w4)))))"

section \<open>The answer\<close>

record probeResult =
  pr_Serial :: string
  pr_Transport :: string
  pr_DTLSPort :: int

text \<open>The first match of the pattern \<open>dtls_port:(\d+)\<close>: its group takes all digits that follow.\<close>

fun find_dtls_port :: "string \<Rightarrow> string option" where
  "find_dtls_port [] = None"
| "find_dtls_port (c # cs) =
     (if has_prefix ''dtls_port:'' (c # cs) \<and> takeWhile is_digit (drop 10 (c # cs)) \<noteq> []
      then Some (takeWhile is_digit (drop 10 (c # cs)))
      else find_dtls_port cs)"

definition extractSerial :: "string list \<Rightarrow> string" where
  "extractSerial parts =
     (if parts = [] then ''''
      else let lastPart = last parts
           in if length lastPart \<ge> 12 then lastPart else lastPart)"

definition parseProbeResponse :: "string \<Rightarrow> goerror + probeResult" where
  "parseProbeResponse resp =
     (if str_contains ''@busy'' resp
      then Inl (Errorf (''inverter busy, try again later: '' @ resp))
      else case find_dtls_port resp of
        Some digits \<Rightarrow>
          (case Atoi_digits digits of
             Inl err \<Rightarrow> Inl (wrap ''invalid dtls_port'' err)
           | Inr port \<Rightarrow>
               Inr \<lparr>pr_Serial = extractSerial (Split resp '',''), pr_Transport = ''dtls'',
                    pr_DTLSPort = port\<rparr>)
      | None \<Rightarrow>
          (let serial = extractSerial (Split resp '','')
           in if serial = ''''
              then Inl (Errorf (''could not extract serial from response: '' @ resp))
              else Inr \<lparr>pr_Serial = serial, pr_Transport = ''tcp'', pr_DTLSPort = 0\<rparr>))"

definition et_tags :: "string list" where
  "et_tags = [
     ''ETU'', ''ETL'', ''ETR'', ''BHN'', ''EHU'', ''BHU'', ''EHR'', ''BTU'',
     ''ESN'', ''EBN'', ''EMN'', ''SPN'', ''ERN'', ''ESC'', ''HLB'', ''HMB'', ''HBB'', ''EOA'',
     ''ETT'', ''HTA'', ''HUB'', ''AEB'', ''SPB'', ''CUB'', ''EUB'', ''HEB'', ''ERB'',
     ''BTT'', ''ETF'', ''ARB'', ''URB'', ''EBR'', ''NAH'',
     ''AES'', ''HHI'', ''ABP'', ''EHB'', ''HSB'', ''HUA'', ''CUA'',
     ''ETC'', ''BTC'', ''BTN'',
     ''KET'', ''KEU'']"

definition isETModel :: "string \<Rightarrow> bool" where
  "isETModel serial = list_ex (\<lambda>tag. str_contains tag serial) et_tags"

section \<open>Ping and Discover\<close>

definition Ping :: "'w udp \<Rightarrow> string \<Rightarrow> 'w \<Rightarrow> bool \<times> 'w" where
  "Ping net ip w =
     (case probe net ip w of (r, w') \<Rightarrow> (case r of Inl _ \<Rightarrow> False | Inr _ \<Rightarrow> True, w'))"

text \<open>The inverter that \<open>Discover\<close> returns, over one of the two transports.\<close>

datatype 'w discovered =
    OverDTLS "(dtlsTransport \<times> 'w) inverter"
  | OverTCP "(tcpTransport \<times> 'w) inverter"

definition transport_for ::
    "'w network \<Rightarrow> string \<Rightarrow> probeResult \<Rightarrow> 'w \<Rightarrow> goerror + 'w discovered" where
  "transport_for net ip pr w =
     (if pr_Transport pr = ''dtls''
      then Inr (OverDTLS (NewWithTransport (pr_Serial pr)
             (dtls_transport net, (NewDTLSTransport ip (pr_DTLSPort pr), w))))
      else if pr_Transport pr = ''tcp''
      then Inr (OverTCP (NewWithTransport (pr_Serial pr)
             (tcp_transport net, (NewTCPTransport ip 502, w))))
      else Inl (Errorf (Error ErrUnsupported @ '': serial='' @ pr_Serial pr @ '': unknown transport ''
             @ [CHR 0x22] @ pr_Transport pr @ [CHR 0x22])))"

definition Discover ::
    "'w udp \<Rightarrow> 'w network \<Rightarrow> string \<Rightarrow> 'w \<Rightarrow> (goerror + 'w discovered) \<times> 'w" where
  "Discover udp net ip w =
     (case probe udp ip w of
        (Inl err, w1) \<Rightarrow> (Inl (wrap ''discovery failed'' err), w1)
      | (Inr resp, w1) \<Rightarrow>
     (case parseProbeResponse resp of
        Inl err \<Rightarrow> (Inl (wrap ''discovery failed'' err), w1)
      | Inr pr \<Rightarrow>
          if \<not> isETModel (pr_Serial pr)
          then (Inl (Errorf (Error ErrUnsupported @ '': serial='' @ pr_Serial pr
                  @ '': not a recognized ET series inverter'')), w1)
          else (transport_for net ip pr w1, w1)))"

section \<open>Splitting at commas\<close>

lemma cut_at_None: "cut_at [c] s = None \<longleftrightarrow> c \<notin> set s"
  by (induction s) auto

lemma last_SplitN:
  "length s \<le> n \<Longrightarrow> last (SplitN s [c] (Suc n)) = rev (takeWhile (\<lambda>x. x \<noteq> c) (rev s))"
proof (induction n arbitrary: s)
  case (Suc n)
  show ?case
  proof (cases "cut_at [c] s")
    case None
    then have "\<forall>x \<in> set (rev s). x \<noteq> c" by (auto simp: cut_at_None)
    then have "takeWhile (\<lambda>x. x \<noteq> c) (rev s) = rev s"
      by (simp only: takeWhile_eq_all_conv)
    then have "rev (takeWhile (\<lambda>x. x \<noteq> c) (rev s)) = s"
      by (simp only: rev_rev_ident)
    with None show ?thesis by (simp only: SplitN.simps option.case last.simps if_True simp_thms)
  next
    case (Some ab)
    obtain a b where ab: "ab = (a, b)" by (cases ab)
    then have s: "s = a @ c # b" using cut_at_Some [of "[c]" s a b] Some by simp
    then have "last (SplitN b [c] (Suc n)) = rev (takeWhile (\<lambda>x. x \<noteq> c) (rev b))"
      using Suc.prems by (intro Suc.IH) simp
    moreover have "takeWhile (\<lambda>x. x \<noteq> c) (rev s) = takeWhile (\<lambda>x. x \<noteq> c) (rev b)"
      unfolding s by (simp add: takeWhile_tail)
    ultimately show ?thesis
      using Some ab SplitN_nonempty by simp
  qed
qed simp

lemma extractSerial_Split:
  "extractSerial (Split resp '','') = rev (takeWhile (\<lambda>x. x \<noteq> CHR '','') (rev resp))"
  using last_SplitN [of resp "length resp" "CHR '',''"] SplitN_nonempty
  by (simp add: extractSerial_def Split_def Let_def)

lemma serial_of_answer:
  "CHR '','' \<notin> set serial \<Longrightarrow> extractSerial (Split (pre @ '','' @ serial) '','') = serial"
proof -
  assume "CHR '','' \<notin> set serial"
  then have "takeWhile (\<lambda>x. x \<noteq> CHR '','') (rev serial @ CHR '','' # rev pre) = rev serial"
    by (subst takeWhile_append2) auto
  then show ?thesis by (simp add: extractSerial_Split)
qed

section \<open>Properties\<close>

lemma find_dtls_port_skip:
  "CHR ''d'' \<notin> set pre \<Longrightarrow> find_dtls_port (pre @ s) = find_dtls_port s"
  by (induction pre) auto

lemma find_dtls_port_None:
  "\<not> str_contains ''dtls_port:'' s \<Longrightarrow> find_dtls_port s = None"
  by (induction s) (auto split: if_splits)

lemma takeWhile_digits:
  "list_all is_digit ds \<Longrightarrow> \<not> is_digit c \<Longrightarrow> takeWhile is_digit (ds @ c # rest) = ds"
  by (induction ds) simp_all

lemma port_answer:
  "find_dtls_port (''dongle@sn,dtls_port:'' @ show_nat n @ '','' @ serial) = Some (show_nat n)"
proof -
  have "takeWhile is_digit (show_nat n @ CHR '','' # serial) = show_nat n"
    by (rule takeWhile_digits [OF show_nat_digits]) (simp add: is_digit_def)
  then show ?thesis
    by (simp add: show_nat_nonempty)
qed

lemma not_digit: "\<not> is_digit c \<Longrightarrow> c \<notin> set (show_nat n)"
  using show_nat_digits [of n] by (auto simp: list_all_iff)

lemma busy_answer:
  "str_contains ''@busy'' (''dongle@sn,dtls_port:'' @ show_nat n @ '','' @ serial)
     \<longleftrightarrow> str_contains ''@busy'' serial"
  "str_contains ''@busy'' (''ccm@sn,ccm@sn,'' @ serial) \<longleftrightarrow> str_contains ''@busy'' serial"
  by (simp_all add: str_contains_skip not_digit is_digit_def)

lemma dtls_answer: "str_contains ''dtls_port:'' (''ccm@sn,ccm@sn,'' @ serial)
     \<longleftrightarrow> str_contains ''dtls_port:'' serial"
  by simp

lemma parse_dtls_answer:
  assumes "CHR '','' \<notin> set serial" "\<not> str_contains ''@busy'' serial" "n < 2 ^ 63"
  shows "parseProbeResponse (''dongle@sn,dtls_port:'' @ show_nat n @ '','' @ serial)
           = Inr \<lparr>pr_Serial = serial, pr_Transport = ''dtls'', pr_DTLSPort = int n\<rparr>"
proof -
  let ?r = "''dongle@sn,dtls_port:'' @ show_nat n @ '','' @ serial"
  have "extractSerial (Split ?r '','') = serial"
    using serial_of_answer [OF assms(1), of "''dongle@sn,dtls_port:'' @ show_nat n"]
    by (simp only: append_assoc)
  then show ?thesis
    unfolding parseProbeResponse_def port_answer
    using busy_answer(1) [of n serial] assms(2) Atoi_show_nat [OF assms(3)] by simp
qed

lemma parse_tcp_answer:
  assumes "CHR '','' \<notin> set serial" "\<not> str_contains ''@busy'' serial"
    and "\<not> str_contains ''dtls_port:'' serial" "serial \<noteq> ''''"
  shows "parseProbeResponse (''ccm@sn,ccm@sn,'' @ serial)
           = Inr \<lparr>pr_Serial = serial, pr_Transport = ''tcp'', pr_DTLSPort = 0\<rparr>"
proof -
  let ?t = "''ccm@sn,ccm@sn,'' @ serial"
  have "find_dtls_port ?t = None"
    using dtls_answer [of serial] assms(3) by (intro find_dtls_port_None) simp
  moreover have "extractSerial (Split ?t '','') = serial"
    using serial_of_answer [OF assms(1), of "''ccm@sn,ccm@sn''"] by simp
  ultimately show ?thesis
    unfolding parseProbeResponse_def
    using busy_answer(2) [of serial] assms(2,4) by simp
qed

text \<open>
  Both documented answers of the dongle parse to what they say: a DTLS answer to the serial
  number and the port it names, a TCP answer to the serial number, for every serial number without
  a comma that does not itself look like a busy flag or a port.
\<close>

theorem probe_answer_round_trip:
  assumes "CHR '','' \<notin> set serial" "\<not> str_contains ''@busy'' serial"
    and "\<not> str_contains ''dtls_port:'' serial" "serial \<noteq> ''''" "n < 2 ^ 63"
  shows "parseProbeResponse (''dongle@sn,dtls_port:'' @ show_nat n @ '','' @ serial)
           = Inr \<lparr>pr_Serial = serial, pr_Transport = ''dtls'', pr_DTLSPort = int n\<rparr> \<and>
         parseProbeResponse (''ccm@sn,ccm@sn,'' @ serial)
           = Inr \<lparr>pr_Serial = serial, pr_Transport = ''tcp'', pr_DTLSPort = 0\<rparr>"
  using parse_dtls_answer [OF assms(1,2,5)] parse_tcp_answer [OF assms(1-4)] by simp

lemma probe_answer_round_trip_witness:
  "parseProbeResponse ''dongle@sn,dtls_port:8899,9010KETU218W0001''
     = Inr \<lparr>pr_Serial = ''9010KETU218W0001'', pr_Transport = ''dtls'', pr_DTLSPort = 8899\<rparr>"
proof -
  have "show_nat 8899 = ''8899''" by (simp add: show_nat.simps digit_def char_of_def bit_simps)
  then show ?thesis
    using probe_answer_round_trip [of "''9010KETU218W0001''" 8899] by simp
qed

lemma parsed_transport:
  "parseProbeResponse resp = Inr pr \<Longrightarrow>
   \<not> str_contains ''@busy'' resp \<and>
   (pr_Transport pr = ''dtls'' \<and> find_dtls_port resp \<noteq> None \<or>
    pr_Transport pr = ''tcp'' \<and> find_dtls_port resp = None \<and> pr_Serial pr \<noteq> '''')"
  by (auto simp: parseProbeResponse_def Let_def split: if_splits option.splits sum.splits)

text \<open>
  C28: An inverter found by \<open>Discover\<close> belongs to the answer of the probe: the dongle was not busy,
  the serial number in the answer is that of an ET model, and the inverter carries it over a fresh,
  unconnected transport: DTLS on the port named in the answer when it names one, otherwise TCP on
  port 502 with a serial number that is not empty. The branch for an unknown transport is never
  taken.
\<close>

theorem Discover_sound:
  assumes "Discover udp net ip w = (Inr found, w')"
  shows "\<exists>resp pr. probe udp ip w = (Inr resp, w') \<and> parseProbeResponse resp = Inr pr \<and>
    \<not> str_contains ''@busy'' resp \<and> isETModel (pr_Serial pr) \<and>
    (find_dtls_port resp \<noteq> None \<and>
       found = OverDTLS (NewWithTransport (pr_Serial pr)
               (dtls_transport net, (NewDTLSTransport ip (pr_DTLSPort pr), w'))) \<or>
     find_dtls_port resp = None \<and> pr_Serial pr \<noteq> '''' \<and>
       found = OverTCP (NewWithTransport (pr_Serial pr)
               (tcp_transport net, (NewTCPTransport ip 502, w'))))"
proof -
  obtain resp pr where r: "probe udp ip w = (Inr resp, w')" "parseProbeResponse resp = Inr pr"
      "isETModel (pr_Serial pr)" "transport_for net ip pr w' = Inr found"
    using assms by (auto simp: Discover_def split: prod.splits sum.splits if_splits)
  from parsed_transport [OF r(2)] r show ?thesis
    by (intro exI [of _ resp] exI [of _ pr]) (auto simp: transport_for_def)
qed

definition demo_udp :: "string \<Rightarrow> 'w udp" where
  "demo_udp answer = \<lparr>udp_Dial = \<lambda>a w. (Inr 0, w), udp_Close = \<lambda>c w. (None, w),
     udp_SetDeadline = \<lambda>c w. (None, w), udp_Write = \<lambda>c bs w. (None, w),
     udp_Read = \<lambda>c w. (Inr (ascii_bytes answer), w)\<rparr>"

lemma probe_demo:
  "list_all printable answer \<Longrightarrow> length answer \<le> 1024 \<Longrightarrow> probe (demo_udp answer) ip w = (Inr answer, w)"
proof -
  assume "list_all printable answer" "length answer \<le> 1024"
  then have "bytes_string (take 1024 (ascii_bytes answer)) = answer"
    using bytes_string_ascii [of answer] by (simp add: ascii_bytes_def)
  then show ?thesis by (simp add: probe_def demo_udp_def)
qed

lemma Discover_tcp:
  assumes "probe udp ip w = (Inr (''ccm@sn,ccm@sn,'' @ serial), w')"
    and "CHR '','' \<notin> set serial" "\<not> str_contains ''@busy'' serial"
    and "\<not> str_contains ''dtls_port:'' serial" "isETModel serial"
  shows "Discover udp net ip w = (Inr (OverTCP (NewWithTransport serial
           (tcp_transport net, (NewTCPTransport ip 502, w')))), w')"
proof -
  have "serial \<noteq> ''''"
    using assms(5) by (auto simp: isETModel_def et_tags_def)
  then show ?thesis
    using assms parse_tcp_answer [OF assms(2-4)] by (simp add: Discover_def transport_for_def)
qed

lemma Discover_sound_witness:
  "\<exists>resp pr. probe (demo_udp ''ccm@sn,ccm@sn,9010KETU218W0001'') ''inv'' ([] :: byte list)
     = (Inr resp, []) \<and>
     parseProbeResponse resp = Inr pr \<and> isETModel (pr_Serial pr)"
proof -
  let ?a = "''ccm@sn,ccm@sn,9010KETU218W0001''"
  have pr: "probe (demo_udp ?a) ''inv'' [] = (Inr ?a, [])"
    by (rule probe_demo) (simp_all add: printable_def)
  have parse: "parseProbeResponse ?a =
      Inr \<lparr>pr_Serial = ''9010KETU218W0001'', pr_Transport = ''tcp'', pr_DTLSPort = 0\<rparr>"
    by (simp add: parseProbeResponse_def extractSerial_Split)
  have model: "isETModel ''9010KETU218W0001''"
    by (simp add: isETModel_def et_tags_def)
  have "Discover (demo_udp ?a) (device_network id) ''inv'' [] =
      (Inr (OverTCP (NewWithTransport ''9010KETU218W0001''
           (tcp_transport (device_network id), (NewTCPTransport ''inv'' 502, [])))), [])"
    by (simp add: Discover_def pr parse model transport_for_def)
  from Discover_sound [OF this] show ?thesis by blast
qed

end
