(* ===== verification/Go_Time.thy ===== *)
theory Go_Time
  imports Store "HOL-Library.Monad_Syntax"
begin

text \<open>
  Times with a zone, \<open>time.Parse(time.RFC3339, s)\<close>, and the integers of \<open>strconv\<close>, as far as the
  request handlers use them. A parsed time keeps its offset from UTC in seconds: \<open>Format\<close> writes it.
\<close>

section \<open>Integers\<close>

text \<open>\<open>strconv.Atoi(s)\<close> and \<open>strconv.ParseInt(s, 10, 64)\<close>: an optional sign, digits, 64 bits.\<close>

definition parse_digits :: "string \<Rightarrow> nat option" where
  "parse_digits s = (if s = [] \<or> \<not> list_all is_digit s then None else Some (digits_value 0 s))"

definition ParseInt :: "string \<Rightarrow> int option" where
  "ParseInt s =
     (case s of
        [] \<Rightarrow> None
      | c # cs \<Rightarrow>
          (case (if c = CHR ''-'' \<or> c = CHR ''+'' then parse_digits cs else parse_digits s) of
             None \<Rightarrow> None
           | Some n \<Rightarrow>
               (if c = CHR ''-'' then if n \<le> 2 ^ 63 then Some (- int n) else None
                else if n < 2 ^ 63 then Some (int n) else None)))"

lemma ParseInt_show_nat: "n < 2 ^ 63 \<Longrightarrow> ParseInt (show_nat n) = Some (int n)"
proof -
  assume n: "n < 2 ^ 63"
  obtain c cs where c: "show_nat n = c # cs" using show_nat_nonempty by (cases "show_nat n") auto
  have "is_digit c" using show_nat_digits [of n] by (simp add: c)
  then have "c \<noteq> CHR ''-''" "c \<noteq> CHR ''+''" by (auto simp: is_digit_def)
  then show ?thesis
    using n show_nat_digits [of n] digits_value_show_nat [of n] by (simp add: ParseInt_def parse_digits_def c)
qed

section \<open>Times with a zone\<close>

record zoned =
  z_instant :: gotime_ns
  z_offset :: int

definition utc :: "gotime_ns \<Rightarrow> zoned" where
  "utc t = \<lparr>z_instant = t, z_offset = 0\<rparr>"

text \<open>Civil dates, and back to days since 1970-01-01.\<close>

definition leap :: "int \<Rightarrow> bool" where
  "leap y \<longleftrightarrow> y mod 4 = 0 \<and> (y mod 100 \<noteq> 0 \<or> y mod 400 = 0)"

definition days_in :: "int \<Rightarrow> int \<Rightarrow> int" where
  "days_in m y = (if m = 2 then if leap y then 29 else 28 else if m \<in> {4, 6, 9, 11} then 30 else 31)"

definition days_from_civil :: "int \<Rightarrow> int \<Rightarrow> int \<Rightarrow> int" where
  "days_from_civil y m d =
     (let y1 = (if m \<le> 2 then y - 1 else y); era = y1 div 400; yoe = y1 mod 400;
          doy = (153 * ((m + 9) mod 12) + 2) div 5 + d - 1
      in era * 146097 + yoe * 365 + yoe div 4 - yoe div 100 + doy - 719468)"

text \<open>\<open>getnum\<close>: two digits, or one when the field is not fixed.\<close>

definition digit_val :: "char \<Rightarrow> int" where
  "digit_val c = int (of_char c) - 48"

fun getnum :: "bool \<Rightarrow> string \<Rightarrow> (int \<times> string) option" where
  "getnum fixed [] = None"
| "getnum fixed [a] = (if is_digit a \<and> \<not> fixed then Some (digit_val a, []) else None)"
| "getnum fixed (a # b # s) =
     (if \<not> is_digit a then None
      else if is_digit b then Some (10 * digit_val a + digit_val b, s)
      else if fixed then None else Some (digit_val a, b # s))"

fun expect :: "char \<Rightarrow> string \<Rightarrow> string option" where
  "expect c [] = None"
| "expect c (x # s) = (if x = c then Some s else None)"

definition check :: "bool \<Rightarrow> unit option" where
  "check b = (if b then Some () else None)"

definition get_year :: "string \<Rightarrow> (int \<times> string) option" where
  "get_year s =
     (if length s < 4 \<or> \<not> list_all is_digit (take 4 s) then None
      else Some (int (digits_value 0 (take 4 s)), drop 4 s))"

text \<open>Fractional seconds are accepted although the layout has none; digits after the ninth are ignored.\<close>

definition get_fraction :: "string \<Rightarrow> int \<times> string" where
  "get_fraction s =
     (case s of
        c # d # _ \<Rightarrow>
          if (c = CHR ''.'' \<or> c = CHR '','') \<and> is_digit d
          then let ds = takeWhile is_digit (tl s); used = take 9 ds in
               (int (digits_value 0 used) * 10 ^ (9 - length used), dropWhile is_digit (tl s))
          else (0, s)
      | _ \<Rightarrow> (0, s))"

text \<open>\<open>Z\<close>, or a sign, hours up to 24 and minutes up to 60.\<close>

definition get_zone :: "string \<Rightarrow> (int \<times> string) option" where
  "get_zone s =
     (case s of
        [] \<Rightarrow> None
      | c # r \<Rightarrow>
          if c = CHR ''Z'' then Some (0, r)
          else do {
            (hh, r1) \<leftarrow> getnum True r;
            r2 \<leftarrow> expect CHR '':'' r1;
            (mm, r3) \<leftarrow> getnum True r2;
            check (hh \<le> 24 \<and> mm \<le> 60 \<and> (c = CHR ''+'' \<or> c = CHR ''-''));
            Some ((if c = CHR ''-'' then - 1 else 1) * (hh * 60 + mm) * 60, r3)
          })"

definition parse_RFC3339 :: "string \<Rightarrow> zoned option" where
  "parse_RFC3339 s = do {
     (year, s) \<leftarrow> get_year s;
     s \<leftarrow> expect CHR ''-'' s;
     (month, s) \<leftarrow> getnum True s;
     check (1 \<le> month \<and> month \<le> 12);
     s \<leftarrow> expect CHR ''-'' s;
     (day, s) \<leftarrow> getnum True s;
     s \<leftarrow> expect CHR ''T'' s;
     (hour, s) \<leftarrow> getnum False s;
     check (hour < 24);
     s \<leftarrow> expect CHR '':'' s;
     (minute, s) \<leftarrow> getnum True s;
     check (minute < 60);
     s \<leftarrow> expect CHR '':'' s;
     (sec, s) \<leftarrow> getnum True s;
     check (sec < 60);
     let (ns, s) = get_fraction s;
     (offset, s) \<leftarrow> get_zone s;
     check (s = [] \<and> 1 \<le> day \<and> day \<le> days_in month year);
     Some \<lparr>z_instant = (days_from_civil year month day * 86400 + hour * 3600 + minute * 60 + sec - offset) * 10 ^ 9 + ns,
           z_offset = offset\<rparr>
   }"

text \<open>\<open>t.Format(time.RFC3339)\<close> in the zone of the time.\<close>

definition format_RFC3339 :: "zoned \<Rightarrow> string" where
  "format_RFC3339 z =
     (let local_text = RFC3339 (z_instant z + z_offset z * 10 ^ 9); m = \<bar>z_offset z\<bar> div 60 in
      if z_offset z = 0 then local_text
      else butlast local_text @ (if z_offset z < 0 then ''-'' else ''+'') @ pad 2 (m div 60) @ '':'' @ pad 2 (m mod 60))"

text \<open>Examples, as a check of the model.\<close>

lemma parse_examples:
  "parse_RFC3339 ''2026-03-01T00:00:00Z'' = Some (utc (20513 * 86400 * 10 ^ 9))"
  "parse_RFC3339 ''2026-03-01T7:30:00.25+01:30'' =
     Some \<lparr>z_instant = (20513 * 86400 + 6 * 3600) * 10 ^ 9 + 250000000, z_offset = 5400\<rparr>"
  "parse_RFC3339 ''2026-02-29T00:00:00Z'' = None" "parse_RFC3339 ''2024-02-29T00:00:00Z'' \<noteq> None"
  "parse_RFC3339 ''2026-03-01'' = None" "parse_RFC3339 '''' = None"
  "format_RFC3339 \<lparr>z_instant = 20513 * 86400 * 10 ^ 9, z_offset = - 5400\<rparr> = ''2026-02-28T22:30:00-01:30''"
  by code_simp+

end
