(* ===== verification/Api.thy ===== *)
theory Api
  imports Daemon Go_Time
begin

text \<open>
  The REST handlers, \<open>pkg/api/handler.go\<close>. A handler maps the handler's fields, the time, the request
  and the state of the stores to a response: a status code and a JSON value. The JSON text itself
  and the handler's log messages are left out; the routes and the middleware around the handlers are
  in the theory Http.
\<close>

section \<open>Interfaces\<close>

fun connState_String :: "connState \<Rightarrow> string" where
  "connState_String InverterStateDisabled = ''disabled''"
| "connState_String InverterStateDisconnected = ''disconnected''"
| "connState_String InverterStateConnecting = ''connecting''"
| "connState_String InverterStateConnected = ''connected''"
| "connState_String InverterStateFailed = ''failed''"

text \<open>What the three calls on the daemon return; no handler makes the same call twice.\<close>

record daemonStatus =
  ds_InverterState :: connState
  ds_ConnError :: "goerror option"
  ds_VerificationError :: "goerror option"

record 'd sensorStore =
  ss_GetInverterIdentity :: "'d \<Rightarrow> (goerror + inverterIdentity option) \<times> 'd"
  ss_QueryRawSamples :: "string \<Rightarrow> zoned \<Rightarrow> zoned \<Rightarrow> int \<Rightarrow> 'd \<Rightarrow> (goerror + sample list) \<times> 'd"
  ss_LatestSample :: "string \<Rightarrow> 'd \<Rightarrow> (goerror + sample option) \<times> 'd"
  ss_LastSampleTime :: "'d \<Rightarrow> (goerror + gotime_ns option) \<times> 'd"
  ss_SampleAt :: "string \<Rightarrow> zoned \<Rightarrow> 'd \<Rightarrow> (goerror + sample option) \<times> 'd"
  ss_QueryAggregatedSamples ::
    "string \<Rightarrow> zoned \<Rightarrow> zoned \<Rightarrow> string \<Rightarrow> 'd \<Rightarrow> (goerror + aggregatedSample list) \<times> 'd"

record 'd voltageAnalysisStore =
  va_QueryVoltageEvents :: "int \<Rightarrow> int \<Rightarrow> 'd \<Rightarrow> (goerror + voltageEvent list \<times> int) \<times> 'd"
  va_GetVoltageAnalysisCursor :: "'d \<Rightarrow> (goerror + voltageCursor) \<times> 'd"

record ('i, 'd) handler =
  hd_inverter :: "'i inverterOps option"
  hd_daemon :: "daemonStatus option"
  hd_store :: "'d sensorStore option"
  hd_analysisStore :: "'d voltageAnalysisStore option"
  hd_pollInterval :: int
  hd_inverterIP :: string
  hd_daemonVersion :: string

text \<open>The path value of the sensor, and \<open>Query().Get\<close>: empty when a parameter is absent.\<close>

record request =
  rq_sensor :: string
  rq_query :: "string \<Rightarrow> string"

section \<open>Responses\<close>

datatype json = JNull | JBool bool | JInt int | JNum f64 | JString string | JTime gotime_ns | JAny sval
  | JArray "json list" | JObject "(string \<times> json) list"

record response =
  rs_status :: int
  rs_body :: json

definition StatusOK :: int where "StatusOK = 200"
definition StatusBadRequest :: int where "StatusBadRequest = 400"
definition StatusInternalServerError :: int where "StatusInternalServerError = 500"
definition StatusNotImplemented :: int where "StatusNotImplemented = 501"
definition StatusServiceUnavailable :: int where "StatusServiceUnavailable = 503"

definition writeJSON :: "int \<Rightarrow> json \<Rightarrow> response" where
  "writeJSON status v = \<lparr>rs_status = status, rs_body = v\<rparr>"

definition writeJSONError :: "int \<Rightarrow> string \<Rightarrow> response" where
  "writeJSONError status msg = writeJSON status (JObject [(''error'', JString msg)])"

text \<open>Optional fields: \<open>omitempty\<close> drops nil pointers and empty strings; other nil pointers are null.\<close>

definition opt_field :: "string \<Rightarrow> ('a \<Rightarrow> json) \<Rightarrow> 'a option \<Rightarrow> (string \<times> json) list" where
  "opt_field name f x = (case x of None \<Rightarrow> [] | Some v \<Rightarrow> [(name, f v)])"

definition str_field :: "string \<Rightarrow> string \<Rightarrow> (string \<times> json) list" where
  "str_field name s = (if s = [] then [] else [(name, JString s)])"

definition nullable :: "('a \<Rightarrow> json) \<Rightarrow> 'a option \<Rightarrow> json" where
  "nullable f x = (case x of None \<Rightarrow> JNull | Some v \<Rightarrow> f v)"

definition json_sample :: "sample \<Rightarrow> json" where
  "json_sample s = JObject (opt_field ''value'' JNum (sm_Value s) @ opt_field ''value_text'' JString (sm_ValueText s)
     @ [(''unit'', JString (sm_Unit s)), (''sampled_at'', JTime (sm_SampledAt s))])"

definition json_event :: "voltageEvent \<Rightarrow> json" where
  "json_event e = JObject ([(''id'', JInt (ve_ID e)), (''phase'', JString (ve_Phase e)),
      (''start_time'', JTime (ve_StartTime e))] @ opt_field ''end_time'' JTime (ve_EndTime e)
    @ [(''min_voltage'', JNum (ve_MinVoltage e)), (''max_voltage'', JNum (ve_MaxVoltage e)),
       (''avg_voltage'', JNum (ve_AvgVoltage e))] @ opt_field ''duration_seconds'' JInt (ve_DurationSeconds e))"

section \<open>Health\<close>

definition json_state :: "bool \<Rightarrow> string \<Rightarrow> json" where
  "json_state up err = JObject ((''connected'', JBool up) # str_field ''error'' err)"

definition health_of :: "daemonStatus option \<Rightarrow> bool \<Rightarrow> string \<times> json option" where
  "health_of ds has_inverter =
     (case ds of
        None \<Rightarrow> (''ok'', if has_inverter then Some (json_state True '''') else None)
      | Some d \<Rightarrow>
          (case ds_InverterState d of
             InverterStateDisabled \<Rightarrow> (''ok'', Some (json_state False ''''))
           | InverterStateDisconnected \<Rightarrow> (''degraded'', Some (json_state False ''disconnected, will retry''))
           | InverterStateConnecting \<Rightarrow> (''degraded'', Some (json_state False ''connecting to inverter...''))
           | InverterStateConnected \<Rightarrow>
               (case ds_VerificationError d of
                  Some err \<Rightarrow> (''degraded'', Some (json_state False (Error err)))
                | None \<Rightarrow> (''ok'', Some (json_state True '''')))
           | InverterStateFailed \<Rightarrow>
               (''degraded'', Some (json_state False
                 (case ds_ConnError d of Some err \<Rightarrow> Error err | None \<Rightarrow> ''inverter connection failed'')))))"

definition handleHealth :: "('i, 'd) handler \<Rightarrow> gotime_ns \<Rightarrow> response" where
  "handleHealth h now =
     (case health_of (hd_daemon h) (hd_inverter h \<noteq> None) of
        (status, inv_state) \<Rightarrow> writeJSON StatusOK (JObject
          ([(''status'', JString status), (''timestamp'', JString (RFC3339 now))]
           @ opt_field ''inverter'' (\<lambda>j. j) inv_state)))"

section \<open>Sensors\<close>

definition list_sensors :: "(string \<rightharpoonup> string list) \<Rightarrow> (string \<times> string) list" where
  "list_sensors groups = concat (map (\<lambda>cat. case groups cat of None \<Rightarrow> [] | Some names \<Rightarrow> map (\<lambda>n. (n, cat)) names)
     [''Main Telemetry'', ''Battery'', ''Meter'', ''MPPT''])"

text \<open>A nil slice is JSON null.\<close>

definition handleListSensors :: "string list \<Rightarrow> response" where
  "handleListSensors order =
     (let sensors = list_sensors (GetSensorNamesByBlock order) in
      writeJSON StatusOK (if sensors = [] then JNull else JArray (map (\<lambda>(n, cat).
        JObject [(''name'', JString n), (''category'', JString cat)]) sensors)))"

definition handleGetData :: "('i, 'd) handler \<Rightarrow> gotime_ns \<Rightarrow> request \<Rightarrow> 'i \<Rightarrow> (response \<times> 'i) outcome" where
  "handleGetData h now r i =
     (case hd_inverter h of
        None \<Rightarrow> Ret (writeJSONError StatusServiceUnavailable ''no inverter configured'', i)
      | Some I \<Rightarrow>
          if rq_sensor r = [] then Ret (writeJSONError StatusBadRequest ''sensor name is required'', i)
          else obind (io_ReadSensor I (rq_sensor r) i) (\<lambda>(res, i1). case res of
            Inl err \<Rightarrow> Ret (writeJSONError StatusInternalServerError (Error err), i1)
          | Inr sv \<Rightarrow> Ret (writeJSON StatusOK (JObject
              [(''name'', JString (sv_Name sv)), (''value'', JAny (sv_Value sv)), (''unit'', JString (sv_Unit sv)),
               (''timestamp'', JString (RFC3339 now))]), i1)))"

section \<open>Historical samples\<close>

text \<open>\<open>downsample\<close>, for a positive maximum: every \<open>step\<close>-th sample.\<close>

function every_nth :: "nat \<Rightarrow> 'a list \<Rightarrow> nat \<Rightarrow> 'a list" where
  "every_nth step xs i = (if 0 < step \<and> i < length xs then xs ! i # every_nth step xs (i + step) else [])"
  by pat_completeness auto
termination
  by (relation "measure (\<lambda>(step, xs, i). length xs - i)") auto

declare every_nth.simps [simp del]

definition downsample :: "'a list \<Rightarrow> nat \<Rightarrow> 'a list" where
  "downsample samples max_n =
     (if length samples \<le> max_n then samples
      else every_nth ((length samples + max_n - 1) div max_n) samples 0)"

definition maxPoints :: nat where "maxPoints = 2000"

text \<open>The interval of a request: the last 24 hours by default, never after now.\<close>

definition time_param :: "string \<Rightarrow> zoned \<Rightarrow> string \<Rightarrow> string + zoned" where
  "time_param s dflt msg =
     (if s = [] then Inr dflt else case parse_RFC3339 s of None \<Rightarrow> Inl msg | Some t \<Rightarrow> Inr t)"

definition time_range :: "gotime_ns \<Rightarrow> request \<Rightarrow> string + zoned \<times> zoned" where
  "time_range now r =
     (case time_param (rq_query r ''since'') (utc (now - 24 * Hour)) ''invalid since format (use RFC3339)'' of
        Inl msg \<Rightarrow> Inl msg
      | Inr since \<Rightarrow>
     (case time_param (rq_query r ''until'') (utc now) ''invalid until format (use RFC3339)'' of
        Inl msg \<Rightarrow> Inl msg
      | Inr until0 \<Rightarrow>
          let until = (if now < z_instant until0 then utc now else until0) in
          if z_instant until < z_instant since then Inl ''since must be before until''
          else Inr (since, until)))"

definition query_limit :: "request \<Rightarrow> int" where
  "query_limit r =
     (let limitStr = rq_query r ''limit'' in
      if limitStr = [] then 100000
      else case ParseInt limitStr of Some n \<Rightarrow> if 0 < n then n else 100000 | None \<Rightarrow> 100000)"

definition aggregate_latest :: "'d sensorStore \<Rightarrow> string \<Rightarrow> 'd \<Rightarrow> response \<times> 'd" where
  "aggregate_latest S name d =
     (case ss_LatestSample S name d of
        (Inl err, d1) \<Rightarrow> (writeJSONError StatusInternalServerError ''failed to query latest sample'', d1)
      | (Inr res, d1) \<Rightarrow>
          (writeJSON StatusOK (JObject [(''sensor'', JString name),
             (''samples'', JArray (case res of None \<Rightarrow> [] | Some s \<Rightarrow> [json_sample s]))]), d1))"

definition json_bucket :: "string \<Rightarrow> aggregatedSample \<Rightarrow> json" where
  "json_bucket unit a = JObject
     [(''value'', nullable JNum (ag_ValueAvg a)), (''value_min'', nullable JNum (ag_ValueMin a)),
      (''value_max'', nullable JNum (ag_ValueMax a)), (''value_avg'', nullable JNum (ag_ValueAvg a)),
      (''sample_count'', JInt (ag_SampleCount a)), (''sampled_at'', JTime (ag_BucketStart a)),
      (''unit'', JString unit)]"

definition aggregate_buckets ::
    "'d sensorStore \<Rightarrow> string \<Rightarrow> zoned \<Rightarrow> zoned \<Rightarrow> string \<Rightarrow> 'd \<Rightarrow> response \<times> 'd" where
  "aggregate_buckets S name since until bucket d =
     (case ss_QueryAggregatedSamples S name since until bucket d of
        (Inl err, d1) \<Rightarrow> (writeJSONError StatusInternalServerError ''failed to query aggregated samples'', d1)
      | (Inr rows, d1) \<Rightarrow>
          (case ss_LatestSample S name d1 of (latest, d2) \<Rightarrow>
            let unit = (case latest of Inr (Some s) \<Rightarrow> sm_Unit s | _ \<Rightarrow> '''')
            in (writeJSON StatusOK (JObject [(''sensor'', JString name),
                  (''samples'', JArray (map (json_bucket unit) rows)), (''aggregated'', JString bucket)]), d2)))"

text \<open>The reference of \<open>delta\<close>: the time asked for, the sample at it, and its value.\<close>

definition delta_reference ::
    "'d sensorStore \<Rightarrow> string \<Rightarrow> string \<Rightarrow> 'd \<Rightarrow> (response + (zoned \<times> sample \<times> f64) option) \<times> 'd" where
  "delta_reference S name deltaStr d =
     (if deltaStr = [] then (Inr None, d)
      else case parse_RFC3339 deltaStr of
        None \<Rightarrow> (Inl (writeJSONError StatusBadRequest ''invalid delta format (use RFC3339)''), d)
      | Some t \<Rightarrow>
          (case ss_SampleAt S name t d of
             (Inl err, d1) \<Rightarrow> (Inl (writeJSONError StatusInternalServerError ''failed to query delta reference''), d1)
           | (Inr None, d1) \<Rightarrow> (Inl (writeJSONError StatusBadRequest ''no sample found at delta timestamp''), d1)
           | (Inr (Some s), d1) \<Rightarrow>
               (case sm_Value s of
                  None \<Rightarrow> (Inl (writeJSONError StatusBadRequest ''no sample found at delta timestamp''), d1)
                | Some v \<Rightarrow> (Inr (Some (t, s, v)), d1))))"

definition adjust_by :: "f64 \<Rightarrow> sample \<Rightarrow> sample" where
  "adjust_by v s = s\<lparr>sm_Value := map_option (\<lambda>x. f_sub x v) (sm_Value s)\<rparr>"

definition json_delta :: "zoned \<Rightarrow> sample \<Rightarrow> json" where
  "json_delta t s = JObject [(''at'', JString (format_RFC3339 t)),
     (''reference_at'', JString (RFC3339 (sm_SampledAt s))),
     (''gap_seconds'', JNum (Seconds (Sub (z_instant t) (sm_SampledAt s))))]"

definition aggregate_raw ::
    "'d sensorStore \<Rightarrow> string \<Rightarrow> zoned \<Rightarrow> zoned \<Rightarrow> int \<Rightarrow> string \<Rightarrow> 'd \<Rightarrow> response \<times> 'd" where
  "aggregate_raw S name since until limit deltaStr d =
     (case delta_reference S name deltaStr d of
        (Inl resp, d1) \<Rightarrow> (resp, d1)
      | (Inr ref, d1) \<Rightarrow>
          (case ss_QueryRawSamples S name since until limit d1 of
             (Inl err, d2) \<Rightarrow> (writeJSONError StatusInternalServerError ''failed to query samples'', d2)
           | (Inr rows, d2) \<Rightarrow>
               (let samples = downsample rows maxPoints;
                    adjusted = (case ref of None \<Rightarrow> samples | Some (_, _, v) \<Rightarrow> map (adjust_by v) samples)
                in (writeJSON StatusOK (JObject ([(''sensor'', JString name),
                       (''samples'', JArray (map json_sample adjusted))]
                      @ opt_field ''delta'' (\<lambda>(t, s, _). json_delta t s) ref)), d2))))"

definition handleGetAggregate :: "('i, 'd) handler \<Rightarrow> gotime_ns \<Rightarrow> request \<Rightarrow> 'd \<Rightarrow> response \<times> 'd" where
  "handleGetAggregate h now r d =
     (if rq_sensor r = [] then (writeJSONError StatusBadRequest ''sensor name is required'', d)
      else case hd_store h of
        None \<Rightarrow> (writeJSONError StatusNotImplemented ''database not configured; aggregate data unavailable'', d)
      | Some S \<Rightarrow>
          if rq_query r ''latest'' = ''true'' then aggregate_latest S (rq_sensor r) d
          else (case time_range now r of
            Inl msg \<Rightarrow> (writeJSONError StatusBadRequest msg, d)
          | Inr (since, until) \<Rightarrow>
              (let bucket = rq_query r ''bucket'' in
               if bucket = ''hour'' \<or> bucket = ''day'' then aggregate_buckets S (rq_sensor r) since until bucket d
               else aggregate_raw S (rq_sensor r) since until (query_limit r) (rq_query r ''delta'') d)))"

section \<open>Voltage events\<close>

text \<open>The parameters of a page: the limit and the cursor, or the message of the refusal.\<close>

definition page_params :: "request \<Rightarrow> string + int \<times> int" where
  "page_params r =
     (let limitStr = rq_query r ''limit''; beforeStr = rq_query r ''before'' in
      case (if limitStr = [] then Some 20
            else case ParseInt limitStr of
              Some n \<Rightarrow> if 0 < n \<and> n \<le> 100 then Some n else None
            | None \<Rightarrow> None) of
        None \<Rightarrow> Inl ''invalid limit (must be 1-100)''
      | Some limit \<Rightarrow>
          if beforeStr = [] then Inr (limit, 0)
          else case ParseInt beforeStr of
            None \<Rightarrow> Inl ''invalid before cursor''
          | Some before \<Rightarrow> if before < 0 then Inl ''invalid before cursor'' else Inr (limit, before))"

definition next_cursor :: "voltageEvent list \<Rightarrow> int" where
  "next_cursor events = (if events = [] then 0 else ve_ID (last events))"

definition page_body :: "voltageEvent list \<Rightarrow> int \<Rightarrow> int \<Rightarrow> gotime_ns option \<Rightarrow> int \<Rightarrow> json" where
  "page_body events tot limit lastRunAt pollInterval = JObject
     [(''events'', JArray (map json_event events)), (''total_events'', JInt tot),
      (''cursor'', JObject [(''next'', JInt (next_cursor events)),
         (''has_more'', JBool (limit \<le> int (length events)))]),
      (''analysis'', JObject [(''last_run_at'', nullable JTime lastRunAt),
         (''poll_interval_seconds'', JNum (Seconds pollInterval))])]"

definition handleGridVoltage :: "('i, 'd) handler \<Rightarrow> request \<Rightarrow> 'd \<Rightarrow> response \<times> 'd" where
  "handleGridVoltage h r d =
     (case hd_analysisStore h of
        None \<Rightarrow> (writeJSONError StatusNotImplemented ''analysis store not available'', d)
      | Some S \<Rightarrow>
     (case page_params r of
        Inl msg \<Rightarrow> (writeJSONError StatusBadRequest msg, d)
      | Inr (limit, before) \<Rightarrow>
     (case va_QueryVoltageEvents S before limit d of
        (Inl err, d1) \<Rightarrow> (writeJSONError StatusInternalServerError ''failed to query events'', d1)
      | (Inr (events, tot), d1) \<Rightarrow>
     (case va_GetVoltageAnalysisCursor S d1 of
        (cursor, d2) \<Rightarrow>
          (let lastRunAt = (case cursor of Inr c \<Rightarrow> Some (vc_LastRunAt c) | Inl _ \<Rightarrow> None) in
           (writeJSON StatusOK (page_body events tot limit lastRunAt (hd_pollInterval h)), d2))))))"

section \<open>Inverter information\<close>

definition json_info :: "('i, 'd) handler \<Rightarrow> info \<Rightarrow> string option \<Rightarrow> string \<Rightarrow> json" where
  "json_info h x lastPoll err = JObject ([(''serial'', JString (in_SerialNumber x)), (''model'', JString (in_Model x)),
     (''firmware'', JString (in_Firmware x)), (''rated_power'', JInt (in_RatedPower x)),
     (''dsp_version'', JString (in_DSPVersion x)), (''arm_version'', JString (in_ARMVersion x)),
     (''inverter_ip'', JString (hd_inverterIP h)), (''daemon_version'', JString (hd_daemonVersion h))]
     @ opt_field ''last_poll_time'' JString lastPoll @ str_field ''error'' err)"

definition ident_info :: "inverterIdentity \<Rightarrow> info" where
  "ident_info i = \<lparr>in_SerialNumber = id_Serial i, in_Model = id_Model i, in_Firmware = id_Firmware i,
     in_RatedPower = id_RatedPower i, in_DSPVersion = id_DSPVersion i, in_ARMVersion = id_ARMVersion i\<rparr>"

text \<open>The answer from the database: none when there is no store, no identity or a failure.\<close>

definition stored_info :: "('i, 'd) handler \<Rightarrow> 'd \<Rightarrow> response option \<times> 'd" where
  "stored_info h d =
     (case hd_store h of
        None \<Rightarrow> (None, d)
      | Some S \<Rightarrow>
          (case ss_GetInverterIdentity S d of
             (Inl err, d1) \<Rightarrow> (None, d1)
           | (Inr None, d1) \<Rightarrow> (None, d1)
           | (Inr (Some ident), d1) \<Rightarrow>
               (case ss_LastSampleTime S d1 of (res, d2) \<Rightarrow>
                  let lastPoll = (case res of Inr (Some t) \<Rightarrow> Some (RFC3339 t) | _ \<Rightarrow> None);
                      err = (case hd_daemon h of
                        None \<Rightarrow> ''''
                      | Some ds \<Rightarrow> (case ds_VerificationError ds of
                          Some verr \<Rightarrow> Error verr
                        | None \<Rightarrow> (case ds_ConnError ds of Some cerr \<Rightarrow> Error cerr | None \<Rightarrow> '''')))
                  in (Some (writeJSON StatusOK (json_info h (ident_info ident) lastPoll err)), d2))))"

text \<open>Why the inverter cannot be asked, if the daemon says so.\<close>

definition unavailable :: "daemonStatus option \<Rightarrow> string option" where
  "unavailable ds =
     (case ds of
        None \<Rightarrow> None
      | Some s \<Rightarrow>
          (case ds_InverterState s of
             InverterStateDisabled \<Rightarrow> Some ''no inverter configured''
           | InverterStateDisconnected \<Rightarrow> Some ''disconnected, will retry''
           | InverterStateConnecting \<Rightarrow> Some ''connecting to inverter...''
           | InverterStateFailed \<Rightarrow>
               Some (case ds_ConnError s of Some err \<Rightarrow> Error err | None \<Rightarrow> ''inverter connection failed'')
           | InverterStateConnected \<Rightarrow> None))"

definition handleInfo :: "('i, 'd) handler \<Rightarrow> 'i \<Rightarrow> 'd \<Rightarrow> (response \<times> 'i \<times> 'd) outcome" where
  "handleInfo h i d =
     (case hd_inverter h of
        None \<Rightarrow> Ret (writeJSONError StatusServiceUnavailable ''no inverter configured'', i, d)
      | Some I \<Rightarrow>
     (case stored_info h d of
        (Some resp, d1) \<Rightarrow> Ret (resp, i, d1)
      | (None, d1) \<Rightarrow>
     (case unavailable (hd_daemon h) of
        Some msg \<Rightarrow> Ret (writeJSONError StatusServiceUnavailable msg, i, d1)
      | None \<Rightarrow>
          (let err = (case hd_daemon h of
                 None \<Rightarrow> ''''
               | Some ds \<Rightarrow> (case ds_VerificationError ds of Some e \<Rightarrow> Error e | None \<Rightarrow> ''''))
           in obind (io_GetInfo I i) (\<lambda>(res, i1). case res of
                Inl e \<Rightarrow> Ret (writeJSONError StatusInternalServerError ''failed to get inverter info'', i1, d1)
              | Inr x \<Rightarrow> Ret (writeJSON StatusOK (json_info h x None err), i1, d1))))))"

section \<open>The database behind the interfaces\<close>

text \<open>
  The store compares times as texts, so that its answers are about UTC times; a time of a request that
  has another offset is outside this instance.
\<close>

definition db_sensor_store :: "db sensorStore" where
  "db_sensor_store = \<lparr>ss_GetInverterIdentity = GetInverterIdentity,
     ss_QueryRawSamples = (\<lambda>name since until. QueryRawSamples name (z_instant since) (z_instant until)),
     ss_LatestSample = LatestSample, ss_LastSampleTime = LastSampleTime,
     ss_SampleAt = (\<lambda>name t. SampleAt name (z_instant t)),
     ss_QueryAggregatedSamples = (\<lambda>name since until. QueryAggregatedSamples name (z_instant since) (z_instant until))\<rparr>"

definition db_analysis_store :: "db voltageAnalysisStore" where
  "db_analysis_store = \<lparr>va_QueryVoltageEvents = QueryVoltageEvents,
     va_GetVoltageAnalysisCursor = GetVoltageAnalysisCursor\<rparr>"

end
