(* ===== verification/Api_Correct.thy ===== *)
theory Api_Correct
  imports Retention Api "HOL-Library.Sublist"
begin

text \<open>
  The answers of the REST handlers over the database: how samples are thinned out, which samples a
  history holds and when it is refused, that the pages of the voltage events list every event once,
  and that health and identity tell the state of the running daemon.
\<close>

section \<open>Thinning out\<close>

lemma ceil_le:
  fixes a s m :: nat
  assumes "0 < s"
  shows "(a + s - 1) div s \<le> m \<longleftrightarrow> a \<le> m * s"
proof -
  have "(a + s - 1) div s \<le> m \<longleftrightarrow> a + s - 1 < Suc m * s"
    using assms by (simp only: less_Suc_eq_le [symmetric] div_less_iff_less_mult)
  also have "\<dots> \<longleftrightarrow> a \<le> m * s" using assms by auto
  finally show ?thesis .
qed

lemma ceil_step:
  fixes n i s :: nat
  assumes "0 < s" "i < n"
  shows "(n - i + s - 1) div s = Suc ((n - (i + s) + s - 1) div s)"
proof (cases "n \<le> i + s")
  case True
  then have "(n - i + s - 1) div s \<le> 1" "(n - (i + s) + s - 1) div s = 0"
    using assms by (simp_all only: ceil_le) auto
  moreover have "(n - i + s - 1) div s \<noteq> 0" using assms by (simp add: div_eq_0_iff)
  ultimately show ?thesis by simp
next
  case False
  then have "n - i + s - 1 = (n - (i + s) + s - 1) + s" using assms by simp
  then show ?thesis using assms by (simp only: div_add_self2)
qed

lemma every_nth_eq:
  "0 < step \<Longrightarrow> every_nth step xs i = map (\<lambda>k. xs ! (i + k * step)) [0..<(length xs - i + step - 1) div step]"
proof (induction step xs i rule: every_nth.induct)
  case (1 step xs i)
  show ?case
  proof (cases "i < length xs")
    case True
    have upt: "[0..<Suc m] = 0 # map Suc [0..<m]" for m by (simp add: upt_conv_Cons map_Suc_upt del: upt_Suc)
    show ?thesis
      using 1 True by (subst every_nth.simps) (simp only: ceil_step upt, simp add: comp_def add.assoc)
  qed (use 1 in \<open>simp add: every_nth.simps [of step xs i]\<close>)
qed

lemma every_nth_subseq: "subseq (every_nth step xs i) (drop i xs)"
proof (induction step xs i rule: every_nth.induct)
  case (1 step xs i)
  show ?case
  proof (cases "0 < step \<and> i < length xs")
    case True
    have "subseq (drop (i + step) xs) (drop (Suc i) xs)"
      using True suffix_drop [of "step - 1" "drop (Suc i) xs"] by (simp add: suffix_imp_subseq add.commute)
    with 1 True have "subseq (every_nth step xs (i + step)) (drop (Suc i) xs)"
      using subseq_order.trans by blast
    with True show ?thesis
      by (subst every_nth.simps) (simp add: Cons_nth_drop_Suc [symmetric])
  qed (auto simp: every_nth.simps [of step xs i])
qed

lemma downsample_picks:
  assumes "0 < m"
  shows "\<exists>step > 0. downsample xs m = map (\<lambda>k. xs ! (k * step)) [0..<(length xs + step - 1) div step] \<and>
    length (downsample xs m) \<le> m \<and> subseq (downsample xs m) xs \<and>
    (\<forall>s > 0. (length xs + s - 1) div s \<le> m \<longrightarrow> step \<le> s)"
proof (cases "length xs \<le> m")
  case True
  then have "downsample xs m = map (\<lambda>k. xs ! (k * 1)) [0..<(length xs + 1 - 1) div 1]"
    by (simp add: downsample_def map_nth)
  with True show ?thesis by (intro exI [of _ 1]) (simp add: downsample_def)
next
  case False
  let ?s = "(length xs + m - 1) div m"
  have s: "0 < ?s" using assms False by (simp add: div_greater_zero_iff)
  have eq: "downsample xs m = every_nth ?s xs 0" using False by (simp add: downsample_def)
  then have pick: "downsample xs m = map (\<lambda>k. xs ! (k * ?s)) [0..<(length xs + ?s - 1) div ?s]"
    using s by (simp add: every_nth_eq)
  have "length xs \<le> ?s * m" using ceil_le [OF assms, of "length xs" ?s] by simp
  then have "length (downsample xs m) \<le> m"
    unfolding pick length_map length_upt using ceil_le [OF s] by (simp add: mult.commute)
  moreover have "?s \<le> k" if "0 < k" "(length xs + k - 1) div k \<le> m" for k
    using that ceil_le [OF that(1), of "length xs" m] ceil_le [OF assms, of "length xs" k] by (simp add: mult.commute)
  ultimately show ?thesis using s pick eq every_nth_subseq [of ?s xs 0] by (intro exI [of _ ?s]) auto
qed

text \<open>
  \<open>downsample\<close> returns at most the given number of samples: all of them when they fit, and otherwise
  the first one and every further one at a fixed distance, in their order; and the distance is the
  smallest with which they fit.
\<close>

theorem downsample_spec:
  assumes "0 < m"
  shows "\<exists>step > 0. downsample xs m = map (\<lambda>k. xs ! (k * step)) [0..<(length xs + step - 1) div step] \<and>
    length (downsample xs m) \<le> m \<and> subseq (downsample xs m) xs \<and>
    (\<forall>s > 0. (length xs + s - 1) div s \<le> m \<longrightarrow> step \<le> s)"
  using assms by (rule downsample_picks)

lemma downsample_spec_witness:
  "length (downsample [1, 2, 3, 4, 5 :: int] 2) \<le> 2 \<and> downsample [1, 2, 3, 4, 5 :: int] 2 = [1, 4]"
  using downsample_spec [of 2 "[1, 2, 3, 4, 5 :: int]"] by (auto simp: downsample_def every_nth.simps)

section \<open>Reading an answer\<close>

fun field :: "string \<Rightarrow> json \<Rightarrow> json option" where
  "field name (JObject fs) = map_of fs name"
| "field name _ = None"

lemma writeJSON_sel [simp]: "rs_status (writeJSON c v) = c" "rs_body (writeJSON c v) = v"
  by (simp_all add: writeJSON_def)

lemma writeJSONError_sel [simp]:
  "rs_status (writeJSONError c msg) = c" "field ''error'' (rs_body (writeJSONError c msg)) = Some (JString msg)"
  by (simp_all add: writeJSONError_def)

lemmas status_defs = StatusOK_def StatusBadRequest_def StatusInternalServerError_def StatusNotImplemented_def
  StatusServiceUnavailable_def

section \<open>The daemon behind the handlers\<close>

text \<open>The handler that the daemon's program builds: its inverter, its state, and its database twice.\<close>

definition status_of :: "'s daemon \<Rightarrow> daemonStatus" where
  "status_of d = \<lparr>ds_InverterState = dm_connState d, ds_ConnError = dm_connErr d,
     ds_VerificationError = dm_verificationErr d\<rparr>"

definition handler_of :: "string \<Rightarrow> 's daemon \<Rightarrow> ('s, db) handler" where
  "handler_of version d = \<lparr>hd_inverter = map_option fst (dm_inverter d), hd_daemon = Some (status_of d),
     hd_store = Some db_sensor_store, hd_analysisStore = Some db_analysis_store,
     hd_pollInterval = dm_pollInterval d, hd_inverterIP = dm_inverterIP d, hd_daemonVersion = version\<rparr>"

lemma handler_of_sel [simp]:
  "hd_daemon (handler_of v d) = Some (status_of d)" "hd_store (handler_of v d) = Some db_sensor_store"
  "hd_analysisStore (handler_of v d) = Some db_analysis_store"
  "hd_inverter (handler_of v d) = map_option fst (dm_inverter d)"
  by (simp_all add: handler_of_def)

lemma status_of_sel [simp]:
  "ds_InverterState (status_of d) = dm_connState d" "ds_ConnError (status_of d) = dm_connErr d"
  "ds_VerificationError (status_of d) = dm_verificationErr d"
  by (simp_all add: status_of_def)



section \<open>Histories\<close>

text \<open>What the parameter of a time stands for: the default when it is empty.\<close>

definition means :: "string \<Rightarrow> zoned \<Rightarrow> zoned \<Rightarrow> bool" where
  "means s dflt z \<longleftrightarrow> (if s = [] then z = dflt else parse_RFC3339 s = Some z)"

lemma time_param_means: "time_param s dflt msg = Inr z \<longleftrightarrow> means s dflt z"
  by (auto simp: time_param_def means_def split: option.splits)

lemma time_range_means:
  assumes "means (rq_query r ''since'') (utc (now - 24 * Hour)) since" "means (rq_query r ''until'') (utc now) until"
  shows "time_range now r =
    (let hi = (if now < z_instant until then utc now else until) in
     if z_instant hi < z_instant since then Inl ''since must be before until'' else Inr (since, hi))"
  using assms by (simp add: time_range_def time_param_means [THEN iffD2] Let_def)

lemma query_limit_pos: "0 < query_limit r"
  by (simp add: query_limit_def Let_def split: option.splits)

lemma last_reversed: "rev (map f (limit_to n (rev xs))) = map f (drop (length xs - nat n) xs)" if "0 \<le> n"
  using that by (simp add: limit_to_def rev_map take_rev)


definition plain_request :: "string \<Rightarrow> request" where
  "plain_request name = \<lparr>rq_sensor = name, rq_query = (\<lambda>_. [])\<rparr>"

definition demo_handler :: "(unit, db) handler" where
  "demo_handler = handler_of ''v1'' (NewDaemon (Some (dead_inverter, ())) None ''ip'' Second 0 0)"


text \<open>The statuses of the three kinds of history.\<close>

lemma latest_status:
  "aggregate_latest S n d = (resp, d') \<Longrightarrow>
   rs_status resp = (case fst (ss_LatestSample S n d) of Inl _ \<Rightarrow> 500 | Inr _ \<Rightarrow> 200)"
  by (auto simp: aggregate_latest_def status_defs split: prod.splits sum.splits)

lemma buckets_status:
  "aggregate_buckets S n since until b d = (resp, d') \<Longrightarrow>
   rs_status resp = (case fst (ss_QueryAggregatedSamples S n since until b d) of Inl _ \<Rightarrow> 500 | Inr _ \<Rightarrow> 200)"
  by (auto simp: aggregate_buckets_def status_defs Let_def split: prod.splits sum.splits)

definition bad_delta :: "string \<Rightarrow> (zoned \<Rightarrow> goerror + sample option) \<Rightarrow> bool" where
  "bad_delta s ref \<longleftrightarrow> s \<noteq> [] \<and> (case parse_RFC3339 s of
     None \<Rightarrow> True | Some t \<Rightarrow> (case ref t of Inl _ \<Rightarrow> False | Inr x \<Rightarrow> Option.bind x sm_Value = None))"

lemma delta_status:
  "delta_reference S n s d = (r, d1) \<Longrightarrow>
   (case r of
      Inl resp \<Rightarrow> rs_status resp = (if bad_delta s (\<lambda>t. fst (ss_SampleAt S n t d)) then 400 else 500) \<and>
        (rs_status resp = 500 \<longrightarrow> (\<exists>t e. ss_SampleAt S n t d = (Inl e, d1)))
    | Inr _ \<Rightarrow> \<not> bad_delta s (\<lambda>t. fst (ss_SampleAt S n t d)))"
  by (auto simp: delta_reference_def bad_delta_def status_defs split: if_splits option.splits prod.splits sum.splits)

lemma raw_status:
  assumes "aggregate_raw S n since until l s d = (resp, d')"
  shows "(rs_status resp = 400 \<longleftrightarrow> bad_delta s (\<lambda>t. fst (ss_SampleAt S n t d))) \<and>
    rs_status resp \<in> {200, 400, 500} \<and>
    (rs_status resp = 500 \<longrightarrow> (\<exists>e d0 d1 t. ss_SampleAt S n t d0 = (Inl e, d1) \<or>
       ss_QueryRawSamples S n since until l d0 = (Inl e, d1)))"
proof -
  obtain r d1 where ref: "delta_reference S n s d = (r, d1)" by force
  show ?thesis
  proof (cases r)
    case (Inl x)
    with assms ref delta_status [OF ref] show ?thesis by (auto simp: aggregate_raw_def)
  next
    case (Inr x)
    obtain q d2 where "ss_QueryRawSamples S n since until l d1 = (q, d2)" by force
    with assms ref Inr delta_status [OF ref] show ?thesis
      by (cases q) (auto simp: aggregate_raw_def status_defs Let_def)
  qed
qed

text \<open>What makes a request for a history a bad one, when the reference lookup answers \<open>ref\<close>.\<close>

definition bad_history :: "gotime_ns \<Rightarrow> request \<Rightarrow> (zoned \<Rightarrow> goerror + sample option) \<Rightarrow> bool" where
  "bad_history now r ref \<longleftrightarrow>
     rq_query r ''latest'' \<noteq> ''true'' \<and>
     ((\<forall>since until. means (rq_query r ''since'') (utc (now - 24 * Hour)) since \<and> means (rq_query r ''until'') (utc now) until
         \<longrightarrow> min now (z_instant until) < z_instant since) \<or>
      rq_query r ''bucket'' \<notin> {''hour'', ''day''} \<and> bad_delta (rq_query r ''delta'') ref)"

lemma time_range_bad:
  "(\<exists>msg. time_range now r = Inl msg) \<longleftrightarrow>
   (\<forall>since until. means (rq_query r ''since'') (utc (now - 24 * Hour)) since \<and> means (rq_query r ''until'') (utc now) until
      \<longrightarrow> min now (z_instant until) < z_instant since)" (is "?L \<longleftrightarrow> ?R")
proof -
  consider (bad) "\<nexists>since. means (rq_query r ''since'') (utc (now - 24 * Hour)) since"
    | (bad_until) since where "means (rq_query r ''since'') (utc (now - 24 * Hour)) since"
        "\<nexists>until. means (rq_query r ''until'') (utc now) until"
    | (ok) since until where "means (rq_query r ''since'') (utc (now - 24 * Hour)) since"
        "means (rq_query r ''until'') (utc now) until"
    by blast
  then show ?thesis
  proof cases
    case ok
    moreover have "means s z0 a \<Longrightarrow> means s z0 b \<Longrightarrow> a = b" for s z0 a b by (auto simp: means_def split: if_splits)
    ultimately have "?R \<longleftrightarrow> min now (z_instant until) < z_instant since" by blast
    then show ?thesis
      using time_range_means [OF ok] by (auto simp: Let_def utc_def)
  qed (auto simp: time_range_def time_param_def means_def split: option.splits if_splits)
qed

text \<open>
  C33: The history endpoint over a database refuses a request as bad exactly when the sensor is missing,
  the interval is not one, or a reference for the delta was asked for and does not exist; it answers
  with an internal error only when a query of the database fails, and otherwise with ok.
\<close>

theorem handleGetAggregate_status:
  assumes "handleGetAggregate h now r d = (resp, d')" "hd_store h = Some S"
  shows "(rs_status resp = 400 \<longleftrightarrow> rq_sensor r = [] \<or> bad_history now r (\<lambda>t. fst (ss_SampleAt S (rq_sensor r) t d))) \<and>
    rs_status resp \<in> {200, 400, 500} \<and>
    (rs_status resp = 500 \<longrightarrow> (\<exists>e d0 d1 t since until. ss_LatestSample S (rq_sensor r) d0 = (Inl e, d1) \<or>
       ss_QueryAggregatedSamples S (rq_sensor r) since until (rq_query r ''bucket'') d0 = (Inl e, d1) \<or>
       ss_SampleAt S (rq_sensor r) t d0 = (Inl e, d1) \<or>
       ss_QueryRawSamples S (rq_sensor r) since until (query_limit r) d0 = (Inl e, d1)))"
proof -
  consider (none) "rq_sensor r = []"
    | (latest) "rq_sensor r \<noteq> []" "rq_query r ''latest'' = ''true''" "aggregate_latest S (rq_sensor r) d = (resp, d')"
    | (range) msg where "rq_sensor r \<noteq> []" "rq_query r ''latest'' \<noteq> ''true''" "time_range now r = Inl msg"
        "resp = writeJSONError StatusBadRequest msg"
    | (buckets) since until where "rq_sensor r \<noteq> []" "rq_query r ''latest'' \<noteq> ''true''" "time_range now r = Inr (since, until)"
        "rq_query r ''bucket'' \<in> {''hour'', ''day''}"
        "aggregate_buckets S (rq_sensor r) since until (rq_query r ''bucket'') d = (resp, d')"
    | (raw) since until where "rq_sensor r \<noteq> []" "rq_query r ''latest'' \<noteq> ''true''" "time_range now r = Inr (since, until)"
        "rq_query r ''bucket'' \<notin> {''hour'', ''day''}"
        "aggregate_raw S (rq_sensor r) since until (query_limit r) (rq_query r ''delta'') d = (resp, d')"
    using assms by (auto simp: handleGetAggregate_def Let_def split: if_splits sum.splits)
  then show ?thesis
  proof cases
    case none
    with assms show ?thesis by (auto simp: handleGetAggregate_def status_defs)
  next
    case latest
    from latest_status [OF latest(3)] latest(1,2) show ?thesis
      by (cases "ss_LatestSample S (rq_sensor r) d") (auto simp: bad_history_def split: sum.splits)
  next
    case range
    then show ?thesis
      using time_range_bad [of now r] by (auto simp: bad_history_def status_defs)
  next
    case buckets
    have "\<not> bad_history now r ref" for ref
      using time_range_bad [of now r] buckets(3,4) by (auto simp: bad_history_def)
    then show ?thesis
      using buckets_status [OF buckets(5)] buckets(1)
      by (cases "ss_QueryAggregatedSamples S (rq_sensor r) since until (rq_query r ''bucket'') d")
        (auto split: sum.splits, blast)
  next
    case raw
    have "bad_history now r ref \<longleftrightarrow> bad_delta (rq_query r ''delta'') ref" for ref
      using time_range_bad [of now r] raw(2-4) by (auto simp: bad_history_def)
    with raw_status [OF raw(5)] raw(1) show ?thesis by blast
  qed
qed

lemma handleGetAggregate_status_witness:
  "rs_status (fst (handleGetAggregate demo_handler 25 (plain_request '''') demo_db)) = 400"
  using handleGetAggregate_status [of demo_handler 25 "plain_request ''''" demo_db, OF prod.collapse [symmetric], of db_sensor_store]
  by (simp add: demo_handler_def plain_request_def)

section \<open>Paging through the voltage events\<close>

text \<open>
  A client of the events endpoint: it asks for a page, and for the page after the cursor of the last
  one as long as there are more. The fuel bounds the number of requests.
\<close>

definition page_request :: "nat \<Rightarrow> int \<Rightarrow> request" where
  "page_request limit before = \<lparr>rq_sensor = [], rq_query = (\<lambda>_. [])(''limit'' := show_nat limit,
     ''before'' := show_int before)\<rparr>"

fun follow :: "nat \<Rightarrow> ('i, 'd) handler \<Rightarrow> nat \<Rightarrow> int \<Rightarrow> 'd \<Rightarrow> json list option" where
  "follow 0 h limit before d = None"
| "follow (Suc n) h limit before d =
     (case handleGridVoltage h (page_request limit before) d of (resp, d1) \<Rightarrow>
      case (field ''events'' (rs_body resp), Option.bind (field ''cursor'' (rs_body resp)) (field ''next''),
            Option.bind (field ''cursor'' (rs_body resp)) (field ''has_more'')) of
        (Some (JArray es), Some (JInt nxt), Some (JBool again)) \<Rightarrow>
          if again then map_option ((@) es) (follow n h limit nxt d1) else Some es
      | _ \<Rightarrow> None)"

definition event_ids_ok :: "db \<Rightarrow> bool" where
  "event_ids_ok d \<longleftrightarrow> (\<forall>e \<in> set (db_events d). 0 < ve_ID e \<and> ve_ID e < 2 ^ 63) \<and> distinct (map ve_ID (db_events d))"

text \<open>The events before a cursor, newest first; cursor 0 is none.\<close>

definition events_before :: "int \<Rightarrow> db \<Rightarrow> voltageEvent list" where
  "events_before before d = rev (sort_key ve_ID
     (if 0 < before then filter (\<lambda>e. ve_ID e < before) (db_events d) else db_events d))"

lemma page_answer:
  assumes "no_faults d" "hd_analysisStore h = Some db_analysis_store" "0 < limit" "limit \<le> 100" "0 \<le> before" "before < 2 ^ 63"
  shows "\<exists>run_at d'. handleGridVoltage h (page_request limit before) d =
    (writeJSON 200 (page_body (take limit (events_before before d)) (int (length (db_events d))) (int limit) run_at (hd_pollInterval h)), d') \<and>
    db_events d' = db_events d \<and> no_faults d'"
proof -
  have params: "page_params (page_request limit before) = Inr (int limit, before)"
  proof -
    have "ParseInt (show_nat limit) = Some (int limit)" "ParseInt (show_int before) = Some before"
      using assms(3-6) ParseInt_show_nat [of limit] ParseInt_show_nat [of "nat before"] by (simp_all add: show_int_def)
    then show ?thesis
      using assms(3-6) show_nat_nonempty by (simp add: page_params_def page_request_def Let_def show_int_def)
  qed
  let ?d1 = "d\<lparr>db_stmts := Suc (db_stmts d)\<rparr>"
  let ?d2 = "?d1\<lparr>db_stmts := Suc (db_stmts ?d1)\<rparr>"
  obtain c d3 where c: "GetVoltageAnalysisCursor ?d2 = (c, d3)" by force
  then have d3: "db_events d3 = db_events d \<and> no_faults d3"
    using assms(1) by (auto simp: GetVoltageAnalysisCursor_def query_sound split: option.splits)
  have "QueryVoltageEvents before (int limit) d = (Inr (take limit (events_before before d), int (length (db_events d))), ?d2)"
    using assms(1) by (simp add: QueryVoltageEvents_def query_sound events_before_def limit_to_def)
  then show ?thesis
    using params assms(2) c d3 by (auto simp: handleGridVoltage_def db_analysis_store_def status_defs)
qed

lemma page_fields:
  "field ''events'' (page_body es tot limit run_at poll) = Some (JArray (map json_event es))"
  "Option.bind (field ''cursor'' (page_body es tot limit run_at poll)) (field ''next'') = Some (JInt (next_cursor es))"
  "Option.bind (field ''cursor'' (page_body es tot limit run_at poll)) (field ''has_more'') = Some (JBool (limit \<le> int (length es)))"
  by (simp_all add: page_body_def)

lemma events_before_sorted:
  assumes "event_ids_ok d"
  shows "sorted_wrt (\<lambda>a b. ve_ID b < ve_ID a) (events_before before d)"
proof -
  define es where "es = (if 0 < before then filter (\<lambda>e. ve_ID e < before) (db_events d) else db_events d)"
  have "distinct (map ve_ID es)" using assms by (simp add: es_def event_ids_ok_def distinct_map_filter)
  then have "distinct (map ve_ID (sort_key ve_ID es))"
    by (metis distinct_map distinct_sort set_sort)
  then have "sorted_wrt (<) (map ve_ID (sort_key ve_ID es))"
    by (simp add: strict_sorted_iff)
  then show ?thesis by (simp only: events_before_def es_def sorted_wrt_rev sorted_wrt_map)
qed

lemma after_page:
  assumes "event_ids_ok d" "0 < limit" "limit \<le> length (events_before before d)"
  shows "events_before before d = take limit (events_before before d) @ events_before (next_cursor (take limit (events_before before d))) d"
    and "0 < next_cursor (take limit (events_before before d))" "next_cursor (take limit (events_before before d)) < 2 ^ 63"
proof -
  let ?L = "events_before before d"
  obtain ys z where yz: "take limit ?L = ys @ [z]"
    using assms(2,3) by (metis length_greater_0_conv length_take min.absorb2 rev_exhaust)
  have c: "next_cursor (take limit ?L) = ve_ID z" by (simp add: yz next_cursor_def)
  have L: "?L = ys @ z # drop limit ?L" using yz append_take_drop_id [of limit ?L] by simp
  have "z \<in> set ?L" by (subst L) simp
  then have z: "z \<in> set (db_events d)" "0 < before \<Longrightarrow> ve_ID z < before"
    by (auto simp: events_before_def split: if_splits)
  then show pos: "0 < next_cursor (take limit ?L)" and "next_cursor (take limit ?L) < 2 ^ 63"
    using assms(1) by (auto simp: c event_ids_ok_def)
  have "sorted_wrt (\<lambda>a b. ve_ID b < ve_ID a) (ys @ z # drop limit ?L)"
    using events_before_sorted [OF assms(1), of before] L by simp
  then have below: "\<forall>e \<in> set ys. ve_ID z < ve_ID e" "\<forall>e \<in> set (drop limit ?L). ve_ID e < ve_ID z"
    by (auto simp: sorted_wrt_append)
  have "events_before (ve_ID z) d = filter (\<lambda>e. ve_ID e < ve_ID z) ?L"
  proof -
    have "filter (\<lambda>e. ve_ID e < ve_ID z) (if 0 < before then filter (\<lambda>e. ve_ID e < before) (db_events d) else db_events d)
        = filter (\<lambda>e. ve_ID e < ve_ID z) (db_events d)"
      using z(2) by (auto simp: filter_filter intro!: filter_cong)
    then show ?thesis using pos c by (simp add: events_before_def rev_filter [symmetric] filter_sort del: filter_filter)
  qed
  also have "\<dots> = drop limit ?L"
    by (subst L) (use below in \<open>auto simp: filter_empty_conv intro!: filter_True\<close>)
  finally show "?L = take limit ?L @ events_before (next_cursor (take limit ?L)) d" by (simp add: c)
qed

text \<open>
  C16: A client that follows the cursors of the events endpoint sees every voltage event exactly once,
  newest first, whatever the page size, and after a bounded number of requests.
\<close>

theorem follow_lists_events:
  assumes "no_faults d" "event_ids_ok d" "hd_analysisStore h = Some db_analysis_store" "0 < limit" "limit \<le> 100"
    and "length (db_events d) < n"
  shows "follow n h limit 0 d = Some (map json_event (rev (sort_key ve_ID (db_events d))))"
proof -
  have "follow n h limit before d = Some (map json_event (events_before before d))"
    if "no_faults d" "event_ids_ok d" "0 \<le> before" "before < 2 ^ 63" "length (events_before before d) < n" for n before d
    using that
  proof (induction n arbitrary: before d)
    case (Suc n)
    obtain run_at d' where page: "handleGridVoltage h (page_request limit before) d =
        (writeJSON 200 (page_body (take limit (events_before before d)) (int (length (db_events d))) (int limit) run_at (hd_pollInterval h)), d')"
      and d': "db_events d' = db_events d" "no_faults d'"
      using page_answer [OF Suc.prems(1) assms(3-5) Suc.prems(3,4)] by blast
    have same: "events_before b d' = events_before b d" for b by (simp add: events_before_def d')
    show ?case
    proof (cases "limit \<le> length (events_before before d)")
      case False
      with page show ?thesis by (simp add: page_fields)
    next
      case True
      let ?p = "take limit (events_before before d)"
      note nxt = after_page [OF Suc.prems(2) assms(4) True]
      have "length ?p + length (events_before (next_cursor ?p) d) = length (events_before before d)"
        using arg_cong [OF nxt(1), of length] by simp
      then have "follow n h limit (next_cursor ?p) d' = Some (map json_event (events_before (next_cursor ?p) d))"
        using Suc.IH [OF d'(2), of "next_cursor ?p"] Suc.prems(2,5) nxt(2,3) True assms(4) d'(1)
        by (simp add: same event_ids_ok_def)
      with page True arg_cong [OF nxt(1), of "map json_event"] show ?thesis
        by (simp add: page_fields)
    qed
  qed simp
  from this [of d 0 n] assms show ?thesis by (simp add: events_before_def)
qed

definition demo_event :: "int \<Rightarrow> voltageEvent" where
  "demo_event i = \<lparr>ve_ID = i, ve_Phase = ''meter_voltage1'', ve_StartSampleID = 0, ve_StartTime = 0, ve_EndSampleID = None,
     ve_EndTime = None, ve_MinVoltage = Fin 1, ve_MaxVoltage = Fin 1, ve_AvgVoltage = Fin 1, ve_DurationSeconds = None\<rparr>"

lemma follow_lists_events_witness:
  "follow 4 demo_handler 2 0 (empty_db\<lparr>db_events := map demo_event [1, 2, 3]\<rparr>) = Some (map json_event (map demo_event [3, 2, 1]))"
  using follow_lists_events [of "empty_db\<lparr>db_events := map demo_event [1, 2, 3]\<rparr>" demo_handler 2 4]
  by (simp add: no_faults_def empty_db_def event_ids_ok_def demo_event_def demo_handler_def)

section \<open>Live readings\<close>

lemma get_data_answer:
  assumes "hd_inverter h = Some I" "rq_sensor r \<noteq> []" "io_ReadSensor I (rq_sensor r) i = Ret (res, i')"
    and "\<And>v. res = Inr v \<longleftrightarrow> m (rq_sensor r) = Some v"
  shows "\<exists>resp. handleGetData h now r i = Ret (resp, i') \<and>
    (case m (rq_sensor r) of
       Some sv \<Rightarrow> resp = writeJSON 200 (JObject [(''name'', JString (sv_Name sv)), (''value'', JAny (sv_Value sv)),
         (''unit'', JString (sv_Unit sv)), (''timestamp'', JString (RFC3339 now))])
     | None \<Rightarrow> rs_status resp = 500)"
proof (cases res)
  case (Inl e)
  then have "m (rq_sensor r) = None" using assms(4) by (cases "m (rq_sensor r)") auto
  with Inl assms(1-3) show ?thesis by (simp add: handleGetData_def status_defs)
next
  case (Inr v)
  then have "m (rq_sensor r) = Some v" using assms(4) by simp
  with Inr assms(1-3) show ?thesis by (simp add: handleGetData_def status_defs)
qed

text \<open>
  The live endpoint answers with what the device has: over either transport to a device, the
  answer to a request for a sensor is its value, name and unit as the sensor tables assign them to
  the registers of the device, and an error exactly for the sensors the device does not have.
\<close>

theorem handleGetData_device:
  assumes "hd_inverter h = Some (et_inverter order)" "hd_inverter h' = Some (et_inverter order')" "rq_sensor r \<noteq> []"
  shows "\<exists>resp e resp' e'. handleGetData h now r (tcp_device_inverter serial dv s) = Ret (resp, e) \<and>
    handleGetData h' now r (dtls_device_inverter serial dv u) = Ret (resp', e') \<and>
    (case device_sensors dv (rq_sensor r) of
       Some sv \<Rightarrow> resp = writeJSON 200 (JObject [(''name'', JString (sv_Name sv)), (''value'', JAny (sv_Value sv)),
         (''unit'', JString (sv_Unit sv)), (''timestamp'', JString (RFC3339 now))]) \<and> resp' = resp
     | None \<Rightarrow> rs_status resp = 500 \<and> rs_status resp' = 500)"
proof -
  obtain r1 e1 where 1: "io_ReadSensor (et_inverter order) (rq_sensor r) (tcp_device_inverter serial dv s) = Ret (r1, e1)"
      "\<forall>v. r1 = Inr v \<longleftrightarrow> device_sensors dv (rq_sensor r) = Some v"
    using tcp_device.ReadSensor_device [OF over_new, of "rq_sensor r" serial dv s] by (auto simp: et_inverter_def)
  obtain r2 e2 where 2: "io_ReadSensor (et_inverter order') (rq_sensor r) (dtls_device_inverter serial dv u) = Ret (r2, e2)"
      "\<forall>v. r2 = Inr v \<longleftrightarrow> device_sensors dv (rq_sensor r) = Some v"
    using dtls_device.ReadSensor_device [OF over_new, of "rq_sensor r" serial dv u] by (auto simp: et_inverter_def)
  from get_data_answer [OF assms(1,3) 1(1), of "device_sensors dv" now] get_data_answer [OF assms(2,3) 2(1), of "device_sensors dv" now]
    1(2) 2(2)
  show ?thesis by (cases "device_sensors dv (rq_sensor r)") auto
qed

lemma handleGetData_device_witness:
  "\<exists>resp e. handleGetData (handler_of '''' (NewDaemon (Some (et_inverter full_order,
       tcp_device_inverter '''' demo_device (NewTCPTransport '''' 502, []))) None '''' Second 0 0)) 0 (plain_request ''vpv1'')
       (tcp_device_inverter '''' demo_device (NewTCPTransport '''' 502, [])) = Ret (resp, e) \<and> rs_status resp \<in> {200, 500}"
proof -
  let ?h = "handler_of '''' (NewDaemon (Some (et_inverter full_order,
    tcp_device_inverter '''' demo_device (NewTCPTransport '''' 502, []))) None '''' Second 0 0)"
  let ?u = "handler_of '''' (NewDaemon (Some (et_inverter full_order,
    dtls_device_inverter '''' demo_device (NewDTLSTransport '''' 502, []))) None '''' Second 0 0)"
  have "hd_inverter ?h = Some (et_inverter full_order)" "hd_inverter ?u = Some (et_inverter full_order)"
    by (simp_all add: NewDaemon_def)
  note ans = handleGetData_device [OF this, of "plain_request ''vpv1''" 0 "''''" demo_device "(NewTCPTransport '''' 502, [])"]
  have "rq_sensor (plain_request ''vpv1'') = ''vpv1''" by (simp add: plain_request_def)
  with ans show ?thesis
    by (cases "device_sensors demo_device ''vpv1''") (force simp del: handler_of_sel)+
qed

text \<open>
  The list of sensors names every sensor of the four tables under the display name of its block,
  block after block and sorted by name within, whatever the order in which Go iterates its map.
\<close>

theorem handleListSensors_lists:
  assumes "distinct order" "set order = dom sensorLookup"
  shows "handleListSensors order = writeJSON 200 (JArray (concat (map (\<lambda>b. map (\<lambda>n. JObject
    [(''name'', JString n), (''category'', JString (blockType_String b))]) (sort (map fst (block_sensors b))))
      [BlockMain, BlockBattery, BlockMeter, BlockMPPT])))"
proof -
  have groups: "GetSensorNamesByBlock order (blockType_String b) = Some (sort (map fst (block_sensors b)))" for b
    using assms by (rule group_of_block)
  have names: "''Main Telemetry'' = blockType_String BlockMain" "''Battery'' = blockType_String BlockBattery"
    "''Meter'' = blockType_String BlockMeter" "''MPPT'' = blockType_String BlockMPPT"
    by simp_all
  have "list_sensors (GetSensorNamesByBlock order) = concat (map (\<lambda>b. map (\<lambda>n. (n, blockType_String b))
      (sort (map fst (block_sensors b)))) [BlockMain, BlockBattery, BlockMeter, BlockMPPT])"
    unfolding list_sensors_def names by (simp only: list.map groups option.case)
  moreover have "registry \<noteq> []" by (simp add: registry_defs)
  then have "sort (map fst registry) \<noteq> []" by (metis length_0_conv length_map length_sort)
  ultimately show ?thesis
    by (simp add: handleListSensors_def Let_def status_defs comp_def)
qed

lemma handleListSensors_lists_witness: "rs_body (handleListSensors all_names) \<noteq> JNull"
  using handleListSensors_lists [OF all_names_distinct dom_sensorLookup [symmetric]] by simp

section \<open>Inverter information\<close>

text \<open>
  Once an identity is stored, the information endpoint answers from the database and leaves the
  inverter alone, in every state of the daemon: the stored identity, the time of the newest sample,
  and the error of the verification or else of the connection.
\<close>

theorem handleInfo_stored:
  assumes "no_faults d" "db_identity d = ident # more_idents" "hd_store h = Some db_sensor_store" "hd_inverter h \<noteq> None"
  shows "\<exists>d'. handleInfo h i d = Ret (writeJSON 200 (json_info h (ident_info ident)
      (if db_samples d = [] then None else Some (RFC3339 (Max (at_row ` set (db_samples d)))))
      (case hd_daemon h of
         None \<Rightarrow> ''''
       | Some s \<Rightarrow> (case (ds_VerificationError s, ds_ConnError s) of
           (Some e, _) \<Rightarrow> Error e | (None, Some e) \<Rightarrow> Error e | (None, None) \<Rightarrow> ''''))), i, d')"
proof -
  let ?d1 = "d\<lparr>db_stmts := Suc (db_stmts d)\<rparr>"
  have "ss_GetInverterIdentity db_sensor_store d = (Inr (Some ident), ?d1)"
    using assms(1,2) by (simp add: db_sensor_store_def GetInverterIdentity_def failing_def query_sound)
  moreover have "fst (ss_LastSampleTime db_sensor_store ?d1) =
      Inr (if db_samples d = [] then None else Some (Max (at_row ` set (db_samples d))))"
    using assms(1) by (cases "db_samples d") (simp_all add: db_sensor_store_def LastSampleTime_def failing_def query_sound)
  ultimately show ?thesis
    using assms(3,4)
    by (cases "ss_LastSampleTime db_sensor_store ?d1")
      (auto simp: handleInfo_def stored_info_def Let_def status_defs split: option.splits)
qed

lemma handleInfo_stored_witness:
  "\<exists>d'. handleInfo demo_handler () known_db = Ret (writeJSON 200 (json_info demo_handler (ident_info (hd (db_identity known_db))) None ''''), (), d')"
  using handleInfo_stored [of known_db "hd (db_identity known_db)" "tl (db_identity known_db)" demo_handler "()"]
  by (simp add: known_db_def empty_db_def demo_handler_def NewDaemon_def no_faults_def)

end
