(* ===== verification/Http.thy ===== *)
theory Http
  imports Api_Correct Go_Path
begin

text \<open>
  The HTTP side of \<open>pkg/api/handler.go\<close>: the routes, the middleware around them and the dashboard of
  \<open>pkg/dashboard/dashboard.go\<close>. The request router and the helpers of \<open>net/http\<close> are modelled as far
  as the program uses them, for paths without percent-encoding and without looking at the host. A
  response is what the handler writes: the status, the header and the body, the compressed body as a
  constructor around the plain one.
\<close>

section \<open>Requests and responses\<close>

record http_request =
  hr_Method :: string
  hr_Path :: string
  hr_RawQuery :: string
  hr_AcceptEncoding :: string
  hr_query :: "string \<Rightarrow> string"

type_synonym header = "string \<rightharpoonup> string"

datatype body = NoBody | JsonBody json | TextBody string | LinkBody string | PageBody string | GzipBody body

record reply =
  rp_Status :: int
  rp_Header :: header
  rp_Body :: body

text \<open>A handler gets the request, the header set so far and the state behind the server.\<close>

type_synonym 's http_handler = "http_request \<Rightarrow> header \<Rightarrow> 's \<Rightarrow> (reply \<times> 's) outcome"

definition StatusNoContent :: int where "StatusNoContent = 204"
definition StatusFound :: int where "StatusFound = 302"
definition StatusNotFound :: int where "StatusNotFound = 404"
definition StatusMethodNotAllowed :: int where "StatusMethodNotAllowed = 405"

text \<open>\<open>http.Error\<close>, \<open>http.NotFound\<close> and \<open>http.Redirect\<close>.\<close>

definition http_Error :: "string \<Rightarrow> int \<Rightarrow> header \<Rightarrow> reply" where
  "http_Error msg code hdr = \<lparr>rp_Status = code,
     rp_Header = hdr(''Content-Length'' := None, ''Content-Type'' \<mapsto> ''text/plain; charset=utf-8'',
       ''X-Content-Type-Options'' \<mapsto> ''nosniff''),
     rp_Body = TextBody (msg @ [CHR 0x0A])\<rparr>"

definition http_NotFound :: "header \<Rightarrow> reply" where
  "http_NotFound = http_Error ''404 page not found'' StatusNotFound"

definition http_Redirect :: "http_request \<Rightarrow> string \<Rightarrow> int \<Rightarrow> header \<Rightarrow> reply" where
  "http_Redirect r url code hdr =
     (let hadCT = hdr ''Content-Type'' \<noteq> None; hdr1 = hdr(''Location'' \<mapsto> url) in
      \<lparr>rp_Status = code,
       rp_Header = (if \<not> hadCT \<and> hr_Method r \<in> {''GET'', ''HEAD''}
                    then hdr1(''Content-Type'' \<mapsto> ''text/html; charset=utf-8'') else hdr1),
       rp_Body = (if \<not> hadCT \<and> hr_Method r = ''GET'' then LinkBody url else NoBody)\<rparr>)"

section \<open>The router\<close>

text \<open>
  The patterns of \<open>http.ServeMux\<close>: literal segments, one-segment wildcards, and the rest of the path
  after a final slash. A path is matched segment by segment, a literal before a wildcard before the
  rest.
\<close>

datatype pseg = Lit string | Wild | Rest

definition advance :: "pseg \<Rightarrow> (pseg list \<times> 'h) list \<Rightarrow> (pseg list \<times> 'h) list" where
  "advance p tbl = map (\<lambda>(ps, h). (tl ps, h)) (filter (\<lambda>(ps, h). ps \<noteq> [] \<and> hd ps = p) tbl)"

definition leaf :: "(pseg list \<times> 'h) list \<Rightarrow> 'h option" where
  "leaf tbl = map_of tbl []"

fun match_path :: "(pseg list \<times> 'h) list \<Rightarrow> string list \<Rightarrow> ('h \<times> string list) option" where
  "match_path tbl [] = map_option (\<lambda>h. (h, [])) (leaf tbl)"
| "match_path tbl (s # ss) =
     (case match_path (advance (Lit s) tbl) ss of
        Some r \<Rightarrow> Some r
      | None \<Rightarrow>
     (case (if s = '''' then None
            else map_option (\<lambda>(h, ws). (h, s # ws)) (match_path (advance Wild tbl) ss)) of
        Some r \<Rightarrow> Some r
      | None \<Rightarrow> map_option (\<lambda>h. (h, [])) (leaf (advance Rest tbl))))"

definition segments :: "string \<Rightarrow> string list" where
  "segments path = tl (Split path ''/'')"

definition ends_slash :: "string \<Rightarrow> bool" where
  "ends_slash p \<longleftrightarrow> p \<noteq> '''' \<and> last p = CHR ''/''"

definition cleanPath :: "string \<Rightarrow> string" where
  "cleanPath p =
     (if p = '''' then ''/''
      else let q = (if hd p \<noteq> CHR ''/'' then ''/'' @ p else p); np = Clean q in
           if ends_slash q \<and> np \<noteq> ''/'' then np @ ''/'' else np)"

type_synonym 'h mux = "(string \<times> pseg list \<times> 'h) list"

text \<open>A request with method \<open>HEAD\<close> matches the patterns for \<open>GET\<close>.\<close>

definition mux_match :: "'h mux \<Rightarrow> string \<Rightarrow> string \<Rightarrow> ((pseg list \<times> 'h) \<times> string list) option" where
  "mux_match routes m path =
     match_path (map (\<lambda>(_, p, h). (p, p, h))
       (filter (\<lambda>(m', _, _). m' = m \<or> m = ''HEAD'' \<and> m' = ''GET'') routes)) (segments path)"

fun exactMatch :: "((pseg list \<times> 'h) \<times> string list) option \<Rightarrow> string \<Rightarrow> bool" where
  "exactMatch None path = False"
| "exactMatch (Some ((p, h), ws)) path =
     (last p \<noteq> Rest \<or> ends_slash path \<and> length p = length (segments path))"

definition matchingMethods :: "'h mux \<Rightarrow> string \<Rightarrow> string list" where
  "matchingMethods routes path =
     (let ms = filter (\<lambda>m. mux_match routes m path \<noteq> None \<or>
                        \<not> ends_slash path \<and> mux_match routes m (path @ ''/'') \<noteq> None)
                (remdups (map fst routes))
      in sort (if ''GET'' \<in> set ms then ms @ [''HEAD''] else ms))"

text \<open>What the router decides: the pattern's handler with the wildcard values, or its own answer.\<close>

datatype 'h target = Serve 'h "string list" | RedirectTo string | NotAllowed "string list" | Missing

definition with_query :: "http_request \<Rightarrow> string \<Rightarrow> string" where
  "with_query r path = (if hr_RawQuery r = '''' then path else path @ ''?'' @ hr_RawQuery r)"

definition findHandler :: "'h mux \<Rightarrow> http_request \<Rightarrow> 'h target" where
  "findHandler routes r =
     (let m = hr_Method r; path = (if m = ''CONNECT'' then hr_Path r else cleanPath (hr_Path r));
          n = mux_match routes m path in
      if \<not> exactMatch n path \<and> \<not> ends_slash path \<and> path \<noteq> '''' \<and>
         exactMatch (mux_match routes m (path @ ''/'')) (path @ ''/'')
      then RedirectTo (with_query r (cleanPath (hr_Path r) @ ''/''))
      else if path \<noteq> hr_Path r then RedirectTo (with_query r path)
      else case n of
        Some ((_, h), ws) \<Rightarrow> Serve h ws
      | None \<Rightarrow> (let ms = matchingMethods routes path in if ms \<noteq> [] then NotAllowed ms else Missing))"

text \<open>The router redirects with status 307, as of Go 1.26, the version in \<open>go.mod\<close>.\<close>

fun serve_target :: "('h \<Rightarrow> string list \<Rightarrow> 's http_handler) \<Rightarrow> 'h target \<Rightarrow> 's http_handler" where
  "serve_target serve (Serve h ws) r hdr s = serve h ws r hdr s"
| "serve_target serve (RedirectTo url) r hdr s = Ret (http_Redirect r url 307 hdr, s)"
| "serve_target serve (NotAllowed ms) r hdr s =
     Ret (http_Error ''Method Not Allowed'' StatusMethodNotAllowed
       (hdr(''Allow'' \<mapsto> concat (map (\<lambda>m. m @ '', '') (butlast ms)) @ last ms)), s)"
| "serve_target serve Missing r hdr s = Ret (http_NotFound hdr, s)"

section \<open>The routes\<close>

datatype endpoint = Health | ListSensors | GetData | GetAggregate | Info | GridVoltage | NotFound | Dashboard | RootRedirect

definition routes :: "endpoint mux" where
  "routes =
     [(''GET'', [Lit ''api'', Lit ''health''], Health),
      (''GET'', [Lit ''api'', Lit ''sensors''], ListSensors),
      (''GET'', [Lit ''api'', Lit ''data'', Wild], GetData),
      (''GET'', [Lit ''api'', Lit ''data'', Wild, Lit ''aggregate''], GetAggregate),
      (''GET'', [Lit ''api'', Lit ''info''], Info),
      (''GET'', [Lit ''api'', Lit ''analysis'', Lit ''grid_voltage''], GridVoltage),
      (''GET'', [Lit ''api'', Rest], NotFound),
      (''GET'', [Lit ''dashboard''], Dashboard),
      (''GET'', [Rest], RootRedirect)]"

text \<open>What a request meets: the time, the order of the sensor table, the embedded page.\<close>

record serverEnv =
  sv_now :: gotime_ns
  sv_order :: "string list"
  sv_page :: "string option"

definition json_reply :: "response \<Rightarrow> header \<Rightarrow> reply" where
  "json_reply resp hdr = \<lparr>rp_Status = rs_status resp, rp_Header = hdr(''Content-Type'' \<mapsto> ''application/json''),
     rp_Body = JsonBody (rs_body resp)\<rparr>"

definition handleDashboard :: "string option \<Rightarrow> header \<Rightarrow> reply" where
  "handleDashboard page hdr =
     (case page of
        None \<Rightarrow> http_Error ''dashboard not found'' StatusNotFound hdr
      | Some html \<Rightarrow> \<lparr>rp_Status = StatusOK, rp_Header = hdr(''Content-Type'' \<mapsto> ''text/html; charset=utf-8''),
          rp_Body = PageBody html\<rparr>)"

definition handleRootRedirect :: "http_request \<Rightarrow> header \<Rightarrow> reply" where
  "handleRootRedirect r hdr =
     (if hr_Path r \<noteq> ''/'' then http_NotFound hdr else http_Redirect r ''/dashboard'' StatusFound hdr)"

definition handleNotFound :: "header \<Rightarrow> reply" where
  "handleNotFound = http_NotFound"

definition api_request :: "http_request \<Rightarrow> string list \<Rightarrow> request" where
  "api_request r ws = \<lparr>rq_sensor = (case ws of [] \<Rightarrow> '''' | w # _ \<Rightarrow> w), rq_query = hr_query r\<rparr>"

fun serve_endpoint :: "serverEnv \<Rightarrow> ('i, 'd) handler \<Rightarrow> endpoint \<Rightarrow> string list \<Rightarrow> ('i \<times> 'd) http_handler" where
  "serve_endpoint env h Health ws r hdr s = Ret (json_reply (handleHealth h (sv_now env)) hdr, s)"
| "serve_endpoint env h ListSensors ws r hdr s = Ret (json_reply (handleListSensors (sv_order env)) hdr, s)"
| "serve_endpoint env h GetData ws r hdr (i, d) =
     obind (handleGetData h (sv_now env) (api_request r ws) i) (\<lambda>(resp, i'). Ret (json_reply resp hdr, i', d))"
| "serve_endpoint env h GetAggregate ws r hdr (i, d) =
     (case handleGetAggregate h (sv_now env) (api_request r ws) d of (resp, d') \<Rightarrow> Ret (json_reply resp hdr, i, d'))"
| "serve_endpoint env h Info ws r hdr (i, d) =
     obind (handleInfo h i d) (\<lambda>(resp, s'). Ret (json_reply resp hdr, s'))"
| "serve_endpoint env h GridVoltage ws r hdr (i, d) =
     (case handleGridVoltage h (api_request r ws) d of (resp, d') \<Rightarrow> Ret (json_reply resp hdr, i, d'))"
| "serve_endpoint env h NotFound ws r hdr s = Ret (handleNotFound hdr, s)"
| "serve_endpoint env h Dashboard ws r hdr s = Ret (handleDashboard (sv_page env) hdr, s)"
| "serve_endpoint env h RootRedirect ws r hdr s = Ret (handleRootRedirect r hdr, s)"

section \<open>The middleware\<close>

definition versionHeaderMiddleware :: "string \<Rightarrow> 's http_handler \<Rightarrow> 's http_handler" where
  "versionHeaderMiddleware version after r hdr s = after r (hdr(''Goodwe-Daemon-Version'' \<mapsto> version)) s"

definition gzipMiddleware :: "'s http_handler \<Rightarrow> 's http_handler" where
  "gzipMiddleware after r hdr s =
     (if \<not> str_contains ''gzip'' (hr_AcceptEncoding r) then after r hdr s
      else obind (after r (hdr(''Content-Encoding'' \<mapsto> ''gzip'', ''Content-Length'' := None)) s) (\<lambda>(rp, s').
        Ret (rp\<lparr>rp_Body := GzipBody (rp_Body rp)\<rparr>, s')))"

definition corsMiddleware :: "'s http_handler \<Rightarrow> 's http_handler" where
  "corsMiddleware after r hdr s =
     (let hdr1 = hdr(''Access-Control-Allow-Origin'' \<mapsto> ''*'',
        ''Access-Control-Allow-Methods'' \<mapsto> ''GET, POST, DELETE, OPTIONS'',
        ''Access-Control-Allow-Headers'' \<mapsto> ''Content-Type'') in
      if hr_Method r = ''OPTIONS'' then Ret (\<lparr>rp_Status = StatusNoContent, rp_Header = hdr1, rp_Body = NoBody\<rparr>, s)
      else after r hdr1 s)"

text \<open>The request log: the level, the method, the path with its query, and the status.\<close>

datatype logLevel = LevelDebug | LevelWarn

type_synonym logEntry = "logLevel \<times> string \<times> string \<times> int"

definition log_entry :: "bool \<Rightarrow> http_request \<Rightarrow> int \<Rightarrow> logEntry option" where
  "log_entry debug r status =
     (let path = (if hr_RawQuery r \<noteq> '''' then hr_Path r @ ''?'' @ hr_RawQuery r else hr_Path r) in
      if 400 \<le> status then Some (LevelWarn, hr_Method r, path, status)
      else if debug then Some (LevelDebug, hr_Method r, path, status)
      else None)"

definition loggingMiddleware ::
    "bool \<Rightarrow> 's http_handler \<Rightarrow> http_request \<Rightarrow> header \<Rightarrow> 's \<Rightarrow> (reply \<times> logEntry option \<times> 's) outcome" where
  "loggingMiddleware debug after r hdr s =
     obind (after r hdr s) (\<lambda>(rp, s'). Ret (rp, log_entry debug r (rp_Status rp), s'))"

definition buildRoutes ::
    "bool \<Rightarrow> serverEnv \<Rightarrow> ('i, 'd) handler \<Rightarrow> http_request \<Rightarrow> header \<Rightarrow> 'i \<times> 'd \<Rightarrow>
     (reply \<times> logEntry option \<times> 'i \<times> 'd) outcome" where
  "buildRoutes debug env h =
     loggingMiddleware debug (corsMiddleware (gzipMiddleware (versionHeaderMiddleware (hd_daemonVersion h)
       (\<lambda>r. serve_target (serve_endpoint env h) (findHandler routes r) r))))"

definition ServeHTTP ::
    "bool \<Rightarrow> serverEnv \<Rightarrow> ('i, 'd) handler \<Rightarrow> http_request \<Rightarrow> 'i \<times> 'd \<Rightarrow>
     (reply \<times> logEntry option \<times> 'i \<times> 'd) outcome" where
  "ServeHTTP debug env h r s = buildRoutes debug env h r Map.empty s"

section \<open>What the router decides\<close>

lemma join_path_snoc: "es \<noteq> [] \<Longrightarrow> join_path (es @ [e]) = join_path es @ ''/'' @ e"
  by (induction es rule: join_path.induct) simp_all

lemma last_join_path:
  "\<lbrakk>es \<noteq> []; list_all proper_elem es\<rbrakk> \<Longrightarrow> join_path es \<noteq> '''' \<and> last (join_path es) \<noteq> CHR ''/''"
proof (induction es rule: join_path.induct)
  case (2 e)
  then show ?case by (simp add: proper_elem_def) (metis last_in_set)
qed auto

lemma proper_path:
  assumes "es \<noteq> []" "list_all proper_elem es"
  shows "segments (''/'' @ join_path es) = es" "segments ((''/'' @ join_path es) @ ''/'') = es @ ['''']"
    "cleanPath (''/'' @ join_path es) = ''/'' @ join_path es" "\<not> ends_slash (''/'' @ join_path es)"
proof -
  have "\<forall>e \<in> set es. CHR ''/'' \<notin> set e" using assms(2) by (auto simp: list_all_iff proper_elem_def)
  then have "Split (''/'' @ join_path es) ''/'' = [] # es" "Split (''/'' @ join_path (es @ [''''])) ''/'' = [] # es @ ['''']"
    using assms(1) by (intro Split_rooted; simp)+
  then show "segments (''/'' @ join_path es) = es" "segments ((''/'' @ join_path es) @ ''/'') = es @ ['''']"
    using assms(1) by (simp_all add: segments_def join_path_snoc)
  show e: "\<not> ends_slash (''/'' @ join_path es)" using last_join_path [OF assms] by (simp add: ends_slash_def)
  then show "cleanPath (''/'' @ join_path es) = ''/'' @ join_path es"
    using Clean_proper [OF assms] by (simp add: cleanPath_def Let_def)
qed

text \<open>The decision for a path of proper elements, written out.\<close>

fun decide :: "http_request \<Rightarrow> string list \<Rightarrow> endpoint target" where
  "decide r [a] =
     (if a = ''api'' then RedirectTo (with_query r ''/api/'')
      else Serve (if a = ''dashboard'' then Dashboard else RootRedirect) [])"
| "decide r [a, b] =
     Serve (if a \<noteq> ''api'' then RootRedirect else if b = ''health'' then Health
            else if b = ''sensors'' then ListSensors else if b = ''info'' then Info else NotFound) []"
| "decide r [a, b, c] =
     (if a = ''api'' \<and> b = ''data'' then Serve GetData [c]
      else Serve (if a \<noteq> ''api'' then RootRedirect
                  else if b = ''analysis'' \<and> c = ''grid_voltage'' then GridVoltage else NotFound) [])"
| "decide r [a, b, c, d] =
     (if a = ''api'' \<and> b = ''data'' \<and> d = ''aggregate'' then Serve GetAggregate [c]
      else Serve (if a \<noteq> ''api'' then RootRedirect else NotFound) [])"
| "decide r es = Serve (if es \<noteq> [] \<and> hd es = ''api'' then NotFound else RootRedirect) []"

definition get_table :: "(pseg list \<times> pseg list \<times> endpoint) list" where
  "get_table = map (\<lambda>(_, p, h). (p, p, h)) routes"

lemma get_match:
  "m = ''GET'' \<or> m = ''HEAD'' \<Longrightarrow> mux_match routes m path = match_path get_table (segments path)"
  by (auto simp: mux_match_def get_table_def routes_def)

lemma advance_Nil [simp]: "advance p [] = []" by (simp add: advance_def)
lemma advance_Cons [simp]:
  "advance p ((ps, h) # tbl) = (if ps \<noteq> [] \<and> hd ps = p then (tl ps, h) # advance p tbl else advance p tbl)"
  by (simp add: advance_def)

lemma match_path_Nil [simp]: "match_path [] ss = None"
  by (induction ss) (simp_all add: leaf_def)

text \<open>The tables the match walks through.\<close>

definition api_table :: "(pseg list \<times> pseg list \<times> endpoint) list" where
  "api_table = advance (Lit ''api'') get_table"

definition data_table :: "(pseg list \<times> pseg list \<times> endpoint) list" where
  "data_table = advance (Lit ''data'') api_table"

lemmas table_defs = get_table_def routes_def api_table_def data_table_def leaf_def

lemma walk_root:
  "match_path get_table (a # ss) =
     (case if a = ''api'' then match_path api_table ss
           else if a = ''dashboard'' then match_path [([], [Lit ''dashboard''], Dashboard)] ss else None of
        None \<Rightarrow> Some (([Rest], RootRedirect), []) | r \<Rightarrow> r)"
proof -
  have "advance (Lit a) get_table = (if a = ''api'' then api_table
      else if a = ''dashboard'' then [([], [Lit ''dashboard''], Dashboard)] else [])"
    by (simp add: table_defs)
  moreover have "advance Wild get_table = []" "leaf (advance Rest get_table) = Some ([Rest], RootRedirect)"
    by (simp_all add: table_defs)
  ultimately show ?thesis by (simp split: option.split)
qed

lemma walk_leaf: "match_path [([], h)] ss = (if ss = [] then Some (h, []) else None)"
  by (cases ss) (simp_all add: leaf_def)

lemma walk_api:
  "match_path api_table [] = None"
  "match_path api_table (b # ss) =
     (case if b = ''data'' then match_path data_table ss
           else if b = ''analysis'' \<and> ss = [''grid_voltage'']
                then Some (([Lit ''api'', Lit ''analysis'', Lit ''grid_voltage''], GridVoltage), [])
           else if ss = [] \<and> b = ''health'' then Some (([Lit ''api'', Lit ''health''], Health), [])
           else if ss = [] \<and> b = ''sensors'' then Some (([Lit ''api'', Lit ''sensors''], ListSensors), [])
           else if ss = [] \<and> b = ''info'' then Some (([Lit ''api'', Lit ''info''], Info), [])
           else None of
        None \<Rightarrow> Some (([Lit ''api'', Rest], NotFound), []) | r \<Rightarrow> r)"
proof -
  let ?g = "[Lit ''api'', Lit ''analysis'', Lit ''grid_voltage'']"
  show "match_path api_table [] = None" by (simp add: table_defs)
  have "advance (Lit b) api_table = (if b = ''data'' then data_table
      else if b = ''analysis'' then [([Lit ''grid_voltage''], ?g, GridVoltage)]
      else if b = ''health'' then [([], [Lit ''api'', Lit ''health''], Health)]
      else if b = ''sensors'' then [([], [Lit ''api'', Lit ''sensors''], ListSensors)]
      else if b = ''info'' then [([], [Lit ''api'', Lit ''info''], Info)] else [])"
    by (simp add: table_defs)
  moreover have "advance Wild api_table = []" "leaf (advance Rest api_table) = Some ([Lit ''api'', Rest], NotFound)"
    by (simp_all add: table_defs)
  moreover have "match_path [([Lit ''grid_voltage''], ?g, GridVoltage)] ss =
      (if ss = [''grid_voltage''] then Some ((?g, GridVoltage), []) else None)"
    by (cases ss) (auto simp: leaf_def walk_leaf)
  ultimately show "match_path api_table (b # ss) = (case if b = ''data'' then match_path data_table ss
           else if b = ''analysis'' \<and> ss = [''grid_voltage'']
                then Some (([Lit ''api'', Lit ''analysis'', Lit ''grid_voltage''], GridVoltage), [])
           else if ss = [] \<and> b = ''health'' then Some (([Lit ''api'', Lit ''health''], Health), [])
           else if ss = [] \<and> b = ''sensors'' then Some (([Lit ''api'', Lit ''sensors''], ListSensors), [])
           else if ss = [] \<and> b = ''info'' then Some (([Lit ''api'', Lit ''info''], Info), [])
           else None of
        None \<Rightarrow> Some (([Lit ''api'', Rest], NotFound), []) | r \<Rightarrow> r)"
    by (cases "b = ''data''"; cases "b = ''analysis''"; cases "b = ''health''"; cases "b = ''sensors''"; cases "b = ''info''")
      (simp_all add: walk_leaf split: option.split)
qed

lemma walk_data:
  "match_path data_table [] = None"
  "match_path data_table (c # ss) =
     (if c = '''' then None
      else if ss = [] then Some (([Lit ''api'', Lit ''data'', Wild], GetData), [c])
      else if ss = [''aggregate''] then Some (([Lit ''api'', Lit ''data'', Wild, Lit ''aggregate''], GetAggregate), [c])
      else None)"
proof -
  let ?d = "[Lit ''api'', Lit ''data'', Wild]" and ?a = "[Lit ''api'', Lit ''data'', Wild, Lit ''aggregate'']"
  have t: "data_table = [([Wild], ?d, GetData), ([Wild, Lit ''aggregate''], ?a, GetAggregate)]"
    by (simp add: table_defs)
  show "match_path data_table [] = None" by (simp add: t leaf_def)
  have "match_path [([], ?d, GetData), ([Lit ''aggregate''], ?a, GetAggregate)] ss =
      (if ss = [] then Some ((?d, GetData), [])
       else if ss = [''aggregate''] then Some ((?a, GetAggregate), []) else None)"
    by (cases ss) (auto simp: leaf_def walk_leaf)
  then show "match_path data_table (c # ss) = (if c = '''' then None
      else if ss = [] then Some (([Lit ''api'', Lit ''data'', Wild], GetData), [c])
      else if ss = [''aggregate''] then Some (([Lit ''api'', Lit ''data'', Wild, Lit ''aggregate''], GetAggregate), [c])
      else None)"
    by (simp add: t leaf_def)
qed

lemmas walk = walk_root walk_api walk_data walk_leaf

declare match_path.simps [simp del]

lemma path_shapes:
  assumes "es \<noteq> []"
  obtains a where "es = [a]" | a b where "es = [a, b]" | a b c where "es = [a, b, c]"
    | a b c d where "es = [a, b, c, d]" | a b c d e fs where "es = a # b # c # d # e # fs"
  using assms by (metis list.exhaust)

lemma decide_serves:
  assumes "list_all proper_elem es" "es \<noteq> []" "es \<noteq> [''api'']"
  shows "\<exists>p h ws. match_path get_table es = Some ((p, h), ws) \<and> decide r es = Serve h ws"
  by (rule path_shapes [OF assms(2)]) (use assms in \<open>simp_all add: walk proper_elem_def\<close>)

text \<open>Only the path \<open>/api\<close> would be matched exactly with a slash appended.\<close>

lemma slash_inexact:
  assumes "es \<noteq> []" "list_all proper_elem es"
  shows "exactMatch (match_path get_table (es @ [''''])) ((''/'' @ join_path es) @ ''/'') \<longleftrightarrow> es = [''api'']"
proof -
  have "match_path get_table (es @ ['''']) =
      Some (if hd es = ''api'' then ([Lit ''api'', Rest], NotFound) else ([Rest], RootRedirect), [])"
    by (rule path_shapes [OF assms(1)]; simp add: walk split: option.split)
  moreover have "length (segments ((''/'' @ join_path es) @ ''/'')) = Suc (length es)"
    unfolding proper_path(2) [OF assms] by simp
  moreover have "ends_slash ((''/'' @ join_path es) @ ''/'')" by (simp add: ends_slash_def)
  ultimately show ?thesis using assms(1) by (cases es) (auto simp del: append_Cons)
qed

lemma decided:
  assumes "es \<noteq> []" "list_all proper_elem es" "hr_Path r = ''/'' @ join_path es"
    and "hr_Method r = ''GET'' \<or> hr_Method r = ''HEAD''"
  shows "findHandler routes r = decide r es"
proof -
  define P where "P = ''/'' @ join_path es"
  note path = proper_path [OF assms(1,2), folded P_def]
  have m: "hr_Method r \<noteq> ''CONNECT''" "hr_Path r = P" using assms(3,4) by (auto simp: P_def)
  have n: "mux_match routes (hr_Method r) P = match_path get_table es"
    "mux_match routes (hr_Method r) (P @ ''/'') = match_path get_table (es @ [''''])"
    using get_match [OF assms(4)] path by simp_all
  have slash: "exactMatch (match_path get_table (es @ [''''])) (P @ ''/'') \<longleftrightarrow> es = [''api'']" "P \<noteq> ''''"
    using slash_inexact [OF assms(1,2)] by (simp_all add: P_def)
  show ?thesis
  proof (cases "es = [''api'']")
    case True
    have "match_path get_table [''api''] = Some (([Rest], RootRedirect), [])" by (simp add: walk)
    then have "\<not> exactMatch (match_path get_table es) P" using path(4) by (simp add: True)
    moreover have "P @ ''/'' = ''/api/''" by (simp add: P_def True)
    ultimately show ?thesis using slash path m n True by (simp add: findHandler_def Let_def)
  next
    case False
    obtain p h ws where "match_path get_table es = Some ((p, h), ws)" "decide r es = Serve h ws"
      using decide_serves [OF assms(2,1) False] by blast
    then show ?thesis using slash path m n False by (simp add: findHandler_def Let_def)
  qed
qed

text \<open>
  C12: The router sends every GET and HEAD request with a clean path to the handler that the path
  names, with the sensor's name as the wildcard's value: data and aggregates for the paths under
  \<open>/api/data\<close>, the other endpoints for their exact paths, \<open>handleNotFound\<close> for anything else under
  \<open>/api\<close>, and the root handler for the rest; only \<open>/api\<close> itself is redirected.
\<close>

theorem routes_decide:
  assumes "es \<noteq> []" "list_all proper_elem es" "hr_Path r = ''/'' @ join_path es"
    and "hr_Method r = ''GET'' \<or> hr_Method r = ''HEAD''"
  shows "findHandler routes r = decide r es"
  using assms by (rule decided)

lemma routes_decide_witness:
  "findHandler routes \<lparr>hr_Method = ''HEAD'', hr_Path = ''/api/data/vpv1'', hr_RawQuery = '''', hr_AcceptEncoding = '''',
     hr_query = (\<lambda>_. '''')\<rparr> = Serve GetData [''vpv1'']"
  by (subst routes_decide [of "[''api'', ''data'', ''vpv1'']"]) (simp_all add: proper_elem_def)

section \<open>Requests with other methods\<close>

lemma get_matches_all: "ss \<noteq> [] \<Longrightarrow> match_path get_table ss \<noteq> None"
  by (cases ss) (simp_all add: walk_root split: option.split)

lemma segments_slash: "segments (p @ ''/'') \<noteq> []"
proof -
  have "cut_at ''/'' (p @ ''/'') \<noteq> None" by (induction p) auto
  then obtain a b where "cut_at ''/'' (p @ ''/'') = Some (a, b)" by auto
  then show ?thesis
    using SplitN_nonempty [of b "''/''" "length p"] by (simp add: segments_def Split_def)
qed

lemma methods_of_routes: "matchingMethods routes path = [''GET'', ''HEAD'']"
proof -
  have all: "remdups (map fst routes) = [''GET'']" by (simp add: routes_def)
  have "mux_match routes ''GET'' (p @ ''/'') \<noteq> None" for p
    using get_match get_matches_all [OF segments_slash] by simp
  moreover have "ends_slash path \<Longrightarrow> \<exists>p. path = p @ ''/''"
    by (metis append_butlast_last_id ends_slash_def)
  ultimately have "mux_match routes ''GET'' path \<noteq> None \<or>
      \<not> ends_slash path \<and> mux_match routes ''GET'' (path @ ''/'') \<noteq> None"
    by blast
  then have "filter (\<lambda>m. mux_match routes m path \<noteq> None \<or>
      \<not> ends_slash path \<and> mux_match routes m (path @ ''/'') \<noteq> None) [''GET''] = [''GET'']" by simp
  moreover have "sort [''GET'', ''HEAD''] = [''GET'', ''HEAD'']" by (rule sorted_sort_id) (simp add: less_eq_list_code)
  ultimately show ?thesis by (simp only: matchingMethods_def all Let_def) simp
qed

lemma other_method_target:
  assumes "hr_Method r \<noteq> ''GET''" "hr_Method r \<noteq> ''HEAD''"
  shows "(\<exists>url. findHandler routes r = RedirectTo url) \<or> findHandler routes r = NotAllowed [''GET'', ''HEAD'']"
proof -
  have "mux_match routes (hr_Method r) path = None" for path
    using assms by (simp add: mux_match_def routes_def)
  then show ?thesis by (simp add: findHandler_def Let_def methods_of_routes)
qed

text \<open>
  C39: Only GET and HEAD requests reach a handler: any other request, for any path, leaves the
  inverter and the database alone and is answered, never with a panic, by an empty 204 when it is an
  OPTIONS request and otherwise by a redirect to the clean path or a 405 that names the methods
  GET and HEAD, although the header it carries offers POST and DELETE.
\<close>

theorem other_methods_refused:
  assumes "hr_Method r \<noteq> ''GET''" "hr_Method r \<noteq> ''HEAD''"
  shows "\<exists>rp entry. ServeHTTP debug env h r s = Ret (rp, entry, s) \<and>
    rp_Header rp ''Access-Control-Allow-Methods'' = Some ''GET, POST, DELETE, OPTIONS'' \<and>
    (if hr_Method r = ''OPTIONS'' then rp_Status rp = 204 \<and> rp_Body rp = NoBody
     else rp_Status rp = 307 \<or> rp_Status rp = 405 \<and> rp_Header rp ''Allow'' = Some ''GET, HEAD'')"
  using other_method_target [OF assms]
  by (auto simp: ServeHTTP_def buildRoutes_def loggingMiddleware_def corsMiddleware_def gzipMiddleware_def
      versionHeaderMiddleware_def http_Redirect_def http_Error_def StatusNoContent_def StatusMethodNotAllowed_def Let_def)

lemma other_methods_refused_witness:
  "\<exists>rp entry. ServeHTTP False \<lparr>sv_now = 0, sv_order = [], sv_page = None\<rparr> (handler_of ''v1'' (NewDaemon None (Some (volt_db [])) ''inv'' 0 0 0))
     \<lparr>hr_Method = ''DELETE'', hr_Path = ''/api/data/vpv1'', hr_RawQuery = '''', hr_AcceptEncoding = ''gzip'',
     hr_query = (\<lambda>_. '''')\<rparr> ((), volt_db []) = Ret (rp, entry, (), volt_db []) \<and>
     rp_Header rp ''Access-Control-Allow-Methods'' = Some ''GET, POST, DELETE, OPTIONS'' \<and>
     (rp_Status rp = 307 \<or> rp_Status rp = 405 \<and> rp_Header rp ''Allow'' = Some ''GET, HEAD'')"
  using other_methods_refused [of "\<lparr>hr_Method = ''DELETE'', hr_Path = ''/api/data/vpv1'', hr_RawQuery = '''',
    hr_AcceptEncoding = ''gzip'', hr_query = (\<lambda>_. '''')\<rparr>"] by simp

section \<open>The header of a reply\<close>

definition own_keys :: "string set" where
  "own_keys = {''Content-Type'', ''Content-Length'', ''X-Content-Type-Options'', ''Location'', ''Allow''}"

fun plain :: "body \<Rightarrow> bool" where
  "plain (GzipBody b) = False"
| "plain b = True"

lemma endpoint_header:
  assumes "serve_endpoint env h e ws r hdr s = Ret (rp, s')" "k \<notin> own_keys"
  shows "rp_Header rp k = hdr k \<and> plain (rp_Body rp)"
  using assms
  by (cases "(env, h, e, ws, r, hdr, s)" rule: serve_endpoint.cases)
    (auto simp: own_keys_def json_reply_def handleNotFound_def http_NotFound_def http_Error_def handleDashboard_def
      handleRootRedirect_def http_Redirect_def Let_def obind_Ret_iff split: option.splits prod.splits if_splits)

lemma target_header:
  assumes "serve_target (serve_endpoint env h) tgt r hdr s = Ret (rp, s')" "k \<notin> own_keys"
  shows "rp_Header rp k = hdr k \<and> plain (rp_Body rp)"
proof (cases tgt)
  case (Serve e ws)
  with assms endpoint_header show ?thesis by simp
qed (use assms in \<open>auto simp: own_keys_def http_NotFound_def http_Error_def http_Redirect_def Let_def\<close>)

text \<open>
  C25: Every reply carries the permissive CORS header; every reply but the one to an OPTIONS request
  carries the version of the daemon; the header says gzip exactly when the body is compressed, which it
  is exactly when the client accepts it and the request is no OPTIONS request; and a reply with an
  error status is always logged as a warning, any other one only in debug mode.
\<close>

theorem reply_header_true:
  assumes "ServeHTTP debug env h r s = Ret (rp, entry, s')"
  shows "rp_Header rp ''Access-Control-Allow-Origin'' = Some ''*'' \<and>
    rp_Header rp ''Goodwe-Daemon-Version'' = (if hr_Method r = ''OPTIONS'' then None else Some (hd_daemonVersion h)) \<and>
    (rp_Header rp ''Content-Encoding'' = Some ''gzip'' \<longleftrightarrow> \<not> plain (rp_Body rp)) \<and>
    (\<not> plain (rp_Body rp) \<longleftrightarrow> hr_Method r \<noteq> ''OPTIONS'' \<and> str_contains ''gzip'' (hr_AcceptEncoding r)) \<and>
    (case entry of None \<Rightarrow> rp_Status rp < 400 \<and> \<not> debug
     | Some (lvl, m, path, status) \<Rightarrow> status = rp_Status rp \<and> (lvl = LevelWarn \<longleftrightarrow> 400 \<le> status) \<and> (debug \<or> lvl = LevelWarn))"
proof -
  have keys: "''Access-Control-Allow-Origin'' \<notin> own_keys" "''Goodwe-Daemon-Version'' \<notin> own_keys"
    "''Content-Encoding'' \<notin> own_keys" by (simp_all add: own_keys_def)
  have entry: "entry = log_entry debug r (rp_Status rp)"
    using assms by (auto simp: ServeHTTP_def buildRoutes_def loggingMiddleware_def obind_Ret_iff)
  then have log: "case entry of None \<Rightarrow> rp_Status rp < 400 \<and> \<not> debug
     | Some (lvl, m, path, status) \<Rightarrow> status = rp_Status rp \<and> (lvl = LevelWarn \<longleftrightarrow> 400 \<le> status) \<and> (debug \<or> lvl = LevelWarn)"
    by (auto simp: log_entry_def Let_def)
  note defs = ServeHTTP_def buildRoutes_def loggingMiddleware_def corsMiddleware_def Let_def
  show ?thesis
  proof (cases "hr_Method r = ''OPTIONS''")
    case True
    with assms log show ?thesis by (auto simp: defs)
  next
    case False
    then obtain hdr rp0 where run: "serve_target (serve_endpoint env h) (findHandler routes r) r hdr s = Ret (rp0, s')"
      "rp_Header rp = rp_Header rp0" "hdr ''Access-Control-Allow-Origin'' = Some ''*''"
      "hdr ''Goodwe-Daemon-Version'' = Some (hd_daemonVersion h)"
      "if str_contains ''gzip'' (hr_AcceptEncoding r) then rp_Body rp = GzipBody (rp_Body rp0) \<and> hdr ''Content-Encoding'' = Some ''gzip''
       else rp = rp0 \<and> hdr ''Content-Encoding'' = None"
      using assms by (auto simp: defs gzipMiddleware_def versionHeaderMiddleware_def obind_Ret_iff split: if_splits)
    with keys [THEN target_header [OF run(1)]] False log show ?thesis by (auto split: if_splits)
  qed
qed

definition demo_request :: "string \<Rightarrow> http_request" where
  "demo_request path = \<lparr>hr_Method = ''GET'', hr_Path = path, hr_RawQuery = '''', hr_AcceptEncoding = ''gzip, br'', hr_query = (\<lambda>_. '''')\<rparr>"

lemma demo_request_sel [simp]:
  "hr_Method (demo_request p) = ''GET''" "hr_AcceptEncoding (demo_request p) = ''gzip, br''" "hr_Path (demo_request p) = p"
  by (simp_all add: demo_request_def)

lemma reply_header_true_witness:
  "\<exists>rp entry s'. ServeHTTP False \<lparr>sv_now = 0, sv_order = [], sv_page = None\<rparr>
      (handler_of ''v1'' (NewDaemon None (Some (volt_db [])) ''inv'' 0 0 0)) (demo_request ''/api/health'') ((), volt_db []) = Ret (rp, entry, s') \<and>
     rp_Header rp ''Goodwe-Daemon-Version'' = Some ''v1'' \<and> \<not> plain (rp_Body rp)"
proof -
  let ?h = "handler_of ''v1'' (NewDaemon None (Some (volt_db [])) ''inv'' 0 0 0) :: (unit, db) handler"
  let ?run = "ServeHTTP False \<lparr>sv_now = 0, sv_order = [], sv_page = None\<rparr> ?h (demo_request ''/api/health'') ((), volt_db [])"
  have "findHandler routes (demo_request ''/api/health'') = decide (demo_request ''/api/health'') [''api'', ''health'']"
    by (rule decided) (simp_all add: proper_elem_def)
  then have "findHandler routes (demo_request ''/api/health'') = Serve Health []" by simp
  then obtain rp entry s' where run: "?run = Ret (rp, entry, s')"
    by (simp add: ServeHTTP_def buildRoutes_def loggingMiddleware_def corsMiddleware_def gzipMiddleware_def
        versionHeaderMiddleware_def Let_def)
  from reply_header_true [OF run] have "rp_Header rp ''Goodwe-Daemon-Version'' = Some ''v1'' \<and> \<not> plain (rp_Body rp)"
    by (simp add: handler_of_def)
  with run show ?thesis by blast
qed

section \<open>The request for a sensor's history\<close>

definition slashless :: "string \<Rightarrow> bool" where
  "slashless s \<longleftrightarrow> s \<noteq> '''' \<and> list_all (\<lambda>c. c \<noteq> CHR ''/'' \<and> c \<noteq> CHR ''.'') s"

lemma names_slashless: "list_all slashless (map fst (block_sensors b))"
proof (cases b)
  case BlockMain
  then show ?thesis by (simp add: registry_defs) code_simp
next
  case BlockBattery
  then show ?thesis by (simp add: registry_defs) code_simp
next
  case BlockMeter
  then show ?thesis by (simp add: registry_defs) code_simp
next
  case BlockMPPT
  then show ?thesis by (simp add: registry_defs) code_simp
qed

lemma all_names_proper: "n \<in> set all_names \<Longrightarrow> proper_elem n"
proof -
  assume "n \<in> set all_names"
  then obtain b where "n \<in> set (map fst (block_sensors b))" by (auto simp only: all_names_iff)
  with names_slashless [of b] have "slashless n" by (simp only: list_all_iff)
  then have "n \<noteq> ''''" "CHR ''/'' \<notin> set n" "CHR ''.'' \<notin> set n"
    unfolding slashless_def list_all_iff by blast+
  then show "proper_elem n" unfolding proper_elem_def by auto
qed

lemma serve_aggregate:
  assumes "proper_elem name" "hr_Method r = ''GET''" "hr_Path r = ''/api/data/'' @ name @ ''/aggregate''"
    and "handleGetAggregate h (sv_now env) (api_request r [name]) d = (resp, d')"
  shows "\<exists>rp. ServeHTTP debug env h r (i, d) = Ret (rp, log_entry debug r (rs_status resp), i, d') \<and>
    rp_Status rp = rs_status resp \<and> rp_Header rp ''Content-Type'' = Some ''application/json'' \<and>
    rp_Body rp = (if str_contains ''gzip'' (hr_AcceptEncoding r) then GzipBody (JsonBody (rs_body resp)) else JsonBody (rs_body resp))"
proof -
  have "findHandler routes r = decide r [''api'', ''data'', name, ''aggregate'']"
    using assms(1-3) by (intro decided) (simp_all add: proper_elem_def)
  then have "findHandler routes r = Serve GetAggregate [name]" by simp
  then show ?thesis
    using assms(2,4) by (simp add: ServeHTTP_def buildRoutes_def loggingMiddleware_def corsMiddleware_def gzipMiddleware_def
        versionHeaderMiddleware_def json_reply_def Let_def)
qed

end
