(* ===== verification/Probe.thy ===== *)
theory Probe
  imports Daemon_Correct Discovery Go_Time
begin

text \<open>
  The command-line client, \<open>cmd/goodwe/main.go\<close>: what it prints to the standard output and the status
  it exits with. What \<open>Discover\<close> has found, the local time zone, the clock and the order in which Go
  iterates the sensor table are arguments; the records of the logger, which share the standard
  output, and the usage text are left out.
\<close>

section \<open>Formatting\<close>

text \<open>\<open>%.2f\<close>: the exact decimal expansion, rounded to two digits, halves to even.\<close>

definition fixed2 :: "nat \<Rightarrow> string" where
  "fixed2 n = show_nat (n div 100) @ ''.'' @ [digit (n div 10 mod 10), digit (n mod 10)]"

fun fmt_2f :: "f64 \<Rightarrow> string" where
  "fmt_2f (Fin q) = (if q < 0 then ''-'' else '''') @ fixed2 (nat (round_even (\<bar>q\<bar> * 100)))"
| "fmt_2f NegZero = ''-'' @ fixed2 0"
| "fmt_2f NaN = ''NaN''"
| "fmt_2f PosInf = ''+Inf''"
| "fmt_2f NegInf = ''-Inf''"

text \<open>The time a sensor gives, in the local zone: the offset from UTC at a local time is an argument.\<close>

fun format_local :: "(int \<Rightarrow> int) \<Rightarrow> gotime \<Rightarrow> string" where
  "format_local zone TimeZero = format_RFC3339 (utc zero_time)"
| "format_local zone (LocalTime s) =
     format_RFC3339 \<lparr>z_instant = (s - zone s) * 10 ^ 9, z_offset = zone s\<rparr>"

fun formatSensorValue :: "(int \<Rightarrow> int) \<Rightarrow> sval \<Rightarrow> string" where
  "formatSensorValue zone (VFloat x) = fmt_2f x"
| "formatSensorValue zone (VTime t) = format_local zone t"
| "formatSensorValue zone (VString t) = t"

definition formatSensorOutput :: "(int \<Rightarrow> int) \<Rightarrow> string \<Rightarrow> sensorValue \<Rightarrow> string" where
  "formatSensorOutput zone name sv =
     (let valStr = formatSensorValue zone (sv_Value sv)
      in if sv_Unit sv \<noteq> '''' then name @ '': '' @ valStr @ '' '' @ sv_Unit sv
         else name @ '': '' @ valStr)"

text \<open>\<open>version (rev)\<close> with the first seven characters of the revision the binary was built from.\<close>

definition getVersion :: "string \<Rightarrow> string option \<Rightarrow> string" where
  "getVersion version vcs_revision =
     (case vcs_revision of
        None \<Rightarrow> version
      | Some r \<Rightarrow> version @ '' ('' @ take 7 r @ '')'')"

section \<open>Modes\<close>

text \<open>The lines printed, the exit status when the program has ended, and the inverter.\<close>

type_synonym 's printed = "string list \<times> int option \<times> 's"

definition printing :: "string list \<Rightarrow> 's printed outcome \<Rightarrow> 's printed outcome" where
  "printing ls r = obind r (\<lambda>(out, st, s). Ret (ls @ out, st, s))"

text \<open>\<open>-listsensors\<close>.\<close>

definition list_group :: "(string \<rightharpoonup> string list) \<Rightarrow> string \<Rightarrow> string list" where
  "list_group groups block =
     (let names = (case groups block of None \<Rightarrow> [] | Some l \<Rightarrow> l)
      in if names = [] then [] else '''' # ('' '' @ block @ '':'') # map (\<lambda>s. ''  - '' @ s) names)"

definition list_output :: "string list \<Rightarrow> string list" where
  "list_output order =
     (let groups = GetSensorNamesByBlock order
      in ''Available sensors:'' # concat (map (list_group groups) [''Main Telemetry'', ''Battery'', ''Meter'', ''MPPT'']))"

text \<open>\<open>-info\<close>; the device information is a nil pointer when \<open>GetInfo\<close> has returned an error.\<close>

definition info_lines :: "info \<Rightarrow> string list" where
  "info_lines i =
     [''Inverter Information:'', ''  Serial:     '' @ in_SerialNumber i, ''  Model:      '' @ in_Model i,
      ''  Firmware:   '' @ in_Firmware i, ''  DSP:        '' @ in_DSPVersion i, ''  ARM:        '' @ in_ARMVersion i] @
     (if 0 < in_RatedPower i then [''  Rated:      '' @ show_int (in_RatedPower i) @ '' W''] else [])"

text \<open>
  \<open>%s\<close> of the value of \<open>work_mode_label\<close>, which is a text; what \<open>fmt\<close> prints for a value of another
  dynamic type is an argument.
\<close>

fun fmt_s :: "(sval \<Rightarrow> string) \<Rightarrow> sval \<Rightarrow> string" where
  "fmt_s bad (VString t) = t"
| "fmt_s bad v = bad v"

fun show_info :: "(sval \<Rightarrow> string) \<Rightarrow> 's inverterOps \<Rightarrow> info option \<Rightarrow> 's \<Rightarrow> 's printed outcome" where
  "show_info bad I None s = Panic"
| "show_info bad I (Some i) s =
     obind (io_ReadSensor I ''work_mode_label'' s) (\<lambda>(r, s').
       Ret (info_lines i @ (case r of Inl _ \<Rightarrow> [] | Inr v \<Rightarrow> [''  Mode:       '' @ fmt_s bad (sv_Value v)]), Some 0, s'))"

text \<open>\<open>-readsensor\<close> without polling: the first error ends the program.\<close>

fun read_once :: "(int \<Rightarrow> int) \<Rightarrow> 's inverterOps \<Rightarrow> string list \<Rightarrow> 's \<Rightarrow> 's printed outcome" where
  "read_once zone I [] s = Ret ([], Some 0, s)"
| "read_once zone I (name # names) s =
     obind (io_ReadSensor I name s) (\<lambda>(r, s'). case r of
       Inl err \<Rightarrow> Ret ([], Some 1, s')
     | Inr val \<Rightarrow> printing [formatSensorOutput zone name val] (read_once zone I names s'))"

text \<open>One round of polling: a sensor that cannot be read is skipped.\<close>

fun poll_round :: "(int \<Rightarrow> int) \<Rightarrow> 's inverterOps \<Rightarrow> string list \<Rightarrow> 's \<Rightarrow> (string list \<times> 's) outcome" where
  "poll_round zone I [] s = Ret ([], s)"
| "poll_round zone I (name # names) s =
     obind (io_ReadSensor I name s) (\<lambda>(r, s').
       obind (poll_round zone I names s') (\<lambda>(out, s'').
         Ret ((case r of Inl _ \<Rightarrow> [] | Inr val \<Rightarrow> [formatSensorOutput zone name val]) @ out, s'')))"

text \<open>The polling loop over what happens next; on an interrupt \<open>main\<close> returns and the deferred \<open>Close\<close> runs.\<close>

datatype pollEvent = Elapsed zoned | Interrupt

fun poll_forever :: "(int \<Rightarrow> int) \<Rightarrow> 's inverterOps \<Rightarrow> string list \<Rightarrow> pollEvent list \<Rightarrow> 's \<Rightarrow> 's printed outcome" where
  "poll_forever zone I names [] s = Ret ([], None, s)"
| "poll_forever zone I names (Interrupt # es) s = obind (io_Close I s) (\<lambda>(_, s'). Ret ([], Some 0, s'))"
| "poll_forever zone I names (Elapsed now # es) s =
     obind (poll_round zone I names s) (\<lambda>(out, s').
       printing ((''timestamp: '' @ format_RFC3339 now) # out @ ['''']) (poll_forever zone I names es s'))"

section \<open>The program\<close>

record probeFlags =
  pf_ip :: string
  pf_pollInterval :: int
  pf_readSensor :: string
  pf_listSensors :: bool
  pf_showInfo :: bool
  pf_showVersion :: bool

text \<open>What the program meets: build information, zone, map order, the events of the polling loop.\<close>

record probeEnv =
  pe_version :: string
  pe_zone :: "int \<Rightarrow> int"
  pe_order :: "string list"
  pe_bad :: "sval \<Rightarrow> string"
  pe_events :: "pollEvent list"

text \<open>\<open>strings.TrimSpace\<close> of ASCII text.\<close>

definition is_space :: "char \<Rightarrow> bool" where
  "is_space c \<longleftrightarrow> c \<in> {CHR 0x09, CHR 0x0A, CHR 0x0B, CHR 0x0C, CHR 0x0D, CHR 0x20}"

definition TrimSpace :: "string \<Rightarrow> string" where
  "TrimSpace s = rev (dropWhile is_space (rev (dropWhile is_space s)))"

definition sensor_args :: "string \<Rightarrow> string list" where
  "sensor_args arg = (if arg = '''' then [] else map TrimSpace (Split arg '',''))"

text \<open>
  After the discovery. The deferred \<open>Close\<close> runs when \<open>main\<close> returns; \<open>os.Exit\<close> skips it.
\<close>

definition probe_session :: "probeFlags \<Rightarrow> probeEnv \<Rightarrow> 's inverterOps \<Rightarrow> 's \<Rightarrow> 's printed outcome" where
  "probe_session f env I s =
     obind (io_Connect I s) (\<lambda>(err, s1). if err \<noteq> None then Ret ([], Some 1, s1) else
     obind (io_GetInfo I s1) (\<lambda>(r, s2).
     let i = (case r of Inl _ \<Rightarrow> None | Inr i \<Rightarrow> Some i);
         names = sensor_args (pf_readSensor f) in
     if pf_showInfo f then show_info (pe_bad env) I i s2
     else if names \<noteq> [] \<and> pf_pollInterval f = 0 then read_once (pe_zone env) I names s2
     else if 0 < pf_pollInterval f
     then printing [''Press Ctrl+C to stop.''] (poll_forever (pe_zone env) I names (pe_events env) s2)
     else obind (io_Close I s2) (\<lambda>(_, s3). Ret ([], Some 0, s3))))"

text \<open>The whole program; the inverter is nothing when it ends before or with a failed discovery.\<close>

definition probe_main ::
    "probeFlags \<Rightarrow> probeEnv \<Rightarrow> goerror + 's inverterOps \<times> 's \<Rightarrow> 's option printed outcome" where
  "probe_main f env found =
     (if pf_showVersion f then Ret ([pe_version env], Some 0, None)
      else if pf_ip f = '''' then Ret ([''Error: -ip is required''], Some 1, None)
      else if pf_listSensors f then Ret (list_output (pe_order env), Some 0, None)
      else if 0 < pf_pollInterval f \<and> pf_pollInterval f < 5 * Second
      then Ret ([''Error: -poll interval must be at least 5s''], Some 1, None)
      else case found of
        Inl err \<Rightarrow> Ret ([], Some 1, None)
      | Inr (I, s) \<Rightarrow> obind (probe_session f env I s) (\<lambda>(out, st, s'). Ret (out, st, Some s')))"

section \<open>What is printed\<close>

text \<open>A printed number, read back.\<close>

definition read_fixed2 :: "string \<Rightarrow> rat" where
  "read_fixed2 t =
     (if has_prefix ''-'' t then - (of_nat (digits_value 0 (filter is_digit t)) / 100)
      else of_nat (digits_value 0 (filter is_digit t)) / 100)"

lemma digits_value_two: "digits_value acc (s @ [c, d]) = 100 * digits_value acc s + 10 * (of_char c - 48) + (of_char d - 48)"
  using digits_value_append [of acc "s @ [c]" d] digits_value_append [of acc s c] by simp

lemma filter_digits: "filter is_digit (show_nat n) = show_nat n"
  using show_nat_digits [of n] by (simp add: filter_id_conv list_all_iff)

lemma point_digits:
  assumes "b < 10" "c < 10"
  shows "digits_value 0 (filter is_digit (show_nat a @ ''.'' @ [digit b, digit c])) = 100 * a + 10 * b + c"
proof -
  have "\<not> is_digit CHR ''.''" by (simp add: is_digit_def)
  then have "filter is_digit (show_nat a @ ''.'' @ [digit b, digit c]) = show_nat a @ [digit b, digit c]"
    using assms by (simp add: filter_digits is_digit_digit)
  then show ?thesis using assms by (simp add: digits_value_two digits_value_show_nat digit_of_char)
qed

lemma fixed2_digits: "digits_value 0 (filter is_digit (fixed2 n)) = n"
proof -
  have "100 * (n div 100) + 10 * (n div 10 mod 10) + n mod 10 = n"
    using div_mult_mod_eq [of n 10] div_mult_mod_eq [of "n div 10" 10] div_mult2_eq [of n 10 10, simplified] by linarith
  moreover have "n div 10 mod 10 < 10" by (rule mod_less_divisor) simp
  moreover have "n mod 10 < 10" by (rule mod_less_divisor) simp
  moreover note point_digits [of "n div 10 mod 10" "n mod 10" "n div 100"]
  ultimately show ?thesis by (simp only: fixed2_def)
qed

lemma fixed2_head: "\<exists>c cs. fixed2 n = c # cs \<and> is_digit c"
proof -
  obtain c cs where c: "show_nat (n div 100) = c # cs" using show_nat_nonempty by (cases "show_nat (n div 100)") auto
  with show_nat_digits [of "n div 100"] have "is_digit c" by simp
  then show ?thesis unfolding fixed2_def c append_Cons by blast
qed

lemma read_fixed2: "read_fixed2 (fixed2 n) = of_nat n / 100" "read_fixed2 (''-'' @ fixed2 n) = - (of_nat n / 100)"
proof -
  obtain c cs where c: "fixed2 n = c # cs" "is_digit c" using fixed2_head by blast
  then have "c \<noteq> CHR ''-''" by (auto simp: is_digit_def)
  then have "\<not> has_prefix ''-'' (fixed2 n)" by (simp add: c)
  then show "read_fixed2 (fixed2 n) = of_nat n / 100" by (simp add: read_fixed2_def fixed2_digits)
  have "\<not> is_digit CHR ''-''" by (simp add: is_digit_def)
  then show "read_fixed2 (''-'' @ fixed2 n) = - (of_nat n / 100)"
    using fixed2_digits [of n] by (simp add: read_fixed2_def)
qed



section \<open>What a run prints\<close>

text \<open>The line printed for a readable sensor.\<close>

definition line_of :: "(string \<rightharpoonup> sensorValue) \<Rightarrow> (int \<Rightarrow> int) \<Rightarrow> string \<Rightarrow> string" where
  "line_of vals zone name = formatSensorOutput zone name (the (vals name))"

text \<open>
  The client's contract with the inverter it is given: it connects, gives the device information, and
  a sensor reads as \<open>vals\<close> says, whatever was read before.
\<close>

locale readable_inverter =
  fixes I :: "'s inverterOps" and good :: "'s \<Rightarrow> bool" and vals :: "string \<rightharpoonup> sensorValue"
  assumes connects: "good s \<Longrightarrow> \<exists>s'. io_Connect I s = Ret (None, s') \<and> good s'"
    and closes: "good s \<Longrightarrow> \<exists>r s'. io_Close I s = Ret (r, s')"
    and informs: "good s \<Longrightarrow> \<exists>i s'. io_GetInfo I s = Ret (Inr i, s') \<and> good s'"
    and reads: "good s \<Longrightarrow> \<exists>r s'. io_ReadSensor I name s = Ret (r, s') \<and> good s' \<and>
                 (\<forall>v. r = Inr v \<longleftrightarrow> vals name = Some v)"
begin

lemma reads_cases:
  assumes "good s"
  obtains (reading) v s' where "io_ReadSensor I name s = Ret (Inr v, s')" "good s'" "vals name = Some v"
  | (none) err s' where "io_ReadSensor I name s = Ret (Inl err, s')" "good s'" "vals name = None"
proof -
  obtain r s' where r: "io_ReadSensor I name s = Ret (r, s')" "good s'" "\<forall>v. r = Inr v \<longleftrightarrow> vals name = Some v"
    using reads [OF assms] by blast
  then show ?thesis
  proof (cases r)
    case (Inl err)
    with r(3) have "vals name = None" by (cases "vals name") auto
    with none r Inl show ?thesis by blast
  qed (use reading r in blast)
qed

lemma read_once_prints:
  "good s \<Longrightarrow> \<exists>s'. read_once zone I names s =
     Ret (map (line_of vals zone) (takeWhile (\<lambda>n. vals n \<noteq> None) names),
          Some (if \<forall>n \<in> set names. vals n \<noteq> None then 0 else 1), s')"
proof (induction names arbitrary: s)
  case (Cons n ns)
  from Cons.prems show ?case
  proof (cases rule: reads_cases [where name = n])
    case (reading v s')
    with Cons.IH [of s'] show ?thesis by (auto simp: printing_def line_of_def)
  next
    case (none err s')
    then show ?thesis by simp
  qed
qed simp

lemma poll_round_prints:
  "good s \<Longrightarrow> \<exists>s'. poll_round zone I names s =
     Ret (map (line_of vals zone) (filter (\<lambda>n. vals n \<noteq> None) names), s') \<and> good s'"
proof (induction names arbitrary: s)
  case (Cons n ns)
  from Cons.prems show ?case
  proof (cases rule: reads_cases [where name = n])
    case (reading v s')
    with Cons.IH [of s'] show ?thesis by (auto simp: line_of_def)
  next
    case (none err s')
    with Cons.IH [of s'] show ?thesis by auto
  qed
qed simp

lemma poll_prints:
  "good s \<Longrightarrow> \<exists>s'. poll_forever zone I names (map Elapsed stamps @ Interrupt # es) s =
     Ret (concat (map (\<lambda>now. (''timestamp: '' @ format_RFC3339 now) #
       map (line_of vals zone) (filter (\<lambda>n. vals n \<noteq> None) names) @ ['''']) stamps), Some 0, s')"
proof (induction stamps arbitrary: s)
  case Nil
  then show ?case using closes [of s] by auto
next
  case (Cons now stamps)
  obtain s1 where s1: "poll_round zone I names s =
      Ret (map (line_of vals zone) (filter (\<lambda>n. vals n \<noteq> None) names), s1)" "good s1"
    using poll_round_prints [OF Cons.prems] by blast
  with Cons.IH [OF s1(2)] show ?case by (auto simp: printing_def)
qed

lemma session_once:
  assumes "good s" "\<not> pf_showInfo f" "sensor_args (pf_readSensor f) = names" "names \<noteq> []" "pf_pollInterval f = 0"
  shows "\<exists>s'. probe_session f env I s =
     Ret (map (line_of vals (pe_zone env)) (takeWhile (\<lambda>n. vals n \<noteq> None) names),
          Some (if \<forall>n \<in> set names. vals n \<noteq> None then 0 else 1), s')"
proof -
  obtain s1 where s1: "io_Connect I s = Ret (None, s1)" "good s1" using connects [OF assms(1)] by blast
  obtain i s2 where s2: "io_GetInfo I s1 = Ret (Inr i, s2)" "good s2" using informs [OF s1(2)] by blast
  from read_once_prints [OF s2(2)] s1(1) s2(1) assms(2-5) show ?thesis
    by (simp add: probe_session_def Let_def)
qed

lemma session_poll:
  assumes "good s" "\<not> pf_showInfo f" "0 < pf_pollInterval f" "pe_events env = map Elapsed stamps @ Interrupt # es"
  shows "\<exists>s'. probe_session f env I s =
     Ret (''Press Ctrl+C to stop.'' # concat (map (\<lambda>now. (''timestamp: '' @ format_RFC3339 now) #
       map (line_of vals (pe_zone env)) (filter (\<lambda>n. vals n \<noteq> None) (sensor_args (pf_readSensor f))) @ ['''']) stamps), Some 0, s')"
proof -
  obtain s1 where s1: "io_Connect I s = Ret (None, s1)" "good s1" using connects [OF assms(1)] by blast
  obtain i s2 where s2: "io_GetInfo I s1 = Ret (Inr i, s2)" "good s2" using informs [OF s1(2)] by blast
  from poll_prints [OF s2(2), of "pe_zone env" "sensor_args (pf_readSensor f)" stamps es] s1(1) s2(1) assms(2-4)
  show ?thesis by (auto simp: probe_session_def Let_def printing_def)
qed

end

text \<open>The inverter of the library over either transport, when the device is behind it.\<close>

lemma device_connects:
  "over (tcp_transport (device_network a)) e \<Longrightarrow> \<exists>e'. Connect e = Ret (None, e')"
  "over (dtls_transport (device_network a)) e' \<Longrightarrow> \<exists>e''. Connect e' = Ret (None, e'')"
  by (auto simp: over_def Connect_def tcp_transport_def dtls_transport_def tcp_Connect_def tcp_Close_def
      dtls_Connect_def dtls_Close_def tcp_drop_def dtls_drop_def device_network_def split: prod.splits option.splits)

interpretation tcp_readable: readable_inverter "et_inverter order"
    "over (tcp_transport (device_network (tcp_answer dv)))" "device_sensors dv" for order dv
proof unfold_locales
  fix e :: "(tcpTransport \<times> byte list) inverter" and name
  assume e: "over (tcp_transport (device_network (tcp_answer dv))) e"
  show "\<exists>e'. io_Connect (et_inverter order) e = Ret (None, e') \<and>
      over (tcp_transport (device_network (tcp_answer dv))) e'"
    using device_connects(1) [OF e] tcp.Connect_ok [OF e] by (auto simp: et_inverter_def)
  show "\<exists>r e'. io_Close (et_inverter order) e = Ret (r, e')"
    using tcp.Close_ok [OF e] by (auto simp: et_inverter_def)
  show "\<exists>i e'. io_GetInfo (et_inverter order) e = Ret (Inr i, e') \<and>
      over (tcp_transport (device_network (tcp_answer dv))) e'"
    using tcp.GetInfo_ok [OF e] by (auto simp: et_inverter_def)
  show "\<exists>r e'. io_ReadSensor (et_inverter order) name e = Ret (r, e') \<and>
      over (tcp_transport (device_network (tcp_answer dv))) e' \<and> (\<forall>v. r = Inr v \<longleftrightarrow> device_sensors dv name = Some v)"
    using tcp_device.ReadSensor_device [OF e] by (simp add: et_inverter_def)
qed

interpretation dtls_readable: readable_inverter "et_inverter order"
    "over (dtls_transport (device_network (rtu_answer dv)))" "device_sensors dv" for order dv
proof unfold_locales
  fix e :: "(dtlsTransport \<times> byte list) inverter" and name
  assume e: "over (dtls_transport (device_network (rtu_answer dv))) e"
  show "\<exists>e'. io_Connect (et_inverter order) e = Ret (None, e') \<and>
      over (dtls_transport (device_network (rtu_answer dv))) e'"
    using device_connects(2) [OF e] dtls.Connect_ok [OF e] by (auto simp: et_inverter_def)
  show "\<exists>r e'. io_Close (et_inverter order) e = Ret (r, e')"
    using dtls.Close_ok [OF e] by (auto simp: et_inverter_def)
  show "\<exists>i e'. io_GetInfo (et_inverter order) e = Ret (Inr i, e') \<and>
      over (dtls_transport (device_network (rtu_answer dv))) e'"
    using dtls.GetInfo_ok [OF e] by (auto simp: et_inverter_def)
  show "\<exists>r e'. io_ReadSensor (et_inverter order) name e = Ret (r, e') \<and>
      over (dtls_transport (device_network (rtu_answer dv))) e' \<and> (\<forall>v. r = Inr v \<longleftrightarrow> device_sensors dv name = Some v)"
    using dtls_device.ReadSensor_device [OF e] by (simp add: et_inverter_def)
qed

text \<open>
  C19: With sensor names and no polling the tool prints, for a device behind either transport, one line
  for every named sensor up to the first that the device does not have, each with the value that the
  sensor tables assign to the device's registers, and exits with status 0 exactly when all of them
  were printed.
\<close>

theorem probe_reads_device:
  assumes "\<not> pf_showVersion f" "pf_ip f \<noteq> ''''" "\<not> pf_listSensors f" "\<not> pf_showInfo f" "pf_pollInterval f = 0"
    and "sensor_args (pf_readSensor f) = names" "names \<noteq> []"
  shows "\<exists>e e'. probe_main f env (Inr (et_inverter order, tcp_device_inverter serial dv s)) =
      Ret (map (line_of (device_sensors dv) (pe_zone env)) (takeWhile (\<lambda>n. device_sensors dv n \<noteq> None) names),
           Some (if \<forall>n \<in> set names. device_sensors dv n \<noteq> None then 0 else 1), Some e) \<and>
    probe_main f env (Inr (et_inverter order, dtls_device_inverter serial dv s')) =
      Ret (map (line_of (device_sensors dv) (pe_zone env)) (takeWhile (\<lambda>n. device_sensors dv n \<noteq> None) names),
           Some (if \<forall>n \<in> set names. device_sensors dv n \<noteq> None then 0 else 1), Some e')"
  using tcp_readable.session_once [where order = order and dv = dv and env = env, OF over_new assms(4,6,7,5), of serial s]
    dtls_readable.session_once [where order = order and dv = dv and env = env, OF over_new assms(4,6,7,5), of serial s']
    assms(1-5)
  by (auto simp: probe_main_def)

definition demo_probe :: probeEnv where
  "demo_probe = \<lparr>pe_version = ''dev'', pe_zone = (\<lambda>_. 0), pe_order = all_names, pe_bad = (\<lambda>_. ''''),
     pe_events = [Elapsed (utc 0), Interrupt]\<rparr>"

lemma uint16_float: "\<exists>x. uint16Reader i c data = Ret (VFloat x)"
  by (cases "2 * i + 2 \<le> sl_len data") (auto simp: uint16Reader_def u16_at_Ret mult.commute Let_def)

lemma demo_voltage:
  "\<exists>sv x. device_sensors demo_device ''vpv1'' = Some sv \<and> sv_Value sv = VFloat x \<and> sv_Unit sv = ''V''"
proof -
  let ?def = "sensor ''PV1 Voltage'' ''V'' (uint16Reader 3 (f_lit (1/10)))"
  have def: "map_of (block_sensors BlockMain) ''vpv1'' = Some ?def" by (simp add: registry_defs)
  obtain bs where bs: "device_block demo_device BlockMain = Some bs"
    by (simp add: device_block_def demo_device_def block_consts)
  obtain x where "uint16Reader 3 (f_lit (1/10)) (whole bs) = Ret (VFloat x)" using uint16_float by blast
  with def bs have "block_map demo_device BlockMain ''vpv1'' = Some (sensor_value ?def (VFloat x))"
    by (simp add: block_map_def decoded_def)
  then have "device_sensors demo_device ''vpv1'' = Some (sensor_value ?def (VFloat x))"
    using device_sensors_iff by blast
  then show ?thesis by (simp add: sensor_value_def)
qed

lemma probe_reads_device_witness:
  "\<exists>line e. probe_main \<lparr>pf_ip = ''inv'', pf_pollInterval = 0, pf_readSensor = ''vpv1, nosuch'', pf_listSensors = False,
       pf_showInfo = False, pf_showVersion = False\<rparr> demo_probe (Inr (et_inverter full_order,
       tcp_device_inverter ''sn'' demo_device (NewTCPTransport ''inv'' 502, []))) = Ret ([line], Some 1, Some e)"
proof -
  have "''nosuch'' \<notin> set all_names" by (simp add: all_names_def enum_blockType_def registry_defs)
  then have "sensorLookup ''nosuch'' = None" by (simp add: dom_sensorLookup [symmetric] domIff)
  then have "device_sensors demo_device ''nosuch'' = None" by (simp add: device_sensors_def)
  moreover have "sensor_args ''vpv1, nosuch'' = [''vpv1'', ''nosuch'']" by code_simp
  moreover note demo_voltage probe_reads_device [of "\<lparr>pf_ip = ''inv'', pf_pollInterval = 0, pf_readSensor = ''vpv1, nosuch'',
    pf_listSensors = False, pf_showInfo = False, pf_showVersion = False\<rparr>" "[''vpv1'', ''nosuch'']" demo_probe full_order "''sn''"
    demo_device "(NewTCPTransport ''inv'' 502, [])" "(NewDTLSTransport ''inv'' 8899, [])"]
  ultimately show ?thesis by auto
qed

text \<open>
  While polling, every interval prints the time, a line for every named sensor that the device
  has, in the order named, and an empty line; a sensor that cannot be read is skipped and does not end
  the polling, which only an interrupt does, with status 0.
\<close>

theorem probe_polls_device:
  assumes "\<not> pf_showVersion f" "pf_ip f \<noteq> ''''" "\<not> pf_listSensors f" "\<not> pf_showInfo f" "5 * Second \<le> pf_pollInterval f"
    and "pe_events env = map Elapsed stamps @ Interrupt # es"
  shows "\<exists>e. probe_main f env (Inr (et_inverter order, tcp_device_inverter serial dv s)) =
      Ret (''Press Ctrl+C to stop.'' # concat (map (\<lambda>now. (''timestamp: '' @ format_RFC3339 now) #
             map (line_of (device_sensors dv) (pe_zone env))
               (filter (\<lambda>n. device_sensors dv n \<noteq> None) (sensor_args (pf_readSensor f))) @ ['''']) stamps),
           Some 0, Some e)"
proof -
  have "0 < pf_pollInterval f" using assms(5) by (simp add: Second_def)
  from tcp_readable.session_poll [where order = order and dv = dv, OF over_new assms(4) this assms(6), of serial s] assms(1-3,5)
  show ?thesis by (auto simp: probe_main_def)
qed

lemma probe_polls_device_witness:
  "\<exists>out e. probe_main \<lparr>pf_ip = ''inv'', pf_pollInterval = 5 * Second, pf_readSensor = '''', pf_listSensors = False,
       pf_showInfo = False, pf_showVersion = False\<rparr> demo_probe (Inr (et_inverter full_order,
       tcp_device_inverter ''sn'' demo_device (NewTCPTransport ''inv'' 502, []))) =
     Ret ([''Press Ctrl+C to stop.'', ''timestamp: '' @ format_RFC3339 (utc 0), ''''], Some 0, Some e)"
  using probe_polls_device [of "\<lparr>pf_ip = ''inv'', pf_pollInterval = 5 * Second, pf_readSensor = '''', pf_listSensors = False,
    pf_showInfo = False, pf_showVersion = False\<rparr>" demo_probe "[utc 0]" "[]" full_order "''sn''" demo_device
    "(NewTCPTransport ''inv'' 502, [])"]
  by (auto simp: demo_probe_def sensor_args_def)

section \<open>The list of sensors\<close>

text \<open>
  The list names the four blocks in their fixed order, each with its sensors in ascending order,
  every sensor of the tables once, whatever the order in which Go iterates the lookup table.
\<close>

theorem list_output_complete:
  assumes "distinct order" "set order = dom sensorLookup"
  shows "list_output order = ''Available sensors:'' # concat (map (\<lambda>b. '''' # ('' '' @ blockType_String b @ '':'') #
    map (\<lambda>n. ''  - '' @ n) (sort (map fst (block_sensors b)))) [BlockMain, BlockBattery, BlockMeter, BlockMPPT])"
proof -
  have "list_group (GetSensorNamesByBlock order) (blockType_String b) =
      '''' # ('' '' @ blockType_String b @ '':'') # map (\<lambda>n. ''  - '' @ n) (sort (map fst (block_sensors b)))" for b
  proof -
    have "sort (map fst (block_sensors b)) \<noteq> []"
      using block_sensors_nonempty [of b] by (metis length_0_conv length_map length_sort)
    then show ?thesis unfolding list_group_def group_of_block [OF assms] by (simp add: Let_def)
  qed
  from this [of BlockMain] this [of BlockBattery] this [of BlockMeter] this [of BlockMPPT]
  show ?thesis unfolding list_output_def Let_def by (simp del: append_Cons)
qed

lemma list_output_complete_witness:
  "length (list_output all_names) = 1 + (\<Sum>b \<leftarrow> [BlockMain, BlockBattery, BlockMeter, BlockMPPT]. 2 + length (block_sensors b))"
  using list_output_complete [OF all_names_distinct dom_sensorLookup [symmetric]] by simp

end
