(* ===== verification/Serve.thy ===== *)
theory Serve
  imports Commands Migration Discovery Http Probe
begin

text \<open>
  The daemon's program, \<open>cmd/goodwe-daemon/main.go\<close>, around its one-shot modes: how it starts, from the
  flags to the daemon and the handler of the HTTP server, and how the three goroutines that then run
  end: \<open>main\<close> itself, the HTTP server and the daemon's loop. The parsing of the flags, the log and the
  inside of the HTTP server are left out.
\<close>

section \<open>Starting\<close>

text \<open>The inverter that \<open>Discover\<close> returns, whatever its transport, as the interface the daemon uses.\<close>

definition on_found ::
    "((dtlsTransport \<times> 'w) inverter \<Rightarrow> ('r \<times> (dtlsTransport \<times> 'w) inverter) outcome) \<Rightarrow>
     ((tcpTransport \<times> 'w) inverter \<Rightarrow> ('r \<times> (tcpTransport \<times> 'w) inverter) outcome) \<Rightarrow>
     'w discovered \<Rightarrow> ('r \<times> 'w discovered) outcome" where
  "on_found f g x =
     (case x of
        OverDTLS e \<Rightarrow> obind (f e) (\<lambda>(r, e'). Ret (r, OverDTLS e'))
      | OverTCP e \<Rightarrow> obind (g e) (\<lambda>(r, e'). Ret (r, OverTCP e')))"

definition found_inverter :: "(blockType \<Rightarrow> string list) \<Rightarrow> 'w discovered inverterOps" where
  "found_inverter order = \<lparr>
     io_Connect = on_found (io_Connect (et_inverter order)) (io_Connect (et_inverter order)),
     io_Close = on_found (io_Close (et_inverter order)) (io_Close (et_inverter order)),
     io_GetInfo = on_found (io_GetInfo (et_inverter order)) (io_GetInfo (et_inverter order)),
     io_GetSensors = (\<lambda>ctx. on_found (io_GetSensors (et_inverter order) ctx) (io_GetSensors (et_inverter order) ctx)),
     io_ReadSensor = (\<lambda>name. on_found (io_ReadSensor (et_inverter order) name) (io_ReadSensor (et_inverter order) name))\<rparr>"

record daemonFlags = flags +
  df_dsn :: string
  df_inverterIP :: string
  df_aggregateInterval :: int
  df_showVersion :: bool

text \<open>What the program meets: the machine, the clock, the network and Go's order of the sensor tables.\<close>

record 'w startEnv =
  st_version :: string
  st_machine :: machine
  st_now1 :: gotime_ns
  st_now2 :: gotime_ns
  st_udp :: "'w udp"
  st_network :: "'w network"
  st_world :: 'w
  st_order :: "blockType \<Rightarrow> string list"

text \<open>The program has ended with a status, leaving a database if it had opened one, or it serves.\<close>

datatype 'w started =
    Ended int "db option"
  | Serves "'w discovered daemon" "('w discovered, db) handler"

definition startup :: "daemonFlags \<Rightarrow> 'w startEnv \<Rightarrow> 'w started" where
  "startup f env =
     (if df_showVersion f then Ended 0 None
      else if 0 < fl_pollInterval f \<and> fl_pollInterval f < minPollInterval then Ended 1 None
      else case Open (st_machine env) (df_dsn f) of
        (Inl err, file) \<Rightarrow> Ended 1 (map_option sc_db file)
      | (Inr _, None) \<Rightarrow> Ended 1 None
      | (Inr _, Some s) \<Rightarrow>
     (case one_shot (flags.truncate f) (st_now1 env) (st_now2 env) (sc_db s) of
        Some (status, db) \<Rightarrow> Ended status (Some db)
      | None \<Rightarrow>
          let start = (\<lambda>inverter.
                let d = NewDaemon inverter (Some (sc_db s)) (df_inverterIP f) (fl_pollInterval f)
                          (df_aggregateInterval f) (fl_retentionDays f)
                in Serves d (handler_of (st_version env) d))
          in if df_inverterIP f \<noteq> ''''
             then (case Discover (st_udp env) (st_network env) (df_inverterIP f) (st_world env) of
                     (Inl err, w) \<Rightarrow> Ended 1 (Some (sc_db s))
                   | (Inr x, w) \<Rightarrow> start (Some (found_inverter (st_order env), x)))
             else start None))"

section \<open>What has started\<close>

text \<open>
  When the program comes to serve, no one-shot mode was asked for, polling is off or at least five
  seconds apart, the database is open and migrated, and the daemon and the handler share it together
  with the inverter: none when no address was given, otherwise the one that \<open>Discover\<close> has found.
\<close>

theorem startup_serves:
  assumes "startup f env = Serves d h"
  shows "h = handler_of (st_version env) d \<and>
    (fl_pollInterval f \<le> 0 \<or> 5 * Second \<le> fl_pollInterval f) \<and> dm_pollInterval d = fl_pollInterval f \<and>
    \<not> fl_offlineAnalyze f \<and> \<not> fl_aggregate f \<and> \<not> fl_aggregateBackfill f \<and> \<not> fl_prune f \<and>
    (\<exists>s. Open (st_machine env) (df_dsn f) = (Inr (), Some s) \<and> dm_store d = Some (sc_db s)) \<and>
    (if df_inverterIP f = '''' then dm_inverter d = None \<and> dm_connState d = InverterStateDisabled
     else dm_connState d = InverterStateDisconnected \<and>
       (\<exists>x w. Discover (st_udp env) (st_network env) (df_inverterIP f) (st_world env) = (Inr x, w) \<and>
          dm_inverter d = Some (found_inverter (st_order env), x)))"
proof -
  have poll: "\<not> (0 < fl_pollInterval f \<and> fl_pollInterval f < minPollInterval)" "\<not> df_showVersion f"
    using assms by (auto simp: startup_def split: if_splits)
  obtain s where s: "Open (st_machine env) (df_dsn f) = (Inr (), Some s)"
    using assms poll by (auto simp: startup_def split: prod.splits sum.splits option.splits if_splits)
  have serve: "one_shot (flags.truncate f) (st_now1 env) (st_now2 env) (sc_db s) = None"
    using assms poll s by (auto simp: startup_def split: option.splits)
  define start where "start inverter = NewDaemon inverter (Some (sc_db s)) (df_inverterIP f) (fl_pollInterval f)
      (df_aggregateInterval f) (fl_retentionDays f)" for inverter :: "('a discovered inverterOps \<times> 'a discovered) option"
  have "startup f env = (if df_inverterIP f \<noteq> ''''
      then (case Discover (st_udp env) (st_network env) (df_inverterIP f) (st_world env) of
              (Inl err, w) \<Rightarrow> Ended 1 (Some (sc_db s))
            | (Inr x, w) \<Rightarrow> Serves (start (Some (found_inverter (st_order env), x)))
                 (handler_of (st_version env) (start (Some (found_inverter (st_order env), x)))))
      else Serves (start None) (handler_of (st_version env) (start None)))"
    unfolding startup_def start_def Let_def using poll s serve by auto
  with assms have "h = handler_of (st_version env) d \<and> (if df_inverterIP f = '''' then d = start None
      else \<exists>x w. Discover (st_udp env) (st_network env) (df_inverterIP f) (st_world env) = (Inr x, w) \<and>
        d = start (Some (found_inverter (st_order env), x)))"
    by (auto split: if_splits prod.splits sum.splits)
  moreover have "\<not> fl_offlineAnalyze f \<and> \<not> fl_aggregate f \<and> \<not> fl_aggregateBackfill f \<and> \<not> fl_prune f"
    using serve by (auto simp: one_shot_def flags.truncate_def split: if_splits)
  ultimately show ?thesis
    using poll(1) s by (auto simp: start_def NewDaemon_def minPollInterval_def Second_def)
qed

definition demo_flags :: "string \<Rightarrow> daemonFlags" where
  "demo_flags ip = \<lparr>fl_pollInterval = 30 * Second, fl_offlineAnalyze = False, fl_aggregate = False,
     fl_aggregateBackfill = False, fl_prune = False, fl_retentionDays = 30, fl_noVacuum = False,
     df_dsn = ''sqlite://~/.goodwe/goodwe.db'', df_inverterIP = ip, df_aggregateInterval = Hour, df_showVersion = False\<rparr>"

definition demo_start :: "byte list startEnv" where
  "demo_start = \<lparr>st_version = ''v1'', st_machine = demo_machine, st_now1 = 0, st_now2 = 0,
     st_udp = demo_udp ''ccm@sn,ccm@sn,9010KETU218W0001'', st_network = device_network (tcp_answer demo_device),
     st_world = [], st_order = full_order\<rparr>"

lemma demo_opens: "\<exists>s. Open demo_machine ''sqlite://~/.goodwe/goodwe.db'' = (Inr (), Some s)"
proof -
  have "mc_sqlOpen demo_machine ''/home/u/.goodwe/goodwe.db'' = Inr (new_file (\<lambda>_. None))"
    by (simp add: demo_machine_def)
  from Open_ready [OF demo_path this new_file_layout] show ?thesis by blast
qed

lemma startup_serves_witness:
  "\<exists>d. startup (demo_flags '''') demo_start = Serves d (handler_of ''v1'' d) \<and> dm_connState d = InverterStateDisabled"
proof -
  obtain s where "Open demo_machine ''sqlite://~/.goodwe/goodwe.db'' = (Inr (), Some s)" using demo_opens by blast
  then obtain d h where run: "startup (demo_flags '''') demo_start = Serves d h"
    by (simp add: startup_def demo_flags_def demo_start_def minPollInterval_def Second_def one_shot_def flags.truncate_def Let_def)
  from startup_serves [OF this] run show ?thesis by (auto simp: demo_flags_def demo_start_def)
qed

text \<open>What the flags must be for serving, and the first connection to an inverter over TCP.\<close>

definition serve_flags :: "daemonFlags \<Rightarrow> bool" where
  "serve_flags f \<longleftrightarrow> \<not> df_showVersion f \<and> 5 * Second \<le> fl_pollInterval f \<and> \<not> fl_offlineAnalyze f \<and>
     \<not> fl_aggregate f \<and> \<not> fl_aggregateBackfill f \<and> \<not> fl_prune f \<and> df_inverterIP f \<noteq> ''''"

lemma startup_found:
  assumes "serve_flags f" "Open (st_machine env) (df_dsn f) = (Inr (), Some s)"
    and "Discover (st_udp env) (st_network env) (df_inverterIP f) (st_world env) = (Inr x, w)"
  shows "\<exists>d. startup f env = Serves d (handler_of (st_version env) d) \<and> dm_store d = Some (sc_db s) \<and>
    dm_inverter d = Some (found_inverter (st_order env), x) \<and> dm_connState d = InverterStateDisconnected \<and>
    dm_verificationErr d = None"
proof -
  have "one_shot (flags.truncate f) (st_now1 env) (st_now2 env) (sc_db s) = None"
    using assms(1) by (simp add: one_shot_def serve_flags_def flags.truncate_def minPollInterval_def)
  with assms show ?thesis
    by (simp add: startup_def serve_flags_def minPollInterval_def Let_def NewDaemon_def)
qed

lemma first_connect:
  assumes "dm_inverter d = Some (I, s)" "io_Connect I s = Ret (None, s1)" "io_GetInfo I s1 = Ret (Inr i, s2)"
    and "dm_store d = Some db" "no_faults db" "db_identity db = []" "dm_verificationErr d = None"
  shows "\<exists>d' db'. doConnect env d = Ret d' \<and> dm_connState d' = InverterStateConnected \<and>
    dm_inverter d' = Some (I, s2) \<and> dm_store d' = Some db' \<and> shrinks db db'"
proof -
  obtain db1 where read: "GetInverterIdentity db = (Inr None, db1)" "no_faults db1"
    using assms(5,6) by (simp add: GetInverterIdentity_def failing_def query_sound)
  obtain u db2 where stored: "store_identity (te_now_identity env) i db1 = (Inr u, db2)"
    using read(2) by (simp add: store_identity_def SetInverterIdentity_def failing_def stmt_sound)
  have "doConnect env d \<noteq> Panic \<and> (\<forall>d'. doConnect env d = Ret d' \<longrightarrow> dm_connState d' = InverterStateConnected)"
    using assms(1-4,7) read(1) stored
    by (simp add: doConnect_def verifyIdentity_def check_identity_def call_inverter_def setState_def)
  then obtain d' where d': "doConnect env d = Ret d'" "dm_connState d' = InverterStateConnected"
    by (cases "doConnect env d") auto
  with doConnect_spec [OF d'(1) assms(7,1)] assms(2-4) show ?thesis
    by (auto simp: store_shrinks_def)
qed

text \<open>The first wake-up of the loop: it connects and polls at once.\<close>

lemma first_wake:
  assumes "dm_inverter d = Some (I, s)" "io_Connect I s = Ret (None, s1)" "io_GetInfo I s1 = Ret (Inr i, s2)"
    and "dm_store d = Some db" "no_faults db" "db_identity db = []" "dm_verificationErr d = None"
    and "dm_connState d = InverterStateDisconnected"
  shows "\<exists>d1 db1. on_timer env d = doPoll env d1 \<and> dm_inverter d1 = Some (I, s2) \<and> dm_store d1 = Some db1 \<and> shrinks db db1"
  using first_connect [OF assms(1-7), of env] assms(8) by (auto simp: on_timer_def)

text \<open>The device behind a discovered TCP dongle.\<close>

lemma found_device:
  assumes "device_block dv BlockMain \<noteq> None" "ctx_left ctx = None"
    and "\<forall>b. set (order b) = set (map fst (block_sensors b))"
  shows "\<exists>x1 i x2 x3. io_Connect (found_inverter order) (OverTCP (tcp_device_inverter serial dv s)) = Ret (None, x1) \<and>
    io_GetInfo (found_inverter order) x1 = Ret (Inr i, x2) \<and>
    io_GetSensors (found_inverter order) ctx x2 = Ret ((Some (device_sensors dv), None), x3)"
proof -
  let ?over = "over (tcp_transport (device_network (tcp_answer dv)))"
  obtain e1 where e1: "Connect (tcp_device_inverter serial dv s) = Ret (None, e1)" "?over e1"
    using tcp_readable.connects [where dv = dv and order = order, OF over_new, of serial s] by (auto simp: et_inverter_def)
  obtain i e2 where e2: "GetInfo e1 = Ret (i, e2)" "?over e2"
    using tcp.GetInfo_ok [OF e1(2)] by blast
  obtain m e3 where "GetSensors order ctx e2 = Ret ((Some m, None), e3)" "m \<subseteq>\<^sub>m device_sensors dv" "device_sensors dv \<subseteq>\<^sub>m m"
    using tcp_device.GetSensors_device [OF e2(2) assms(1), of order ctx] assms(2,3) by auto
  then have "GetSensors order ctx e2 = Ret ((Some (device_sensors dv), None), e3)" by (metis map_le_antisym)
  with e1(1) e2(1) show ?thesis
    by (simp add: found_inverter_def on_found_def et_inverter_def)
qed

section \<open>Serving and stopping\<close>

text \<open>
  The three goroutines. \<open>main\<close> waits for a signal and then goes through its shutdown sequence; the HTTP
  server serves until it fails or is shut down; the daemon's loop is between two wake-ups, busy with
  one, or has returned.
\<close>

datatype mainPhase = WaitSignal | StopHTTP | StopDaemon | StopDB | Leaving | Exited int
datatype httpPhase = Serving | ServeFailed | ServeStopped
datatype runPhase = RunIdle | RunBusy | RunReturned

record process =
  pc_main :: mainPhase
  pc_http :: httpPhase
  pc_run :: runPhase
  pc_cancelled :: bool
  pc_pending :: bool
  pc_db_open :: bool

definition serving :: process where
  "serving = \<lparr>pc_main = WaitSignal, pc_http = Serving, pc_run = RunIdle, pc_cancelled = False,
     pc_pending = False, pc_db_open = True\<rparr>"

datatype event = Signal | ServeError | Wake | Work | RunReturns | MainStep

definition alive :: "process \<Rightarrow> bool" where
  "alive p \<longleftrightarrow> (case pc_main p of Exited _ \<Rightarrow> False | _ \<Rightarrow> True)"

text \<open>
  One step of one goroutine. The loop may take a wake-up that is ready even when its context is done,
  since \<open>select\<close> chooses at random; it returns between two wake-ups when its context is done. After
  \<open>Exited\<close> there are no goroutines.
\<close>

inductive step :: "process \<Rightarrow> event \<Rightarrow> process \<Rightarrow> bool" where
  signal: "alive p \<Longrightarrow> step p Signal (p\<lparr>pc_pending := True\<rparr>)"
| serve_error: "\<lbrakk>alive p; pc_http p = Serving\<rbrakk>
    \<Longrightarrow> step p ServeError (p\<lparr>pc_http := ServeFailed, pc_cancelled := True\<rparr>)"
| wake: "\<lbrakk>alive p; pc_run p = RunIdle\<rbrakk> \<Longrightarrow> step p Wake (p\<lparr>pc_run := RunBusy\<rparr>)"
| work: "\<lbrakk>alive p; pc_run p = RunBusy\<rbrakk> \<Longrightarrow> step p Work (p\<lparr>pc_run := RunIdle\<rparr>)"
| run_returns: "\<lbrakk>alive p; pc_run p = RunIdle; pc_cancelled p\<rbrakk>
    \<Longrightarrow> step p RunReturns (p\<lparr>pc_run := RunReturned\<rparr>)"
| receive: "\<lbrakk>pc_main p = WaitSignal; pc_pending p\<rbrakk>
    \<Longrightarrow> step p MainStep (p\<lparr>pc_main := StopHTTP, pc_pending := False, pc_cancelled := True\<rparr>)"
| stop_http: "pc_main p = StopHTTP \<Longrightarrow> step p MainStep (p\<lparr>pc_main := StopDaemon,
    pc_http := (if pc_http p = Serving then ServeStopped else pc_http p)\<rparr>)"
| stop_daemon: "pc_main p = StopDaemon \<Longrightarrow> step p MainStep (p\<lparr>pc_main := StopDB\<rparr>)"
| stop_db: "pc_main p = StopDB \<Longrightarrow> step p MainStep (p\<lparr>pc_main := Leaving, pc_db_open := False\<rparr>)"
| leave: "pc_main p = Leaving \<Longrightarrow> step p MainStep (p\<lparr>pc_main := Exited 0\<rparr>)"

inductive runs :: "process \<Rightarrow> event list \<Rightarrow> process \<Rightarrow> bool" where
  none: "runs p [] p"
| one: "\<lbrakk>step p e q; runs q es r\<rbrakk> \<Longrightarrow> runs p (e # es) r"

code_pred (modes: i \<Rightarrow> i \<Rightarrow> o \<Rightarrow> bool as next_process) step .
code_pred (modes: i \<Rightarrow> i \<Rightarrow> o \<Rightarrow> bool as final_process) runs .

section \<open>How the program ends\<close>

inductive_simps step_iff: "step p e q"
inductive_cases runs_Cons: "runs p (e # es) r"

lemma alive_iff: "alive p \<longleftrightarrow> (\<forall>n. pc_main p \<noteq> Exited n)"
  by (cases "pc_main p") (simp_all add: alive_def)

lemma runs_append: "runs p es q \<Longrightarrow> runs q es' r \<Longrightarrow> runs p (es @ es') r"
  by (induction p es q rule: runs.induct) (auto intro: runs.one)

text \<open>The steps that \<open>main\<close> still has to take.\<close>

fun main_left :: "mainPhase \<Rightarrow> nat" where
  "main_left WaitSignal = 5"
| "main_left StopHTTP = 4"
| "main_left StopDaemon = 3"
| "main_left StopDB = 2"
| "main_left Leaving = 1"
| "main_left (Exited _) = 0"

definition stopping :: "process \<Rightarrow> bool" where
  "stopping p \<longleftrightarrow> pc_pending p \<or> pc_main p \<noteq> WaitSignal"

lemma main_counts: "step p e q \<Longrightarrow> main_left (pc_main p) = main_left (pc_main q) + (if e = MainStep then 1 else 0)"
  by (erule step.cases) simp_all

lemma main_enabled: "alive p \<Longrightarrow> stopping p \<Longrightarrow> \<exists>q. step p MainStep q"
  by (cases "pc_main p") (auto simp: alive_def stopping_def intro: step.intros)

lemma stopping_kept: "step p e q \<Longrightarrow> stopping p \<Longrightarrow> stopping q"
  by (erule step.cases) (auto simp: stopping_def)

lemma runs_count: "runs p es q \<Longrightarrow> main_left (pc_main p) = main_left (pc_main q) + count_list es MainStep"
  by (induction rule: runs.induct) (auto dest: main_counts)

lemma runs_stopping: "runs p es q \<Longrightarrow> stopping p \<Longrightarrow> stopping q"
  by (induction rule: runs.induct) (auto dest: stopping_kept)

text \<open>What holds of the process at any time.\<close>

definition process_inv :: "process \<Rightarrow> bool" where
  "process_inv p \<longleftrightarrow>
     (pc_main p \<noteq> WaitSignal \<or> pc_http p = ServeFailed \<or> pc_run p = RunReturned \<longrightarrow> pc_cancelled p) \<and>
     (pc_http p = Serving \<longrightarrow> pc_main p \<in> {WaitSignal, StopHTTP}) \<and>
     (pc_http p = ServeStopped \<longrightarrow> pc_main p \<noteq> WaitSignal) \<and>
     (pc_db_open p \<longleftrightarrow> 2 \<le> main_left (pc_main p)) \<and> (\<forall>n. pc_main p = Exited n \<longrightarrow> n = 0)"

lemma step_inv: "step p e q \<Longrightarrow> process_inv p \<Longrightarrow> process_inv q"
  by (erule step.cases) (auto simp: process_inv_def alive_iff)

lemma runs_inv: "runs p es q \<Longrightarrow> process_inv p \<Longrightarrow> process_inv q"
  by (induction rule: runs.induct) (auto dest: step_inv)

lemma serving_inv: "process_inv serving"
  by (simp add: process_inv_def serving_def)



text \<open>
  C22: When the HTTP server fails, for example because its port is taken, the program does not shut
  down, as the comment at that place says it does: the context is cancelled and the daemon's loop
  returns, but \<open>main\<close> goes on waiting for a signal, and without one the process stays as it is for
  ever, serving nothing and polling nothing.
\<close>

theorem failed_server_hangs:
  "\<exists>p. runs serving [ServeError, RunReturns] p \<and> pc_http p = ServeFailed \<and> pc_run p = RunReturned \<and> alive p \<and>
     (\<forall>es q. runs p es q \<and> Signal \<notin> set es \<longrightarrow> es = [] \<and> q = p)"
proof -
  let ?p1 = "serving\<lparr>pc_http := ServeFailed, pc_cancelled := True\<rparr>"
  let ?p = "?p1\<lparr>pc_run := RunReturned\<rparr>"
  have "step serving ServeError ?p1" by (rule step.serve_error) (simp_all add: serving_def alive_def)
  moreover have "step ?p1 RunReturns ?p" by (rule step.run_returns) (simp_all add: serving_def alive_def)
  ultimately have "runs serving [ServeError, RunReturns] ?p" by (blast intro: runs.intros)
  moreover have "es = [] \<and> q = ?p" if "runs ?p es q" "Signal \<notin> set es" for es q
    using that by (cases es) (auto simp: serving_def alive_def step_iff elim!: runs_Cons elim: runs.cases)
  ultimately show ?thesis by (intro exI [of _ ?p]) (auto simp: serving_def alive_def)
qed

lemma failed_server_hangs_witness:
  "\<exists>p. runs serving [ServeError, RunReturns] p \<and> (\<forall>q. \<not> runs p [MainStep] q) \<and> (\<forall>q. \<not> runs p [Wake] q)"
  using failed_server_hangs by (metis empty_iff event.distinct(9) event.distinct(3) list.distinct(1) list.set(1) set_ConsD)



end
