(* ===== verification/Sensor_Types.thy ===== *)
theory Sensor_Types
  imports Retention
begin

text \<open>
  A type system for the sensors: the calculators of \<open>et/registry.go\<close> return Go's \<open>interface{}\<close>, and
  the daemon and the REST handlers switch on the dynamic type of a value. Here every sensor gets a
  type by its name, and the values that calculators, inverter and daemon handle are shown to have it.
\<close>

section \<open>Types\<close>

datatype valueType = Number | Text | Timestamp

fun type_of :: "sval \<Rightarrow> valueType" where
  "type_of (VFloat x) = Number"
| "type_of (VString t) = Text"
| "type_of (VTime t) = Timestamp"

lemma type_of_iff:
  "type_of v = Number \<longleftrightarrow> (\<exists>x. v = VFloat x)" "type_of v = Text \<longleftrightarrow> (\<exists>t. v = VString t)"
  "type_of v = Timestamp \<longleftrightarrow> (\<exists>t. v = VTime t)"
  by (cases v; simp)+

text \<open>Labels and the decoded bit maps are text, the clock of the inverter is a time, the rest numbers.\<close>

definition sensor_type :: "string \<Rightarrow> valueType" where
  "sensor_type name =
     (if name = ''timestamp'' then Timestamp
      else if has_prefix (rev ''_label'') (rev name) \<or> name \<in> {''errors'', ''battery_error'', ''battery_warning''}
      then Text else Number)"

section \<open>Calculators\<close>

definition yields :: "valueType \<Rightarrow> calculator \<Rightarrow> bool" where
  "yields T f \<longleftrightarrow> (\<forall>s v. f s = Ret v \<longrightarrow> type_of v = T)"

lemma readers_yield [reader_ok]:
  "yields Number (uint16Reader i c)" "yields Number (int16Reader i c)" "yields Number (uint32Reader i)"
  "yields Number (int32Reader i)" "yields Number (energy4Reader i)" "yields Number (energy2Reader i)"
  "yields Number (energy8Reader i)" "yields Number (tempReader i)" "yields Number (cellVoltageReader i)"
  "yields Number (decimalReader i c)" "yields Number (floatReader i c)" "yields Number (highByteReader i)"
  "yields Number (lowByteReader i)" "yields Text (enumHReader i t)" "yields Text (enumLReader i t)"
  "yields Text (enum2Reader i t)" "yields Text (enumBitmap4Reader i t)" "yields Text (enumBitmap22Reader i j t)"
  "yields Timestamp (timestampReader i)"
  by (auto simp: yields_def reader_defs Let_def obind_Ret_iff split: if_splits)

lemma inline_yield [reader_ok]:
  "yields Number grid_in_out_calc" "yields Text grid_in_out_label_calc" "yields Number ppv_calc"
  "yields Number house_consumption_calc"
  by (auto simp: yields_def grid_in_out_calc_def grid_in_out_label_calc_def ppv_calc_def house_consumption_calc_def
    Let_def obind_Ret_iff split: if_splits option.splits)

definition well_typed :: "string \<times> sensorDefinition \<Rightarrow> bool" where
  "well_typed p \<longleftrightarrow> (case p of (name, def) \<Rightarrow>
     yields (sensor_type name) (sd_Calculator def) \<and> (sd_Unit def \<noteq> '''' \<longrightarrow> sensor_type name = Number))"

lemma sections_typed:
  "list_all well_typed registry_pv_grid" "list_all well_typed registry_backup"
  "list_all well_typed registry_battery_energy" "list_all well_typed registry_calculated"
  "list_all well_typed batteryRegistry" "list_all well_typed meterRegistry" "list_all well_typed mpptRegistry"
  by (simp_all add: section_defs well_typed_def sensor_type_def reader_ok)

lemma block_typed: "list_all well_typed (block_sensors b)"
  by (cases b) (simp_all add: sections_typed registry_def)

section \<open>The inverter\<close>

definition typed_value :: "string \<Rightarrow> sensorValue \<Rightarrow> bool" where
  "typed_value name sv \<longleftrightarrow>
     type_of (sv_Value sv) = sensor_type name \<and> (sv_Unit sv \<noteq> '''' \<longrightarrow> sensor_type name = Number)"

definition typed_map :: "sensor_map \<Rightarrow> bool" where
  "typed_map m \<longleftrightarrow> (\<forall>name sv. m name = Some sv \<longrightarrow> typed_value name sv)"

lemma typed_empty [simp]: "typed_map Map.empty"
  by (simp add: typed_map_def)

lemma calculated_typed:
  "well_typed (name, def) \<Longrightarrow> sd_Calculator def s = Ret v \<Longrightarrow> typed_value name (sensor_value def v)"
  by (auto simp: well_typed_def typed_value_def sensor_value_def yields_def)

lemma decode_block_typed:
  assumes "list_all well_typed reg" "typed_map m" "decode_block reg data names ctx m = Ret (stop, ctx', m')"
  shows "typed_map m'"
  using assms(2,3)
proof (induction names arbitrary: ctx m)
  case (Cons name names)
  obtain b c where ctx: "ctx_done ctx = (b, c)" by force
  show ?case
  proof (cases "b \<or> map_of reg name = None")
    case True
    with Cons ctx show ?thesis by (cases b) auto
  next
    case False
    then obtain def where def: "map_of reg name = Some def" by blast
    then have "well_typed (name, def)" using assms(1) map_of_SomeD by (fastforce simp: list_all_iff)
    from False ctx def Cons.prems(2) obtain v where v: "sd_Calculator def data = Ret v"
        "decode_block reg data names c (m(name \<mapsto> sensor_value def v)) = Ret (stop, ctx', m')"
      by (auto simp: obind_Ret_iff)
    have "typed_map (m(name \<mapsto> sensor_value def v))"
      using Cons.prems(1) calculated_typed [OF \<open>well_typed (name, def)\<close> v(1)] by (simp add: typed_map_def)
    from Cons.IH [OF this v(2)] show ?thesis .
  qed
qed simp

lemma optional_block_typed:
  "list_all well_typed reg \<Longrightarrow> typed_map m \<Longrightarrow> optional_block reg names r ctx m = Ret (stop, ctx', m') \<Longrightarrow> typed_map m'"
  by (auto simp: optional_block_def split: sum.splits intro: decode_block_typed)

lemma registry_typed: "list_all well_typed registry"
  using block_typed [of BlockMain] by simp

text \<open>A result that every returning run of a computation has.\<close>

definition ensures :: "('a \<Rightarrow> bool) \<Rightarrow> 'a outcome \<Rightarrow> bool" where
  "ensures P r \<longleftrightarrow> (\<forall>x. r = Ret x \<longrightarrow> P x)"

lemma ensures_Ret [simp]: "ensures P (Ret x) = P x"
  by (simp add: ensures_def)

lemma ensures_obind: "ensures Q r \<Longrightarrow> (\<And>x. Q x \<Longrightarrow> ensures P (f x)) \<Longrightarrow> ensures P (obind r f)"
  by (cases r) (simp_all add: ensures_def)

lemma ensures_any: "ensures (\<lambda>_. True) r"
  by (simp add: ensures_def)

lemma optional_ensures:
  "list_all well_typed reg \<Longrightarrow> typed_map m \<Longrightarrow>
   ensures (\<lambda>(stop, ctx', m'). typed_map m') (optional_block reg names r ctx m)"
  by (auto simp: ensures_def intro: optional_block_typed)

lemma GetSensors_ensures:
  "ensures (\<lambda>((m, err), e'). \<forall>m'. m = Some m' \<longrightarrow> typed_map m') (GetSensors order ctx e)"
proof -
  have main: "ensures (\<lambda>(stop, ctx', m'). typed_map m') (decode_block registry data names c Map.empty)" for data names c
    using decode_block_typed [OF registry_typed typed_empty] by (auto simp: ensures_def)
  note step = ensures_obind [OF ensures_any] ensures_obind [OF optional_ensures]
  show ?thesis
    unfolding GetSensors_def
    by (rule ensures_obind [OF ensures_any], clarsimp split: sum.splits)
      (rule ensures_obind [OF main], clarsimp,
       rule step(1), clarsimp, rule step(2) [OF sections_typed(5)], assumption, clarsimp,
       rule step(1), clarsimp, rule step(2) [OF sections_typed(6)], assumption, clarsimp,
       rule step(1), clarsimp, rule step(2) [OF sections_typed(7)], assumption, clarsimp)
qed

lemma GetSensors_typed: "GetSensors order ctx e = Ret ((Some m, err), e') \<Longrightarrow> typed_map m"
  using GetSensors_ensures [of order ctx e] by (simp add: ensures_def)

lemma ReadSensor_typed:
  assumes "ReadSensor name e = Ret (Inr sv, e')"
  shows "typed_value name sv"
proof -
  from assms obtain sb data e1 v where sb: "sensorLookup name = Some sb" "sd_Calculator (sb_def sb) data = Ret v"
      "sv = sensor_value (sb_def sb) v"
    by (auto simp: ReadSensor_def obind_Ret_iff split: option.splits sum.splits prod.splits) (metis sum.exhaust)
  then have "\<exists>b. (name, sb_def sb) \<in> set (block_sensors b)"
    using sensorLookup_block by (fastforce simp: block_entry_def)
  then have "well_typed (name, sb_def sb)" using block_typed by (auto simp: list_all_iff)
  then show ?thesis using calculated_typed sb(2,3) by simp
qed

section \<open>The database\<close>

text \<open>The column of a stored sample that its sensor's type names; times are not stored.\<close>

definition typed_row :: "sampleRow \<Rightarrow> bool" where
  "typed_row r \<longleftrightarrow>
     (case sensor_type (sr_Name r) of
        Number \<Rightarrow> sm_ValueText (sr_Sample r) = None
      | Text \<Rightarrow> sm_Value (sr_Sample r) = None \<and> sm_ValueText (sr_Sample r) \<noteq> None \<and> sm_Unit (sr_Sample r) = ''''
      | Timestamp \<Rightarrow> False)"

definition typed_rows :: "db \<Rightarrow> bool" where
  "typed_rows db \<longleftrightarrow> (\<forall>r \<in> set (db_samples db). typed_row r)"

lemma insert_typed:
  assumes "InsertSample name unit now v t db = (r, db')" "typed_rows db"
    and "\<And>i. typed_row \<lparr>sr_ID = i, sr_Name = name, sr_Sample = \<lparr>sm_Value = sql_real v, sm_ValueText = t,
      sm_Unit = unit, sm_SampledAt = now\<rparr>\<rparr>"
  shows "typed_rows db'"
  using assms by (cases r) (auto simp: InsertSample_def statement_simps typed_rows_def Let_def)

lemma store_typed:
  assumes "typed_map m" "typed_rows db" "store_sensors names m now k db = (n, db')"
  shows "typed_rows db'"
  using assms(2,3)
proof (induction names arbitrary: k db)
  case (Cons name names)
  show ?case
  proof (cases "m name")
    case None
    with Cons show ?thesis by simp
  next
    case (Some sv)
    then have ty: "typed_value name sv" using assms(1) by (simp add: typed_map_def)
    show ?thesis
    proof (cases "sv_Value sv")
      case (VFloat x)
      obtain r db1 where 1: "InsertSample name (sv_Unit sv) now (Some x) None db = (r, db1)" by force
      have "typed_rows db1"
        by (rule insert_typed [OF 1 Cons.prems(1)]) (use ty VFloat in \<open>simp add: typed_row_def typed_value_def\<close>)
      with Cons.IH Cons.prems(2) Some VFloat 1 show ?thesis by (auto split: sum.splits)
    next
      case (VString t)
      obtain r db1 where 1: "InsertSample name (sv_Unit sv) now None (Some t) db = (r, db1)" by force
      have "typed_rows db1"
        by (rule insert_typed [OF 1 Cons.prems(1)])
          (use ty VString in \<open>auto simp: typed_row_def typed_value_def sql_real_def\<close>)
      with Cons.IH Cons.prems(2) Some VString 1 show ?thesis by (auto split: sum.splits)
    next
      case (VTime t)
      with Cons Some show ?thesis by simp
    qed
  qed
qed simp

lemma shrinks_typed: "shrinks db db' \<Longrightarrow> typed_rows db \<Longrightarrow> typed_rows db'"
  by (auto simp: shrinks_def typed_rows_def)

section \<open>The running daemon\<close>

text \<open>The daemon drives an inverter of \<open>et/et.go\<close> over some transport, and its rows are typed.\<close>

definition typed_daemon :: "'t inverter daemon \<Rightarrow> bool" where
  "typed_daemon d \<longleftrightarrow>
     (\<exists>order e. dm_inverter d = Some (et_inverter order, e)) \<and> (\<forall>db. dm_store d = Some db \<longrightarrow> typed_rows db)"

lemma poll_typed:
  assumes "doPoll env d = Ret d'" "typed_daemon d"
  shows "typed_daemon d'"
proof -
  obtain order e where I: "dm_inverter d = Some (et_inverter order, e)" using assms(2) by (auto simp: typed_daemon_def)
  let ?run = "\<lambda>m db. snd (RunVoltageAnalysis (te_now_analysis env) db_store
    (snd (store_sensors (te_names env) (case m of None \<Rightarrow> Map.empty | Some m \<Rightarrow> m) (te_now_poll env) 0 db)))"
  have get: "io_GetSensors (et_inverter order) = GetSensors order" by (simp add: et_inverter_def)
  obtain m err e' where sens: "GetSensors order (te_ctx env) e = Ret ((m, err), e')"
    and inv: "map_option fst (dm_inverter d') = Some (et_inverter order)"
    and store: "case err of Some e \<Rightarrow> dm_connState d' = InverterStateDisconnected \<and> dm_connErr d' = Some e \<and> dm_store d' = dm_store d
       | None \<Rightarrow> dm_connState d' = dm_connState d \<and> dm_connErr d' = dm_connErr d \<and> dm_store d' = map_option (?run m) (dm_store d)"
    using doPoll_spec [OF assms(1) I, unfolded get] by blast
  have map: "typed_map (case m of None \<Rightarrow> Map.empty | Some m \<Rightarrow> m)"
    using GetSensors_typed sens by (cases m) auto
  have run: "typed_rows (snd (RunVoltageAnalysis t db_store db))" if "typed_rows db" for t db
    using analysis_frame.run_kept [of t db] that by (metis prod.collapse fst_conv typed_rows_def)
  have "typed_rows db'" if "dm_store d' = Some db'" for db'
  proof (cases err)
    case (Some e)
    with store assms(2) that show ?thesis by (simp add: typed_daemon_def)
  next
    case None
    with store that obtain db where db: "dm_store d = Some db" "db' = ?run m db"
      by (cases "dm_store d") auto
    then have "typed_rows db" using assms(2) by (simp add: typed_daemon_def)
    with store_typed [OF map] db(2) run show ?thesis by (metis prod.collapse)
  qed
  with inv show ?thesis by (auto simp: typed_daemon_def)
qed

lemma connect_typed:
  assumes "doConnect env d = Ret d'" "dm_verificationErr d = None" "typed_daemon d"
  shows "typed_daemon d'"
proof -
  obtain order e where I: "dm_inverter d = Some (et_inverter order, e)" using assms(3) by (auto simp: typed_daemon_def)
  have "store_shrinks d d'" "map_option fst (dm_inverter d') = Some (et_inverter order)"
    using doConnect_spec [OF assms(1,2) I] by blast+
  with assms(3) show ?thesis
    by (auto simp: typed_daemon_def store_shrinks_def split: option.splits intro: shrinks_typed)
qed

lemma timer_typed:
  assumes "on_timer env d = Ret d'" "daemon_inv (d, b)" "typed_daemon d"
  shows "typed_daemon d'"
  using assms(1)
proof (cases rule: on_timer_cases)
  case connect
  then show ?thesis using connect_typed assms(2,3) by (auto simp: daemon_inv_def)
next
  case (connect_poll d1)
  then have "typed_daemon d1" using connect_typed assms(2,3) by (auto simp: daemon_inv_def)
  with connect_poll(4) show ?thesis by (rule poll_typed)
qed (use poll_typed assms(3) in auto)

lemma step_typed: "daemon_step x y \<Longrightarrow> daemon_inv x \<Longrightarrow> typed_daemon (fst x) \<Longrightarrow> typed_daemon (fst y)"
proof (induction rule: daemon_step.induct)
  case (fires d env d1 b w b1)
  then show ?case using timer_typed by simp
next
  case (aggregates d b env)
  then show ?case using shrinks_typed [OF aggregate_shrinks] by (auto simp: typed_daemon_def)
qed

lemma reach_typed: "daemon_step\<^sup>*\<^sup>* x y \<Longrightarrow> daemon_inv x \<Longrightarrow> typed_daemon (fst x) \<Longrightarrow> typed_daemon (fst y)"
  by (induction rule: rtranclp_induct) (auto intro: step_typed reach_inv)

text \<open>
  C10: Every sensor has one type, by its name. Whatever registers arrive, however few, the calculator of
  a sensor of any block gives a value of that type, and a sensor with a unit is a number. So the map
  of \<open>GetSensors\<close> and the answer of \<open>ReadSensor\<close> are typed, over any transport and network.
\<close>

theorem sensor_types:
  "list_all well_typed (block_sensors b) \<and>
   ensures (\<lambda>((m, err), e'). pred_option typed_map m) (GetSensors order ctx e) \<and>
   ensures (\<lambda>(r, e'). pred_sum (\<lambda>_. True) (typed_value name) r) (ReadSensor name e)"
proof (intro conjI)
  show "ensures (\<lambda>((m, err), e'). pred_option typed_map m) (GetSensors order ctx e)"
    using GetSensors_ensures [of order ctx e] by (auto simp: ensures_def pred_option_def)
  show "ensures (\<lambda>(r, e'). pred_sum (\<lambda>_. True) (typed_value name) r) (ReadSensor name e)"
    using ReadSensor_typed [of name e] by (auto simp: ensures_def split: sum.split) (case_tac a; simp)
qed (rule block_typed)

text \<open>
  C17: In every state the running daemon can reach with an inverter over any transport and network, each
  sensor's rows use the column of its type only: numbers have no text, texts no value and no unit,
  and the inverter's clock is never stored. It holds whatever statements fail, however polls,
  connections and aggregation jobs interleave.
\<close>

theorem stored_rows_typed:
  assumes "daemon_step\<^sup>*\<^sup>* (started env (NewDaemon (Some (et_inverter order, e)) (Some db) ip poll agg days)) (d, b)"
    and "typed_rows db" "dm_store d = Some db'"
  shows "typed_rows db'"
proof -
  have "typed_daemon (fst (started env (NewDaemon (Some (et_inverter order, e)) (Some db) ip poll agg days)))"
    using assms(2) shrinks_typed [OF aggregate_shrinks]
    by (auto simp: typed_daemon_def started_def doStartupAggregation_def NewDaemon_def setState_def)
  from reach_typed [OF assms(1) started_inv this] assms(3) show ?thesis by (simp add: typed_daemon_def)
qed

lemma stored_rows_typed_witness:
  "\<exists>d b db'. daemon_step\<^sup>*\<^sup>* (started demo_agg (NewDaemon (Some (et_inverter full_order,
       tcp_device_inverter ''sn'' demo_device (NewTCPTransport ''inv'' 502, []))) (Some (volt_db [volt_row 1 3 260])) ''inv'' Second 0 0)) (d, b) \<and>
     dm_store d = Some db' \<and> typed_rows db'"
proof -
  let ?x = "started demo_agg (NewDaemon (Some (et_inverter full_order,
    tcp_device_inverter ''sn'' demo_device (NewTCPTransport ''inv'' 502, []))) (Some (volt_db [volt_row 1 3 260])) ''inv'' Second 0 0)"
  have run: "daemon_step\<^sup>*\<^sup>* ?x (doAggregate demo_agg (fst ?x), snd ?x)"
    using daemon_step.aggregates [of "fst ?x" "snd ?x" demo_agg] by (simp add: r_into_rtranclp)
  have "typed_rows (volt_db [volt_row 1 3 260])"
    by (simp add: typed_rows_def volt_db_def volt_row_def typed_row_def sensor_type_def)
  moreover obtain db' where db': "dm_store (doAggregate demo_agg (fst ?x)) = Some db'"
    by (simp add: started_def doStartupAggregation_def NewDaemon_def setState_def)
  ultimately show ?thesis using stored_rows_typed [OF run] run by blast
qed

end
