(* ===== verification/Transport_Race.thy ===== *)
theory Transport_Race
  imports Transport_Correct
begin

text \<open>
  The transports under concurrency: the poll loop of the daemon and the HTTP handlers call the same
  transport. \<open>Connect\<close> and \<open>Close\<close> hold the mutex from start to end; \<open>ReadRegisters\<close> of
  \<open>et/tcp_transport.go\<close> and \<open>et/dtls_transport.go\<close> has up to three critical sections, the first read,
  the call of \<open>Connect\<close> and the retry, and gives the mutex back between them. A step is one critical
  section of one goroutine. A goroutine makes one call; one that makes several is as many of them,
  each beginning after the one before.
\<close>

section \<open>Critical sections\<close>

datatype call = CallConnect | CallClose | CallRead u16 u16

datatype result = Error_of "goerror option" | Data_of "goerror + slice"

text \<open>Where a goroutine waits for the mutex, or how it has ended.\<close>

datatype thread = Begin call | Reconnect u16 u16 | Retry u16 u16 | Returned result | Panicked

record 's sections =
  cs_conn :: "'s \<Rightarrow> conn option"
  cs_Connect :: "'s \<Rightarrow> (goerror option \<times> 's) outcome"
  cs_Close :: "'s \<Rightarrow> (goerror option \<times> 's) outcome"
  cs_drop :: "'s \<Rightarrow> 's"
  cs_doRead :: "conn option \<Rightarrow> u16 \<Rightarrow> u16 \<Rightarrow> 's \<Rightarrow> ((goerror + slice) \<times> 's) outcome"

definition tcp_sections :: "'w network \<Rightarrow> (tcpTransport \<times> 'w) sections" where
  "tcp_sections net = \<lparr>cs_conn = (\<lambda>s. tt_conn (fst s)), cs_Connect = tcp_Connect net, cs_Close = tcp_Close net,
     cs_drop = tcp_drop net, cs_doRead = tcp_doRead net\<rparr>"

definition dtls_sections :: "'w network \<Rightarrow> (dtlsTransport \<times> 'w) sections" where
  "dtls_sections net = \<lparr>cs_conn = (\<lambda>s. dt_conn (fst s)), cs_Connect = dtls_Connect net, cs_Close = dtls_Close net,
     cs_drop = dtls_drop net, cs_doRead = dtls_doRead net\<rparr>"

text \<open>A goroutine that panics inside a critical section.\<close>

definition or_panic :: "'s \<Rightarrow> ('r \<times> 's) outcome \<Rightarrow> ('r \<Rightarrow> 's \<Rightarrow> thread \<times> 's) \<Rightarrow> thread \<times> 's" where
  "or_panic s r k = (case r of Panic \<Rightarrow> (Panicked, s) | Ret (x, s') \<Rightarrow> k x s')"

definition first_section :: "'s sections \<Rightarrow> u16 \<Rightarrow> u16 \<Rightarrow> 's \<Rightarrow> thread \<times> 's" where
  "first_section S a q s =
     (case cs_conn S s of
        None \<Rightarrow> (Reconnect a q, s)
      | Some c \<Rightarrow> or_panic s (cs_doRead S (Some c) a q s) (\<lambda>r s'. case r of
            Inr data \<Rightarrow> (Returned (Data_of (Inr data)), s')
          | Inl err \<Rightarrow> if \<not> isConnClosed err then (Returned (Data_of (Inl err)), s')
                       else (Reconnect a q, cs_drop S s')))"

definition reconnect_section :: "'s sections \<Rightarrow> u16 \<Rightarrow> u16 \<Rightarrow> 's \<Rightarrow> thread \<times> 's" where
  "reconnect_section S a q s =
     or_panic s (cs_Connect S s) (\<lambda>e s'. case e of
         Some err \<Rightarrow> (Returned (Data_of (Inl (wrap ''reconnect failed'' err))), s')
       | None \<Rightarrow> (Retry a q, s'))"

definition retry_section :: "'s sections \<Rightarrow> u16 \<Rightarrow> u16 \<Rightarrow> 's \<Rightarrow> thread \<times> 's" where
  "retry_section S a q s =
     or_panic s (cs_doRead S (cs_conn S s) a q s) (\<lambda>r s'. (Returned (Data_of r), s'))"

fun advance :: "'s sections \<Rightarrow> thread \<Rightarrow> 's \<Rightarrow> thread \<times> 's" where
  "advance S (Begin CallConnect) s = or_panic s (cs_Connect S s) (\<lambda>e s'. (Returned (Error_of e), s'))"
| "advance S (Begin CallClose) s = or_panic s (cs_Close S s) (\<lambda>e s'. (Returned (Error_of e), s'))"
| "advance S (Begin (CallRead a q)) s = first_section S a q s"
| "advance S (Reconnect a q) s = reconnect_section S a q s"
| "advance S (Retry a q) s = retry_section S a q s"
| "advance S (Returned r) s = (Returned r, s)"
| "advance S Panicked s = (Panicked, s)"

text \<open>The scheduler gives the mutex to the goroutines in the order of a list.\<close>

definition give :: "'s sections \<Rightarrow> nat \<Rightarrow> thread list \<times> 's \<Rightarrow> thread list \<times> 's" where
  "give S i = (\<lambda>(ts, s). if i < length ts then (case advance S (ts ! i) s of (th, s') \<Rightarrow> (ts[i := th], s')) else (ts, s))"

definition schedule :: "'s sections \<Rightarrow> nat list \<Rightarrow> thread list \<times> 's \<Rightarrow> thread list \<times> 's" where
  "schedule S ord x = foldl (\<lambda>x i. give S i x) x ord"

section \<open>Without interference\<close>

definition answer :: "((goerror + slice) \<times> 's) outcome \<Rightarrow> 's \<Rightarrow> thread \<times> 's" where
  "answer r s = or_panic s r (\<lambda>x s'. (Returned (Data_of x), s'))"

lemma schedule_simps [simp]:
  "schedule S [] x = x" "schedule S (i # ord) x = schedule S ord (give S i x)"
  by (simp_all add: schedule_def)

lemmas critical_defs = first_section_def reconnect_section_def retry_section_def or_panic_def answer_def

fun at_retry :: "thread \<Rightarrow> bool" where
  "at_retry (Retry a q) = True"
| "at_retry _ = False"

text \<open>No other goroutine gets the mutex between a reconnect and the retry after it.\<close>

fun undisturbed :: "'s sections \<Rightarrow> nat list \<Rightarrow> thread list \<times> 's \<Rightarrow> bool" where
  "undisturbed S [] x = True"
| "undisturbed S (i # ord) x =
     (list_all (\<lambda>j. j = i \<or> \<not> at_retry (fst x ! j)) [0..<length (fst x)] \<and> undisturbed S ord (give S i x))"

definition safe :: "'s sections \<Rightarrow> thread list \<times> 's \<Rightarrow> bool" where
  "safe S x \<longleftrightarrow> Panicked \<notin> set (fst x) \<and> (list_ex at_retry (fst x) \<longrightarrow> cs_conn S (snd x) \<noteq> None)"

text \<open>What both transports guarantee of their critical sections.\<close>

locale critical_sections =
  fixes S :: "'s sections"
  assumes connect: "\<exists>e s'. cs_Connect S s = Ret (e, s') \<and> (e = None \<longleftrightarrow> cs_conn S s' \<noteq> None)"
    and close: "returns (cs_Close S s)"
    and drop_none: "cs_conn S (cs_drop S s) = None"
    and read_some: "\<exists>r s'. cs_doRead S (Some c) a q s = Ret (r, s') \<and> cs_conn S s' = cs_conn S s"
    and read_none: "cs_doRead S None a q s = Panic"
begin

lemma advance_panics:
  assumes "th \<noteq> Panicked"
  shows "fst (advance S th s) = Panicked \<longleftrightarrow> at_retry th \<and> cs_conn S s = None"
proof -
  obtain e s1 where c: "cs_Connect S s = Ret (e, s1)" using connect by blast
  obtain e2 s2 where k: "cs_Close S s = Ret (e2, s2)" using close [of s] by (auto simp: returns_iff)
  have r: "\<exists>r s'. cs_doRead S (Some c) a q s = Ret (r, s')" for c a q using read_some by blast
  show ?thesis
  proof (cases th)
    case (Begin call)
    show ?thesis
    proof (cases call)
      case (CallRead a q)
      show ?thesis
      proof (cases "cs_conn S s")
        case (Some d)
        with Begin CallRead r [of d a q] show ?thesis by (auto simp: critical_defs split: sum.splits if_splits)
      qed (simp add: Begin CallRead critical_defs)
    qed (use Begin c k in \<open>simp_all add: or_panic_def\<close>)
  next
    case (Retry a q)
    show ?thesis
    proof (cases "cs_conn S s")
      case (Some d)
      with Retry r [of d a q] show ?thesis by (auto simp: critical_defs)
    qed (simp add: Retry critical_defs read_none)
  qed (use assms c in \<open>auto simp: critical_defs split: option.splits\<close>)
qed

lemma advance_retry: "at_retry (fst (advance S th s)) \<Longrightarrow> cs_conn S (snd (advance S th s)) \<noteq> None"
proof -
  assume at_end: "at_retry (fst (advance S th s))"
  obtain e s1 where c: "cs_Connect S s = Ret (e, s1)" "e = None \<longleftrightarrow> cs_conn S s1 \<noteq> None" using connect by blast
  show ?thesis
  proof (cases th)
    case (Begin call)
    with at_end c show ?thesis
      by (cases call) (auto simp: critical_defs split: option.splits sum.splits outcome.splits if_splits)
  next
    case (Retry a q)
    with at_end show ?thesis by (auto simp: critical_defs split: outcome.splits)
  qed (use at_end c in \<open>auto simp: critical_defs split: option.splits\<close>)
qed

lemma give_safe:
  assumes "safe S (ts, s)" "list_all (\<lambda>j. j = i \<or> \<not> at_retry (ts ! j)) [0..<length ts]"
  shows "safe S (give S i (ts, s))"
proof (cases "i < length ts")
  case True
  obtain th s' where a: "advance S (ts ! i) s = (th, s')" by force
  have "ts ! i \<noteq> Panicked" using assms(1) True nth_mem by (fastforce simp: safe_def)
  moreover have "at_retry (ts ! i) \<Longrightarrow> cs_conn S s \<noteq> None"
    using assms(1) True nth_mem by (fastforce simp: safe_def list_ex_iff)
  ultimately have "th \<noteq> Panicked" using advance_panics [of "ts ! i" s] a by auto
  moreover have "at_retry th \<Longrightarrow> cs_conn S s' \<noteq> None" using advance_retry [of "ts ! i" s] a by simp
  moreover have "at_retry u \<Longrightarrow> u \<in> set (ts[i := th]) \<Longrightarrow> u = th" for u
    using assms(2) True by (auto simp: in_set_conv_nth list_all_iff nth_list_update split: if_splits)
  ultimately show ?thesis
    using assms(1) True a set_update_subset_insert [of ts i th] by (auto simp: give_def safe_def list_ex_iff)
qed (use assms(1) in \<open>simp add: give_def\<close>)

lemma schedule_safe: "safe S x \<Longrightarrow> undisturbed S ord x \<Longrightarrow> safe S (schedule S ord x)"
proof (induction ord arbitrary: x)
  case (Cons i ord)
  then show ?case using give_safe [of "fst x" "snd x" i] by simp
qed simp

text \<open>The states before any goroutine has run.\<close>

lemma begin_safe: "list_all (\<lambda>th. \<exists>c. th = Begin c) ts \<Longrightarrow> safe S (ts, s)"
  by (auto simp: safe_def list_all_iff list_ex_iff)

end

text \<open>A whole call without interference is the three sections in a row.\<close>

locale composed_read = critical_sections +
  fixes read :: "u16 \<Rightarrow> u16 \<Rightarrow> 's \<Rightarrow> ((goerror + slice) \<times> 's) outcome"
  assumes read_def: "read a q s =
      (let again = (\<lambda>s. obind (cs_Connect S s) (\<lambda>(e, s'). case e of
          Some err \<Rightarrow> Ret (Inl (wrap ''reconnect failed'' err), s')
        | None \<Rightarrow> cs_doRead S (cs_conn S s') a q s'))
       in case cs_conn S s of
          None \<Rightarrow> again s
        | Some c \<Rightarrow> obind (cs_doRead S (Some c) a q s) (\<lambda>(r, s'). case r of
              Inr data \<Rightarrow> Ret (Inr data, s')
            | Inl err \<Rightarrow> if \<not> isConnClosed err then Ret (Inl err, s') else again (cs_drop S s')))"
begin

lemma reconnecting_alone:
  assumes "i < length ts"
  shows "\<exists>r s'. obind (cs_Connect S s) (\<lambda>(e, s'). case e of
          Some err \<Rightarrow> Ret (Inl (wrap ''reconnect failed'' err), s')
        | None \<Rightarrow> cs_doRead S (cs_conn S s') a q s') = Ret (r, s') \<and>
    schedule S [i, i] (ts[i := Reconnect a q], s) = (ts[i := Returned (Data_of r)], s')"
proof -
  obtain e s1 where c: "cs_Connect S s = Ret (e, s1)" "e = None \<longleftrightarrow> cs_conn S s1 \<noteq> None" using connect by blast
  show ?thesis
  proof (cases e)
    case None
    then obtain d where d: "cs_conn S s1 = Some d" using c(2) by blast
    obtain r s2 where "cs_doRead S (Some d) a q s1 = Ret (r, s2)" using read_some by blast
    with None c(1) d assms show ?thesis by (simp add: give_def critical_defs)
  qed (use c(1) assms in \<open>simp add: give_def critical_defs\<close>)
qed

lemma alone:
  assumes "i < length ts" "ts ! i = Begin (CallRead a q)"
  shows "\<exists>r s'. read a q s = Ret (r, s') \<and> schedule S [i, i, i] (ts, s) = (ts[i := Returned (Data_of r)], s')"
proof -
  have done2: "schedule S [i, i] (ts[i := Returned x], u) = (ts[i := Returned x], u)" for x u
    using assms(1) by (simp add: give_def)
  show ?thesis
  proof (cases "cs_conn S s")
    case None
    then have "give S i (ts, s) = (ts[i := Reconnect a q], s)" using assms by (simp add: give_def critical_defs)
    then show ?thesis
      using reconnecting_alone [OF assms(1), of s a q] None by (simp add: read_def del: schedule_simps(2)) (simp add: schedule_simps(2) [of _ i "[i, i]"])
  next
    case (Some c)
    obtain r s1 where r: "cs_doRead S (Some c) a q s = Ret (r, s1)" using read_some by blast
    show ?thesis
    proof (cases "\<exists>err. r = Inl err \<and> isConnClosed err")
      case True
      then have "give S i (ts, s) = (ts[i := Reconnect a q], cs_drop S s1)"
        using assms Some r by (auto simp: give_def critical_defs)
      then show ?thesis
        using reconnecting_alone [OF assms(1), of "cs_drop S s1" a q] Some r True
        by (auto simp: read_def schedule_simps(2) [of _ i "[i, i]"] simp del: schedule_simps(2))
    next
      case False
      then have "give S i (ts, s) = (ts[i := Returned (Data_of r)], s1)"
        using assms Some r by (auto simp: give_def critical_defs split: sum.splits)
      with False Some r show ?thesis using done2
        by (auto simp: read_def schedule_simps(2) [of _ i "[i, i]"] simp del: schedule_simps(2) split: sum.splits)
    qed
  qed
qed

end

text \<open>Every section accounts for the connections it dials, closes and uses.\<close>

locale accounted = critical_sections +
  fixes log_of :: "'s \<Rightarrow> net_event list"
  assumes connect_inv: "cs_Connect S s = Ret (e, s') \<Longrightarrow> conn_inv (cs_conn S s) (log_of s) \<Longrightarrow> conn_inv (cs_conn S s') (log_of s')"
    and close_inv: "cs_Close S s = Ret (e, s') \<Longrightarrow> conn_inv (cs_conn S s) (log_of s) \<Longrightarrow> conn_inv (cs_conn S s') (log_of s')"
    and drop_inv: "conn_inv (cs_conn S s) (log_of s) \<Longrightarrow> conn_inv (cs_conn S (cs_drop S s)) (log_of (cs_drop S s))"
    and read_inv: "cs_doRead S (Some c) a q s = Ret (r, s') \<Longrightarrow> cs_conn S s = Some c \<Longrightarrow>
      conn_inv (cs_conn S s) (log_of s) \<Longrightarrow> conn_inv (cs_conn S s') (log_of s')"
begin

lemma advance_inv:
  assumes "advance S th s = (th', s')" "conn_inv (cs_conn S s) (log_of s)"
  shows "conn_inv (cs_conn S s') (log_of s')"
proof (cases th)
  case (Begin call)
  show ?thesis
  proof (cases call)
    case CallConnect
    with Begin assms show ?thesis by (auto simp: or_panic_def split: outcome.splits intro: connect_inv)
  next
    case CallClose
    with Begin assms show ?thesis by (auto simp: or_panic_def split: outcome.splits intro: close_inv)
  next
    case (CallRead a q)
    show ?thesis
    proof (cases "cs_conn S s")
      case (Some c)
      obtain r s1 where r: "cs_doRead S (Some c) a q s = Ret (r, s1)" using read_some by blast
      from read_inv [OF r Some assms(2)] drop_inv [of s1] show ?thesis
        using assms(1) Begin CallRead Some r by (auto simp: critical_defs split: sum.splits if_splits)
    qed (use assms Begin CallRead in \<open>simp add: critical_defs\<close>)
  qed
next
  case (Reconnect a q)
  with assms show ?thesis
    by (auto simp: critical_defs split: outcome.splits option.splits intro: connect_inv)
next
  case (Retry a q)
  show ?thesis
  proof (cases "cs_conn S s")
    case (Some c)
    with Retry assms read_inv show ?thesis by (auto simp: critical_defs split: outcome.splits)
  qed (use Retry assms in \<open>simp add: critical_defs read_none\<close>)
qed (use assms in simp_all)

lemma schedule_inv:
  "conn_inv (cs_conn S (snd x)) (log_of (snd x)) \<Longrightarrow>
   conn_inv (cs_conn S (snd (schedule S ord x))) (log_of (snd (schedule S ord x)))"
proof (induction ord arbitrary: x)
  case (Cons i ord)
  have "conn_inv (cs_conn S (snd (give S i x))) (log_of (snd (give S i x)))"
    using Cons.prems advance_inv by (auto simp: give_def split: prod.splits)
  from Cons.IH [OF this] show ?case by simp
qed simp

end

section \<open>The two transports\<close>

interpretation tcp_critical: composed_read "tcp_sections net" "tcp_ReadRegisters net" for net :: "'w network"
proof (unfold_locales, goal_cases)
  case (1 s)
  then show ?case using tcp_Connect_Ret [of net s] by (auto simp: tcp_sections_def)
next
  case (2 s)
  then show ?case using tcp.close_returns [of net s] by (simp add: tcp_sections_def tcp_transport_def)
next
  case (4 c a q s)
  then show ?case using tcp_doRead_Ret [of net c a q s] by (auto simp: tcp_sections_def)
next
  case (6 a q s)
  show ?case
    unfolding tcp_sections_def tcp_ReadRegisters_def tcp_reconnect_def sections.select_convs Let_def ..
qed (auto simp: tcp_sections_def tcp_drop_def tcp_doRead_def split: prod.splits option.splits)

interpretation dtls_critical: composed_read "dtls_sections net" "dtls_ReadRegisters net" for net :: "'w network"
proof (unfold_locales, goal_cases)
  case (1 s)
  then show ?case using dtls_Connect_Ret [of net s] by (auto simp: dtls_sections_def)
next
  case (2 s)
  then show ?case using dtls.close_returns [of net s] by (simp add: dtls_sections_def dtls_transport_def)
next
  case (4 c a q s)
  then show ?case using dtls_doRead_Ret [of net c a q s] by (auto simp: dtls_sections_def)
next
  case (6 a q s)
  show ?case
    unfolding dtls_sections_def dtls_ReadRegisters_def dtls_reconnect_def sections.select_convs Let_def ..
qed (auto simp: dtls_sections_def dtls_drop_def dtls_doRead_def split: prod.splits option.splits)

lemma read_accounts: "track es {#c#} = Some {#c#} \<Longrightarrow> dials es = 0 \<Longrightarrow> account 0 (Some c) (Some c) (writes es) es"
  by (simp add: account_def held_def)

interpretation tcp_accounted: accounted "tcp_sections (logged net)" "\<lambda>s. snd (snd s)" for net :: "'w network"
proof (unfold_locales, goal_cases)
  case (1 s e s')
  then show ?case using logged_tcp_Connect [of net _ _ _ e]
    by (cases s; cases s') (fastforce simp: tcp_sections_def intro: conn_inv_step)
next
  case (2 s e s')
  then show ?case using logged_tcp_Close [of net _ _ _ e]
    by (cases s; cases s') (fastforce simp: tcp_sections_def intro: conn_inv_step)
next
  case (3 s)
  obtain t w log where s: "s = (t, w, log)" by (cases s)
  from logged_tcp_drop [of net t w log] 3 show ?case by (auto simp: s tcp_sections_def intro: conn_inv_step)
next
  case (4 c a q s r s')
  obtain t w log t' w' log' where st: "s = (t, w, log)" "s' = (t', w', log')" by (cases s; cases s')
  have "tcp_doRead (logged net) (Some c) a q (t, w, log) = Ret (r, t', w', log')"
    using 4(1) by (simp add: tcp_sections_def st)
  from logged_tcp_doRead [OF this] 4(2,3) show ?case
    by (auto simp: st tcp_sections_def dest!: read_accounts intro: conn_inv_step)
qed

interpretation dtls_accounted: accounted "dtls_sections (logged net)" "\<lambda>s. snd (snd s)" for net :: "'w network"
proof (unfold_locales, goal_cases)
  case (1 s e s')
  then show ?case using logged_dtls_Connect [of net _ _ _ e]
    by (cases s; cases s') (fastforce simp: dtls_sections_def intro: conn_inv_step)
next
  case (2 s e s')
  then show ?case using logged_dtls_Close [of net _ _ _ e]
    by (cases s; cases s') (fastforce simp: dtls_sections_def intro: conn_inv_step)
next
  case (3 s)
  obtain t w log where s: "s = (t, w, log)" by (cases s)
  from logged_dtls_drop [of net t w log] 3 show ?case by (auto simp: s dtls_sections_def intro: conn_inv_step)
next
  case (4 c a q s r s')
  obtain t w log t' w' log' where st: "s = (t, w, log)" "s' = (t', w', log')" by (cases s; cases s')
  have "dtls_doRead (logged net) (Some c) a q (t, w, log) = Ret (r, t', w', log')"
    using 4(1) by (simp add: dtls_sections_def st)
  from logged_dtls_doRead [OF this] 4(2,3) show ?case
    by (auto simp: st dtls_sections_def dest!: read_accounts intro: conn_inv_step)
qed

section \<open>Properties\<close>



text \<open>
  C13: However the critical sections of any number of goroutines interleave, with any calls and any
  network, each transport uses and closes only connections that are open, and the connections it has
  dialled and not closed are exactly the one it holds; also when a goroutine has panicked.
\<close>

theorem interleaved_connections:
  "(case schedule (tcp_sections (logged net)) ord (ts, NewTCPTransport ip port, w0, []) of
      (_, t, w, log) \<Rightarrow> track log {#} = Some (held (tt_conn t))) \<and>
   (case schedule (dtls_sections (logged net')) ord (ts, NewDTLSTransport ip port, w1, []) of
      (_, t, w, log) \<Rightarrow> track log {#} = Some (held (dt_conn t)))"
proof
  have "conn_inv (tt_conn (NewTCPTransport ip port)) []" "conn_inv (dt_conn (NewDTLSTransport ip port)) []"
    by (simp_all add: conn_inv_def held_def NewTCPTransport_def NewDTLSTransport_def)
  then show "case schedule (tcp_sections (logged net)) ord (ts, NewTCPTransport ip port, w0, []) of
      (_, t, w, log) \<Rightarrow> track log {#} = Some (held (tt_conn t))"
    and "case schedule (dtls_sections (logged net')) ord (ts, NewDTLSTransport ip port, w1, []) of
      (_, t, w, log) \<Rightarrow> track log {#} = Some (held (dt_conn t))"
    using tcp_accounted.schedule_inv [where x = "(ts, NewTCPTransport ip port, w0, [])" and net = net]
      dtls_accounted.schedule_inv [where x = "(ts, NewDTLSTransport ip port, w1, [])" and net = net']
    by (simp_all add: tcp_sections_def dtls_sections_def conn_inv_def case_prod_beta)
qed

text \<open>
  C18: No goroutine panics, over either transport and any network, as long as no other one gets the mutex
  between a successful reconnect and the retry that follows it; so holding the mutex from the one to
  the other would do.
\<close>

theorem undisturbed_never_panics:
  assumes "list_all (\<lambda>th. \<exists>c. th = Begin c) ts"
    and "undisturbed (tcp_sections net) ord (ts, s)" "undisturbed (dtls_sections net') ord' (ts, u)"
  shows "Panicked \<notin> set (fst (schedule (tcp_sections net) ord (ts, s))) \<and>
         Panicked \<notin> set (fst (schedule (dtls_sections net') ord' (ts, u)))"
  using tcp_critical.schedule_safe [OF tcp_critical.begin_safe [OF assms(1)] assms(2)]
    dtls_critical.schedule_safe [OF dtls_critical.begin_safe [OF assms(1)] assms(3)]
  by (simp add: safe_def)

lemma undisturbed_never_panics_witness:
  "Panicked \<notin> set (fst (schedule (tcp_sections (device_network id)) [0, 0, 0, 1]
     ([Begin (CallRead 1 2), Begin CallClose], NewTCPTransport ''inv'' 502, [])))"
proof -
  have "undisturbed (tcp_sections (device_network id)) [0, 0, 0, 1]
      ([Begin (CallRead 1 2), Begin CallClose], NewTCPTransport ''inv'' 502, [])"
    by (simp add: give_def critical_defs tcp_sections_def NewTCPTransport_def tcp_Connect_def tcp_drop_def
      device_network_def upt_conv_Cons split: prod.splits outcome.splits)
  from undisturbed_never_panics [OF _ this, of "device_network id" "[]"] show ?thesis by simp
qed

text \<open>
  The mutex is free between the reconnect and the retry of \<open>ReadRegisters\<close>. On a transport without a
  connection, over any network whose dial succeeds, a goroutine that reads and another that closes
  the transport in between, as the daemon does when it stops, make the first one call a method of a
  nil connection and panic.
\<close>

theorem close_during_reconnect_panics:
  assumes "nw_DialTCP net (JoinHostPort ip (show_int port)) w = (Inr c, w')"
    and "nw_ResolveUDPAddr net' (JoinHostPort ip (show_int port)) u = (Inr addr, u')"
    and "nw_DialDTLS net' addr u' = (Inr d, u'')"
  shows "fst (schedule (tcp_sections net) [0, 0, 1, 0] ([Begin (CallRead a q), Begin CallClose], NewTCPTransport ip port, w))
           = [Panicked, Returned (Error_of (fst (nw_Close net c w')))] \<and>
         fst (schedule (dtls_sections net') [0, 0, 1, 0] ([Begin (CallRead a q), Begin CallClose], NewDTLSTransport ip port, u))
           = [Panicked, Returned (Error_of (fst (nw_Close net' d u'')))]"
  using assms
  by (auto simp: give_def critical_defs tcp_sections_def NewTCPTransport_def tcp_Connect_def tcp_drop_def tcp_Close_def
    tcp_doRead_def dtls_sections_def NewDTLSTransport_def dtls_Connect_def dtls_drop_def dtls_Close_def dtls_doRead_def
    split: prod.splits)

lemma close_during_reconnect_panics_witness:
  "fst (schedule (tcp_sections (device_network id)) [0, 0, 1, 0]
     ([Begin (CallRead 35100 2), Begin CallClose], NewTCPTransport ''inv'' 502, [])) ! 0 = Panicked"
  using close_during_reconnect_panics [of "device_network id" "''inv''" 502 "[]" 0 "[]" "device_network id" "[]"
      "JoinHostPort ''inv'' (show_int 502)" "[]" 0 "[]" 35100 2]
  by (simp add: device_network_def)

text \<open>A peer that accepts connections and resets them at the first write.\<close>

definition resetting_network :: "nat network" where
  "resetting_network =
     \<lparr>nw_DialTCP = (\<lambda>_ n. (Inr n, Suc n)), nw_ResolveUDPAddr = (\<lambda>a n. (Inr a, n)), nw_DialDTLS = (\<lambda>_ n. (Inr n, Suc n)),
      nw_Close = (\<lambda>_ n. (None, n)), nw_SetWriteDeadline = (\<lambda>_ _ n. (None, n)), nw_SetReadDeadline = (\<lambda>_ _ n. (None, n)),
      nw_Write = (\<lambda>_ _ n. (Some (Errorf ''write: connection reset by peer''), n)), nw_Read = (\<lambda>_ n. (Inr [], n))\<rparr>"

lemma reset_closed: "isConnClosed (wrap ''modbus write error'' (Errorf ''write: connection reset by peer''))"
  by code_simp


end
