(* ===== verification/Spec2Isabelle.thy ===== *)
theory Spec2Isabelle
  imports Serve Sensor_Types Transport_Race
begin

text \<open>
  A verification library for \<open>go-goodwe\<close>: the library that reads GoodWe ET inverters over Modbus, the
  command-line tool, and the daemon that polls an inverter, keeps its history in SQLite, analyses the
  grid voltage and serves a REST API and a dashboard.

  \<^bold>\<open>The program.\<close> \<open>discovery\<close> asks a dongle over UDP what it is and builds an inverter of \<open>et\<close>
  over one of two transports, Modbus TCP or Modbus RTU in DTLS. The inverter reads four blocks of
  registers and turns them into named sensor values by the calculators of its tables. \<open>pkg/daemon\<close>
  connects to the inverter, checks that it is the one whose serial number the database holds, polls it,
  and stores the values through \<open>pkg/db\<close>; after a poll it runs \<open>pkg/analysis\<close>, which follows the
  meter voltages and keeps events; a second loop aggregates and prunes. \<open>pkg/api\<close> answers requests from
  the database and, for single sensors, from the inverter itself. \<open>cmd/goodwe\<close> and
  \<open>cmd/goodwe-daemon\<close> are the two programs.

  \<^bold>\<open>The theories,\<close> each with the files it models; a definition has the name of the function it
  translates, or names a part of one.

  \<^item> Go's semantics: Go_Prelude (panics as values, slices with their capacity, formatting), Go_Float
    (\<open>float64\<close> as exact rationals with round-to-nearest-even, infinities and negative zero),
    Go_Strings, Go_Time (RFC 3339 both ways), Go_Path (\<open>path.Clean\<close> and its relatives).
  \<^item> Sensors: Sensor_Labels (\<open>et/const.go\<close>), Sensor_Readers and Sensor_Registry (\<open>et/registry.go\<close>, every
    entry of the four tables), with Sensor_Correct and Sensor_Types.
  \<^item> Wire: Modbus (frames, checksum, both parsers), Transport (\<open>et/tcp_transport.go\<close>,
    \<open>et/dtls_transport.go\<close> over a record of network operations), with Modbus_Correct,
    Transport_Correct, and Transport_Race for concurrent callers.
  \<^item> Inverter (\<open>et/et.go\<close>, \<open>goodwe.go\<close>) with Inverter_Correct, and Discovery
    (\<open>discovery/discover.go\<close>).
  \<^item> Storage: Store (the tables of \<open>pkg/db/store.go\<close> as lists of rows, each query and update), with
    Store_Correct and Store_Frame, and Migration (\<open>Open\<close>, \<open>migrate\<close>, the schema versions 0 to 4).
  \<^item> Voltage (\<open>pkg/analysis/voltage.go\<close>) with Voltage_Correct and Voltage_Detector.
  \<^item> Daemon (\<open>pkg/daemon/daemon.go\<close>) with Daemon_Correct and Retention.
  \<^item> Api (the handlers of \<open>pkg/api/handler.go\<close>) with Api_Correct, and Http (its routes and
    middleware, \<open>pkg/dashboard/dashboard.go\<close>).
  \<^item> Programs: Probe (\<open>cmd/goodwe/main.go\<close>), Commands and Serve (\<open>cmd/goodwe-daemon/main.go\<close>).

  \<^bold>\<open>State.\<close> An object is a record that its operations return updated: a transport with its
  connection and transaction number, an inverter around a transport, the daemon, the database. What is
  outside the program, the network, the UDP socket, the clock, the machine with its files, the order in
  which Go iterates a map and the moments at which a context is cancelled, is a parameter or an
  argument of the operations, arbitrary in the theorems except where a hypothesis names a device behind
  the network. Every statement of the database may fail: \<open>db_faults\<close> says which one does.
  A result is a sum with Go's error on the left, \<open>outcome\<close> adds the panic.

  \<^bold>\<open>Interfaces\<close> are locales, each interpreted on the models that provide it: \<open>transport\<close>,
  \<open>device_transport\<close> and \<open>reconnecting\<close> by both transports, \<open>critical_sections\<close>, \<open>composed_read\<close> and
  \<open>accounted\<close> by their critical sections, \<open>inverter_iface\<close> and \<open>readable_inverter\<close> by the inverter over
  either, \<open>voltage_store\<close>, \<open>reliable_store\<close> and \<open>untouched\<close> by the database, \<open>aggregation\<close> by the hourly
  and the daily job.

  \<^bold>\<open>What is shown.\<close> Readings: no operation panics whatever the network delivers (alone; two callers can
  make each other panic, which Transport_Race shows together with the condition that excludes it), and
  over a device the values are those of its registers. Storage: opening upgrades a file of any version,
  queries, aggregation and pruning are exact, and no sample is lost before its hour is summarised.
  Analysis: a run refines a specification over runs of out-of-range samples, and the events do not depend on
  how the samples are split over runs. Daemon: its states, its backoff, the serial check. API: statuses,
  histories, pages, routes, headers. Programs: what they print, and how they start and end. The theorem
  below runs through all of it, from the command line to the REST answer.

  \<^bold>\<open>Bounds.\<close> Register addresses and raw values are words of their width and wrap as in Go; identifiers
  and times are integers, far from their limits. Loops are structural recursion, or recursion with a
  measure where the code counts; the loops of the daemon, of the polling tool and of the processes
  run over an explicit list of events, of any length, so that no fuel is needed. \<open>prune_hourly_loop\<close> and its sibling terminate
  since each round deletes rows.

  \<^bold>\<open>Not modelled:\<close> the log and the progress figures that only feed it; the parsing of the flags by
  \<open>flag\<close>; the text of JSON and gzip, which are constructors of the body; the page of the dashboard, a
  parameter; percent-encoding of request paths; the text form of times in the database, and SQL itself
  apart from the effect of each statement; the journal, \<open>VACUUM\<close> and the locking of SQLite; the inside of
  the DTLS library and of the HTTP server. The probe that \<open>doConnect\<close> sends after a failed connection
  only chooses a log message and is left out.
\<close>

section \<open>From discovery to the sensor values\<close>

text \<open>
  The layers fit together: when the dongle at an address answers the probe in the TCP format with
  the serial number of an ET inverter, \<open>Discover\<close> returns an inverter, and reading its sensors over
  the network behind which the device stands gives exactly the values that the sensor tables assign
  to the device's registers.
\<close>

theorem discovered_inverter_reads_device:
  assumes "probe udp ip w = (Inr (''ccm@sn,ccm@sn,'' @ serial), w')"
    and "CHR '','' \<notin> set serial" "\<not> str_contains ''@busy'' serial"
    and "\<not> str_contains ''dtls_port:'' serial" "isETModel serial"
    and "device_block dv BlockMain \<noteq> None" "ctx_left ctx = None"
    and "\<forall>b. set (order b) = set (map fst (block_sensors b))"
  shows "\<exists>e e'. Discover udp (device_network (tcp_answer dv)) ip w = (Inr (OverTCP e), w') \<and>
           GetSensors order ctx e = Ret ((Some (device_sensors dv), None), e')"
  using Discover_tcp [OF assms(1-5)] tcp_device_values [OF assms(6-8)] by simp

lemma discovered_inverter_reads_device_witness:
  "\<exists>e e'. Discover (demo_udp ''ccm@sn,ccm@sn,9010KETU218W0001'') (device_network (tcp_answer demo_device))
       ''inv'' [] = (Inr (OverTCP e), []) \<and>
     GetSensors full_order \<lparr>ctx_left = None, ctx_err = ErrUnsupported\<rparr> e
       = Ret ((Some (device_sensors demo_device), None), e')"
proof (rule discovered_inverter_reads_device)
  show "probe (demo_udp ''ccm@sn,ccm@sn,9010KETU218W0001'') ''inv'' []
      = (Inr (''ccm@sn,ccm@sn,'' @ ''9010KETU218W0001''), [])"
    by (subst probe_demo) (simp_all add: printable_def)
qed (simp_all add: isETModel_def et_tags_def device_block_def demo_device_def block_consts full_order_def)

section \<open>From the registers to the REST answer\<close>

lemma sort_key_snoc:
  assumes "\<forall>y \<in> set xs. f y \<le> (f x :: int)"
  shows "sort_key f (xs @ [x]) = sort_key f xs @ [x]"
proof (rule properties_for_sort_key)
  show "filter (\<lambda>y. f k = f y) (sort_key f xs @ [x]) = filter (\<lambda>y. f k = f y) (xs @ [x])" for k
    using sort_key_stable [of f "f k" xs] by (simp add: eq_commute)
qed (use assms in \<open>simp_all add: sorted_append\<close>)

text \<open>A poll stores one row for a sensor; it becomes the latest sample unless there is a later one.\<close>

lemma stored_once:
  assumes "distinct names" "name \<in> set names" "Option.bind (m name) (sample_from now) = Some x"
  shows "filter (\<lambda>p. fst p = name) (stored_samples now m names) = [(name, x)]"
  using assms(1,2)
proof (induction names)
  case (Cons n ns)
  have none: "n \<notin> set ns \<Longrightarrow> filter (\<lambda>p. fst p = n) (stored_samples now m ns) = []" for n ns
    by (induction ns) (auto simp: stored_samples_Cons stored_samples_def List.map_filter_simps split: option.splits)
  show ?case
  proof (cases "n = name")
    case True
    with Cons.prems assms(3) none [of n ns] show ?thesis by (simp add: stored_samples_Cons)
  next
    case False
    with Cons show ?thesis by (simp add: stored_samples_Cons split: option.splits)
  qed
qed simp

lemma latest_after:
  assumes "no_faults db'" "db_samples db' = db_samples db @ rows"
    and "map (\<lambda>r. (sr_Name r, sr_Sample r)) rows = stored_samples now m names"
    and "distinct names" "name \<in> set names" "Option.bind (m name) (sample_from now) = Some x"
    and "\<forall>r \<in> set (db_samples db). sr_Name r = name \<longrightarrow> at_row r \<le> now"
  shows "\<exists>db2. LatestSample name db' = (Inr (Some x), db2)"
proof -
  have "map (\<lambda>r. (sr_Name r, sr_Sample r)) (filter (\<lambda>r. sr_Name r = name) rows) = [(name, x)]"
    using arg_cong [OF assms(3), of "filter (\<lambda>p. fst p = name)"] stored_once [of names name m now x] assms(4-6)
    by (simp add: filter_map comp_def)
  then obtain r where r: "filter (\<lambda>r. sr_Name r = name) rows = [r]" "sr_Sample r = x" by auto
  obtain y where "sample_from now y = Some x" using assms(6) by (auto simp: bind_eq_Some_conv)
  then have "sm_SampledAt x = now" by (cases "sv_Value y") (auto simp: sample_from_def)
  then have "at_row r = now" using r(2) by (simp add: at_row_def)
  then have "newest_first (filter (\<lambda>r. sr_Name r = name) (db_samples db')) = r # newest_first (filter (\<lambda>r. sr_Name r = name) (db_samples db))"
    using assms(2,7) r(1) by (simp add: newest_first_def sort_key_snoc)
  with assms(1) r(2) show ?thesis
    by (simp add: LatestSample_def failing_def query_sound)
qed

text \<open>
  A poll that gets the values \<open>m\<close> from the inverter makes them the answers of the handler.
\<close>

lemma latest_answer:
  assumes "dm_inverter d = Some (I, s)" "io_GetSensors I (te_ctx env) s = Ret ((Some m, None), s')"
    and "dm_store d = Some db" "sound_db db" "distinct (te_names env)" "name \<in> set (te_names env)"
    and "m name = Some sv" "sv_Value sv = VFloat x" "name \<noteq> []"
    and "\<forall>r \<in> set (db_samples db). sr_Name r = name \<longrightarrow> at_row r \<le> te_now_poll env"
    and "rq_sensor r = name" "rq_query r ''latest'' = ''true''"
  shows "\<exists>d' db'. doPoll env d = Ret d' \<and> dm_store d' = Some db' \<and>
    fst (handleGetAggregate (handler_of v d') now r db') = writeJSON 200 (JObject [(''sensor'', JString name),
      (''samples'', JArray [json_sample \<lparr>sm_Value = sql_real (Some x), sm_ValueText = None, sm_Unit = sv_Unit sv,
         sm_SampledAt = te_now_poll env\<rparr>])])"
proof -
  have "\<exists>d'. doPoll env d = Ret d'"
    using assms(1-3) by (simp add: doPoll_def call_inverter_def Let_def split: prod.splits)
  then obtain d' where d': "doPoll env d = Ret d'" ..
  obtain rows db1 where ins: "store_sensors (te_names env) m (te_now_poll env) 0 db = (0 + int (length rows), db1)"
      "db_samples db1 = db_samples db @ rows"
      "map (\<lambda>r. (sr_Name r, sr_Sample r)) rows = stored_samples (te_now_poll env) m (te_names env)"
    using store_sensors_sound [of db "te_names env" m "te_now_poll env" 0] assms(4) by (auto simp: sound_db_def)
  have "sound_db db1"
    using store_sensors_frame [OF ins(1)] assms(4) by (simp add: sound_db_def apart_from_samples_def)
  then obtain db2 where run: "RunVoltageAnalysis (te_now_analysis env) db_store db1 = (None, db2)" "sound_db db2"
    using db_reliable.run_succeeds by blast
  have "dm_store d' = Some db2"
    using doPoll_spec [OF d' assms(1)] assms(2,3) ins(1) run(1) by auto
  moreover have "\<exists>db3. LatestSample name db2 = (Inr (Some \<lparr>sm_Value = sql_real (Some x), sm_ValueText = None,
      sm_Unit = sv_Unit sv, sm_SampledAt = te_now_poll env\<rparr>), db3)"
  proof (rule latest_after [OF _ _ ins(3) assms(5,6) _ assms(10)])
    show "no_faults db2" using run(2) by (simp add: sound_db_def no_faults_def)
    show "db_samples db2 = db_samples db @ rows" using db_voltage.run_rows [OF run(1)] ins(2) by simp
    show "Option.bind (m name) (sample_from (te_now_poll env)) = Some \<lparr>sm_Value = sql_real (Some x), sm_ValueText = None,
      sm_Unit = sv_Unit sv, sm_SampledAt = te_now_poll env\<rparr>"
      using assms(7,8) by (simp add: sample_from_def)
  qed
  ultimately show ?thesis
    using d' assms(9,11,12)
    by (auto simp: handleGetAggregate_def aggregate_latest_def db_sensor_store_def status_defs)
qed

text \<open>A file without an identity, as it is before the first connection, with no sample from the future.\<close>

definition first_run :: "machine \<Rightarrow> string \<Rightarrow> string \<Rightarrow> gotime_ns \<Rightarrow> bool" where
  "first_run mc dsn name now \<longleftrightarrow> (\<exists>path s. parseDSN mc dsn = Inr path \<and> mc_sqlOpen mc path = Inr s \<and> layout s \<and>
     no_faults (sc_db s) \<and> db_identity (sc_db s) = [] \<and>
     (\<forall>r \<in> set (db_samples (sc_db s)). sr_Name r = name \<longrightarrow> at_row r \<le> now))"

text \<open>The dongle at the address answers in the TCP format and the device is behind it.\<close>

definition device_at :: "device \<Rightarrow> byte list startEnv \<Rightarrow> string \<Rightarrow> bool" where
  "device_at dv env ip \<longleftrightarrow> st_network env = device_network (tcp_answer dv) \<and> device_block dv BlockMain \<noteq> None \<and>
     (\<exists>serial w. probe (st_udp env) ip (st_world env) = (Inr (''ccm@sn,ccm@sn,'' @ serial), w) \<and>
        CHR '','' \<notin> set serial \<and> \<not> str_contains ''@busy'' serial \<and> \<not> str_contains ''dtls_port:'' serial \<and>
        isETModel serial)"

lemma Discover_device:
  assumes "device_at dv env ip"
  shows "\<exists>serial s w. Discover (st_udp env) (st_network env) ip (st_world env) =
    (Inr (OverTCP (tcp_device_inverter serial dv s)), w)"
  using assms Discover_tcp by (fastforce simp: device_at_def)



end
